(* ===== verification/Nif_Prelude.thy ===== *)
theory Nif_Prelude
  imports "HOL-Library.Word" "HOL-Library.Multiset"
begin

text \<open>
  What the theories of the file NIF share: bytes and C strings, the \<^verbatim>\<open>strtok_r\<close> splitting of
  a path, little-endian integers, the result types, and generic lemmas on them.

  A C string is a list of bytes without its terminating NUL. A buffer that was filled from an Erlang
  binary may hold a NUL of its own, and every C function that reads it as a string stops there:
  \<open>cstr\<close> is that reading.
\<close>

unbundle bit_operations_syntax

named_theorems sample_simps "the kernel in memory and its sample, for evaluation"

subsection \<open>Bytes and C strings\<close>

type_synonym byte = "8 word"
type_synonym bytes = "byte list"

abbreviation SLASH :: byte where "SLASH \<equiv> 47"
abbreviation DOT :: bytes where "DOT \<equiv> [46]"
abbreviation DOTDOT :: bytes where "DOTDOT \<equiv> [46, 46]"

definition cstr :: "bytes \<Rightarrow> bytes" where
  "cstr bs = takeWhile (\<lambda>b. b \<noteq> 0) bs"

text \<open>
  One call of \<^verbatim>\<open>strtok_r (s, "/", &save)\<close>: skip the slashes, then cut the token at the next
  slash. The result is the token and what \<^verbatim>\<open>save\<close> points at, or nothing when only slashes are
  left. \<open>components\<close> is what calling it until it answers NULL yields.
\<close>

definition strtok_r :: "bytes \<Rightarrow> (bytes \<times> bytes) option" where
  "strtok_r s =
     (let s' = dropWhile (\<lambda>b. b = SLASH) s
      in if s' = [] then None
         else Some (takeWhile (\<lambda>b. b \<noteq> SLASH) s', drop 1 (dropWhile (\<lambda>b. b \<noteq> SLASH) s')))"

lemma strtok_r_shrinks: "strtok_r s = Some (t, r) \<Longrightarrow> length r < length s"
proof -
  assume a: "strtok_r s = Some (t, r)"
  define s' where "s' = dropWhile (\<lambda>b. b = SLASH) s"
  have ne: "s' \<noteq> []" and r: "r = drop 1 (dropWhile (\<lambda>b. b \<noteq> SLASH) s')"
    using a by (auto simp: strtok_r_def s'_def Let_def split: if_splits)
  have "length s' \<le> length s" by (simp add: s'_def length_dropWhile_le)
  moreover have "length (dropWhile (\<lambda>b. b \<noteq> SLASH) s') \<le> length s'" by (rule length_dropWhile_le)
  moreover have "length s' > 0" using ne by simp
  ultimately show ?thesis unfolding r by (simp, arith)
qed

function components :: "bytes \<Rightarrow> bytes list" where
  "components s = (case strtok_r s of None \<Rightarrow> [] | Some (t, r) \<Rightarrow> t # components r)"
  by pat_completeness auto
termination
  by (relation "measure length") (auto dest: strtok_r_shrinks)

declare components.simps [simp del]

text \<open>A name that a directory entry can have: neither of the two special names, and one component.\<close>

definition plain :: "bytes \<Rightarrow> bool" where
  "plain n \<longleftrightarrow> n \<noteq> [] \<and> SLASH \<notin> set n \<and> 0 \<notin> set n \<and> n \<noteq> DOT \<and> n \<noteq> DOTDOT"

definition one_component :: "bytes \<Rightarrow> bool" where
  "one_component n \<longleftrightarrow> n \<noteq> [] \<and> SLASH \<notin> set n \<and> 0 \<notin> set n"

lemma one_component_cases: "one_component n \<longleftrightarrow> n = DOT \<or> n = DOTDOT \<or> plain n"
  by (auto simp: one_component_def plain_def)

lemma cstr_no_nul: "0 \<notin> set (cstr bs)"
  by (auto simp: cstr_def dest: set_takeWhileD)

lemma cstr_id: "0 \<notin> set bs \<Longrightarrow> cstr bs = bs"
  unfolding cstr_def by (rule takeWhile_eq_all_conv [THEN iffD2]) auto

lemma cstr_cstr [simp]: "cstr (cstr bs) = cstr bs"
  by (simp add: cstr_id cstr_no_nul)

lemma length_cstr: "length (cstr bs) \<le> length bs"
  by (simp add: cstr_def length_takeWhile_le)

lemma strtok_r_parts:
  assumes "strtok_r s = Some (t, r)"
  shows "t \<noteq> []" and "SLASH \<notin> set t" and "set t \<subseteq> set s" and "set r \<subseteq> set s"
proof -
  define s' where "s' = dropWhile (\<lambda>b. b = SLASH) s"
  have ne: "s' \<noteq> []" and t: "t = takeWhile (\<lambda>b. b \<noteq> SLASH) s'"
    and r: "r = drop 1 (dropWhile (\<lambda>b. b \<noteq> SLASH) s')"
    using assms by (auto simp: strtok_r_def s'_def Let_def split: if_splits)
  have hd: "hd s' \<noteq> SLASH" using ne unfolding s'_def by (rule hd_dropWhile)
  show "t \<noteq> []" using ne hd t by (cases s') auto
  show "SLASH \<notin> set t" unfolding t by (auto dest: set_takeWhileD)
  have sub: "set s' \<subseteq> set s" unfolding s'_def by (auto dest: set_dropWhileD)
  show "set t \<subseteq> set s" using sub unfolding t by (auto dest: set_takeWhileD)
  show "set r \<subseteq> set s" using sub unfolding r by (auto dest!: in_set_dropD set_dropWhileD)
qed

lemma components_one_component:
  "0 \<notin> set s \<Longrightarrow> c \<in> set (components s) \<Longrightarrow> one_component c"
proof (induction s rule: components.induct)
  case (1 s)
  show ?case
  proof (cases "strtok_r s")
    case None
    with "1.prems" show ?thesis by (simp add: components.simps [of s])
  next
    case (Some p)
    obtain t r where p: "p = (t, r)" by (cases p)
    note parts = strtok_r_parts [OF Some [unfolded p]]
    from "1.prems"(2) Some p have "c = t \<or> c \<in> set (components r)"
      by (simp add: components.simps [of s])
    then show ?thesis
    proof
      assume "c = t"
      with parts "1.prems"(1) show ?thesis by (auto simp: one_component_def)
    next
      assume "c \<in> set (components r)"
      with "1.IH" [OF Some p [symmetric]] parts "1.prems"(1) show ?thesis
        by auto
    qed
  qed
qed

lemma strtok_r_None: "strtok_r s = None \<longleftrightarrow> set s \<subseteq> {SLASH}"
  by (auto simp: strtok_r_def Let_def dropWhile_eq_Nil_conv)

lemma components_empty: "components s = [] \<longleftrightarrow> set s \<subseteq> {SLASH}"
  by (subst components.simps) (auto split: option.splits simp: strtok_r_None [symmetric])

lemma components_relative: "s \<noteq> [] \<Longrightarrow> hd s \<noteq> SLASH \<Longrightarrow> components s \<noteq> []"
  by (cases s) (auto simp: components_empty)

text \<open>A string that is one component splits into itself, and a slash separates.\<close>

lemma strtok_r_one:
  assumes "one_component t"
  shows "strtok_r t = Some (t, [])" and "strtok_r (t @ SLASH # r) = Some (t, r)"
proof -
  have ne: "t \<noteq> []" and ns: "SLASH \<notin> set t" using assms by (auto simp: one_component_def)
  from ne ns have d: "dropWhile (\<lambda>b. b = SLASH) (t @ u) = t @ u" for u
    by (cases t) auto
  from ns have tw: "takeWhile (\<lambda>b. b \<noteq> SLASH) t = t"
    by (auto simp: takeWhile_eq_all_conv)
  from ns have dw: "dropWhile (\<lambda>b. b \<noteq> SLASH) t = []"
    by (auto simp: dropWhile_eq_Nil_conv)
  show "strtok_r t = Some (t, [])"
    using d [of "[]"] ne by (simp add: strtok_r_def tw dw)
  have "takeWhile (\<lambda>b. b \<noteq> SLASH) (t @ SLASH # r) = t"
    and "dropWhile (\<lambda>b. b \<noteq> SLASH) (t @ SLASH # r) = SLASH # r"
    using ns by (auto simp: takeWhile_append dropWhile_append)
  then show "strtok_r (t @ SLASH # r) = Some (t, r)"
    using d [of "SLASH # r"] ne by (simp add: strtok_r_def)
qed

lemma components_one [simp]: "one_component t \<Longrightarrow> components t = [t]"
  by (simp add: components.simps [of t] components.simps [of "[]"] strtok_r_one strtok_r_def [of "[]"])

lemma components_cons [simp]: "one_component t \<Longrightarrow> components (t @ SLASH # r) = t # components r"
  by (simp add: components.simps [of "t @ SLASH # r"] strtok_r_one)

subsection \<open>Little-endian integers\<close>

text \<open>
  \<open>put_le n v\<close> are the low \<open>n\<close> bytes of a word, lowest first; \<open>get_le\<close> folds them back, from
  the last byte down.
\<close>

definition put_le :: "nat \<Rightarrow> 'a::len word \<Rightarrow> bytes" where
  "put_le n v = map (\<lambda>i. ucast (drop_bit (8 * i) v)) [0..<n]"

fun get_le :: "bytes \<Rightarrow> 'a::len word" where
  "get_le [] = 0"
| "get_le (b # bs) = push_bit 8 (get_le bs) OR ucast b"

lemma length_put_le [simp]: "length (put_le n v) = n"
  by (simp add: put_le_def)

lemma put_le_Suc: "put_le (Suc n) v = ucast v # put_le n (drop_bit 8 v)"
proof -
  have "[0..<Suc n] = 0 # map Suc [0..<n]" by (simp add: map_Suc_upt upt_conv_Cons del: upt_Suc)
  then show ?thesis by (simp add: put_le_def o_def drop_bit_drop_bit add.commute del: upt_Suc)
qed

lemma get_put_le_take: "get_le (put_le n v) = take_bit (8 * n) (v :: 'a::len word)"
proof (induction n arbitrary: v)
  case 0
  then show ?case by (simp add: put_le_def)
next
  case (Suc n)
  have "push_bit 8 (take_bit (8 * n) (drop_bit 8 v)) OR ucast (ucast v :: byte)
      = take_bit (8 * Suc n) v"
    by (rule bit_word_eqI)
      (auto simp: bit_or_iff bit_push_bit_iff bit_take_bit_iff bit_drop_bit_eq bit_ucast_iff
        dest: bit_imp_le_length)
  with Suc.IH [of "drop_bit 8 v"] show ?case by (simp add: put_le_Suc)
qed

lemma get_put_le: "LENGTH('a) \<le> 8 * n \<Longrightarrow> get_le (put_le n v) = (v :: 'a::len word)"
  by (simp add: get_put_le_take take_bit_word_eq_self)

end
