(* ===== verification/Nif_Term.thy ===== *)
theory Nif_Term
  imports Nif_Prelude
begin

text \<open>
  The two values the NIF exchanges with its surroundings: POSIX errors, from the kernel, and Erlang
  terms, from and to the emulator.

  An \<open>errno\<close> is the name \<^verbatim>\<open><errno.h>\<close> gives a number. The numbers differ per platform and the
  code never looks at them, so the model keeps the names the code's table has, and one constructor
  for every other number. \<open>walk_err\<close> adds the walk's own refusal, the \<^verbatim>\<open>E_REFUSED\<close> that is not
  an errno.
\<close>

subsection \<open>Errors\<close>

datatype errno =
    EACCES | EAGAIN | EBADF | EBUSY | EEXIST | EFAULT | EFBIG | EINVAL | EIO | EISDIR | ELOOP
  | EMFILE | ENAMETOOLONG | ENFILE | ENOENT | ENOMEM | ENOSPC | ENOSYS | ENOTDIR | ENOTEMPTY
  | ENOTSUP | ENXIO | EPERM | EPIPE | EROFS | ESPIPE | EXDEV
  | Eother int

datatype walk_err = E_REFUSED | Errno errno

subsection \<open>Erlang terms\<close>

text \<open>
  A term is what the NIF can take apart or build: a handle (\<open>TRes\<close>, by its index in the table of
  resources), a binary, an integer, an atom, a list, a tuple, a map. A charlist is a list of
  integers.
\<close>

datatype eterm =
    Atom string
  | TInt int
  | TBin bytes
  | TRes nat
  | TList "eterm list"
  | TTuple "eterm list"
  | TMap "(eterm \<times> eterm) list"

text \<open>A NIF returns a term or raises \<^verbatim>\<open>badarg\<close>.\<close>

datatype nif_result = Term eterm | Badarg

abbreviation atom_ok :: eterm where "atom_ok \<equiv> Atom ''ok''"

text \<open>The \<^verbatim>\<open>enif_get_*\<close> calls: the value, when the term is one and it fits the C type.\<close>

fun inspect_binary :: "eterm \<Rightarrow> bytes option" where
  "inspect_binary (TBin b) = Some b"
| "inspect_binary _ = None"

fun get_ranged :: "int \<Rightarrow> int \<Rightarrow> eterm \<Rightarrow> int option" where
  "get_ranged lo hi (TInt i) = (if lo \<le> i \<and> i < hi then Some i else None)"
| "get_ranged lo hi _ = None"

abbreviation get_int :: "eterm \<Rightarrow> int option" where "get_int \<equiv> get_ranged (- (2 ^ 31)) (2 ^ 31)"
abbreviation get_uint :: "eterm \<Rightarrow> int option" where "get_uint \<equiv> get_ranged 0 (2 ^ 32)"
abbreviation get_int64 :: "eterm \<Rightarrow> int option" where "get_int64 \<equiv> get_ranged (- (2 ^ 63)) (2 ^ 63)"
abbreviation get_uint64 :: "eterm \<Rightarrow> int option" where "get_uint64 \<equiv> get_ranged 0 (2 ^ 64)"
abbreviation get_ulong :: "eterm \<Rightarrow> int option" where "get_ulong \<equiv> get_ranged 0 (2 ^ 64)"

text \<open>
  \<^verbatim>\<open>enif_get_string (\<dots>, buf, size, ERL_NIF_LATIN1)\<close>: a list of byte-sized integers that fits the
  buffer with its NUL. A non-positive answer of the call (not a string, or truncated) is \<open>None\<close>.
\<close>

fun latin1 :: "eterm list \<Rightarrow> bytes option" where
  "latin1 [] = Some []"
| "latin1 (t # ts) =
     (case get_ranged 0 256 t of None \<Rightarrow> None
      | Some c \<Rightarrow> (case latin1 ts of None \<Rightarrow> None | Some cs \<Rightarrow> Some (word_of_int c # cs)))"

fun get_string :: "nat \<Rightarrow> eterm \<Rightarrow> bytes option" where
  "get_string cap (TList ts) =
     (case latin1 ts of None \<Rightarrow> None | Some cs \<Rightarrow> if length cs < cap then Some cs else None)"
| "get_string cap _ = None"

subsection \<open>Errors as terms\<close>

fun errno_name :: "errno \<Rightarrow> string option" where
  "errno_name EACCES = Some ''eacces''"
| "errno_name EAGAIN = Some ''eagain''"
| "errno_name EBADF = Some ''ebadf''"
| "errno_name EBUSY = Some ''ebusy''"
| "errno_name EEXIST = Some ''eexist''"
| "errno_name EFAULT = Some ''efault''"
| "errno_name EFBIG = Some ''efbig''"
| "errno_name EINVAL = Some ''einval''"
| "errno_name EIO = Some ''eio''"
| "errno_name EISDIR = Some ''eisdir''"
| "errno_name ELOOP = Some ''eloop''"
| "errno_name EMFILE = Some ''emfile''"
| "errno_name ENAMETOOLONG = Some ''enametoolong''"
| "errno_name ENFILE = Some ''enfile''"
| "errno_name ENOENT = Some ''enoent''"
| "errno_name ENOMEM = Some ''enomem''"
| "errno_name ENOSPC = Some ''enospc''"
| "errno_name ENOSYS = Some ''enosys''"
| "errno_name ENOTDIR = Some ''enotdir''"
| "errno_name ENOTEMPTY = Some ''enotempty''"
| "errno_name ENOTSUP = Some ''enotsup''"
| "errno_name ENXIO = Some ''enxio''"
| "errno_name EPERM = Some ''eperm''"
| "errno_name EPIPE = Some ''epipe''"
| "errno_name EROFS = Some ''erofs''"
| "errno_name ESPIPE = Some ''espipe''"
| "errno_name EXDEV = Some ''exdev''"
| "errno_name (Eother n) = None"

text \<open>
  \<^verbatim>\<open>mk_errno\<close>: the walk's refusal has an atom of its own, a named errno is its name, any other keeps
  its number. (\<open>errno_name\<close> answers NULL for \<open>Eother\<close> only.)
\<close>

fun mk_errno :: "walk_err \<Rightarrow> eterm" where
  "mk_errno E_REFUSED = TTuple [Atom ''error'', Atom ''enotcapable'']"
| "mk_errno (Errno e) =
     TTuple [Atom ''error'',
       (case e of Eother n \<Rightarrow> TTuple [Atom ''unknown_errno'', TInt n]
        | _ \<Rightarrow> Atom (the (errno_name e)))]"

definition mk_ok :: "eterm \<Rightarrow> eterm" where
  "mk_ok v = TTuple [atom_ok, v]"

abbreviation err :: "errno \<Rightarrow> nif_result" where "err e \<equiv> Term (mk_errno (Errno e))"

subsection \<open>The WASI code of an error\<close>

text \<open>
  \<^verbatim>\<open>wasi_fs:map_posix/1\<close>, the table on the Erlang side that reads these atoms: the numbers are the
  preview 1 codes of \<^verbatim>\<open>include/wasi.hrl\<close>, and everything unlisted is EIO.
\<close>

definition map_posix_table :: "(string \<times> nat) list" where
  "map_posix_table =
    [(''enotcapable'', 76), (''enoent'', 44), (''eexist'', 20), (''eacces'', 2), (''eisdir'', 31),
     (''enotdir'', 54), (''enotempty'', 55), (''eloop'', 32), (''eperm'', 63), (''ebadf'', 8),
     (''espipe'', 70), (''einval'', 28), (''eagain'', 6), (''efault'', 21), (''emfile'', 33),
     (''enfile'', 41), (''ebusy'', 10), (''efbig'', 22), (''enxio'', 60), (''enomem'', 48),
     (''enospc'', 51), (''enosys'', 52), (''enotsup'', 58), (''epipe'', 64), (''erofs'', 69),
     (''exdev'', 75), (''enametoolong'', 37)]"

fun map_posix :: "eterm \<Rightarrow> nat" where
  "map_posix (Atom a) = (case map_of map_posix_table a of Some n \<Rightarrow> n | None \<Rightarrow> 29)"
| "map_posix _ = 29"

text \<open>What \<^verbatim>\<open>wasi_fs\<close> answers for a NIF error: \<open>{error, E}\<close> becomes \<open>map_posix E\<close>.\<close>

fun wasi_code :: "eterm \<Rightarrow> nat option" where
  "wasi_code (TTuple [Atom s, e]) = (if s = ''error'' then Some (map_posix e) else None)"
| "wasi_code _ = None"

end
