(* ===== verification/Nif_Kernel.thy ===== *)
theory Nif_Kernel
  imports Nif_Term
begin

text \<open>
  What the NIF calls and does not define: the POSIX system calls and directory streams, the
  platform's constants, and the emulator's allocations. They are the fields of the record
  \<open>kernel\<close>, an argument of every definition that makes such a call, over a world \<open>'w\<close> that the
  calls read and change. Nothing is assumed of them here: a call may do anything to the world,
  including what other threads and processes do to it meanwhile.

  The second half is the bookkeeper. \<open>audited pol K\<close> is the kernel \<open>K\<close> over a world that also
  records which descriptors and streams the program owns, and whether every call so far used only
  what it owns and was allowed by the policy \<open>pol\<close>. Running the program's definitions on it states
  resource and sandbox properties of the program with no change to the definitions.
\<close>

subsection \<open>The types of the calls\<close>

type_synonym fd = nat
type_synonym dirp = nat
type_synonym cint = "32 word"
type_synonym u64 = "64 word"

abbreviation O_RDONLY :: cint where "O_RDONLY \<equiv> 0"

datatype ftype = S_IFDIR | S_IFREG | S_IFLNK | S_IFCHR | S_IFBLK | S_IFSOCK | S_IFother

record timespec =
  tv_sec :: int
  tv_nsec :: int

record stat =
  st_mode :: ftype
  st_size :: int
  st_ino :: u64
  st_dev :: u64
  st_nlink :: u64
  st_atim :: timespec
  st_mtim :: timespec
  st_ctim :: timespec

datatype dtype = DT_DIR | DT_REG | DT_LNK | DT_CHR | DT_BLK | DT_SOCK | DT_other

record dirent =
  d_name :: bytes
  d_ino :: u64
  d_type :: dtype

text \<open>
  A call answers an errno or a value, and the next world. \<open>sys_readdir\<close> answers \<open>Inr None\<close> at the
  end of the stream and \<open>Inl\<close> for NULL with errno set. \<^verbatim>\<open>close\<close>, \<^verbatim>\<open>closedir\<close>, \<^verbatim>\<open>rewinddir\<close> and
  \<^verbatim>\<open>seekdir\<close> have no result the code looks at.

  \<open>dead_stack\<close> stands for what C leaves undefined: the bytes found through a pointer into the frame
  of a function that has returned, given the bytes that were there.
\<close>

record 'w kernel =
  O_DIRECTORY :: cint
  O_NOFOLLOW :: cint
  UTIME_OMIT :: int
  sys_open :: "bytes \<Rightarrow> cint \<Rightarrow> 'w \<Rightarrow> (errno + fd) \<times> 'w"
  sys_openat :: "fd \<Rightarrow> bytes \<Rightarrow> cint \<Rightarrow> nat \<Rightarrow> 'w \<Rightarrow> (errno + fd) \<times> 'w"
  sys_readlinkat :: "fd \<Rightarrow> bytes \<Rightarrow> nat \<Rightarrow> 'w \<Rightarrow> (errno + bytes) \<times> 'w"
  sys_close :: "fd \<Rightarrow> 'w \<Rightarrow> 'w"
  sys_dup :: "fd \<Rightarrow> 'w \<Rightarrow> (errno + fd) \<times> 'w"
  sys_mkdirat :: "fd \<Rightarrow> bytes \<Rightarrow> nat \<Rightarrow> 'w \<Rightarrow> (errno + unit) \<times> 'w"
  sys_unlinkat :: "fd \<Rightarrow> bytes \<Rightarrow> bool \<Rightarrow> 'w \<Rightarrow> (errno + unit) \<times> 'w"
  sys_symlinkat :: "bytes \<Rightarrow> fd \<Rightarrow> bytes \<Rightarrow> 'w \<Rightarrow> (errno + unit) \<times> 'w"
  sys_renameat :: "fd \<Rightarrow> bytes \<Rightarrow> fd \<Rightarrow> bytes \<Rightarrow> 'w \<Rightarrow> (errno + unit) \<times> 'w"
  sys_linkat :: "fd \<Rightarrow> bytes \<Rightarrow> fd \<Rightarrow> bytes \<Rightarrow> 'w \<Rightarrow> (errno + unit) \<times> 'w"
  sys_fstatat :: "fd \<Rightarrow> bytes \<Rightarrow> 'w \<Rightarrow> (errno + stat) \<times> 'w"
  sys_utimensat :: "fd \<Rightarrow> bytes \<Rightarrow> timespec \<times> timespec \<Rightarrow> 'w \<Rightarrow> (errno + unit) \<times> 'w"
  sys_fstat :: "fd \<Rightarrow> 'w \<Rightarrow> (errno + stat) \<times> 'w"
  sys_futimens :: "fd \<Rightarrow> timespec \<times> timespec \<Rightarrow> 'w \<Rightarrow> (errno + unit) \<times> 'w"
  sys_pread :: "fd \<Rightarrow> nat \<Rightarrow> int \<Rightarrow> 'w \<Rightarrow> (errno + bytes) \<times> 'w"
  sys_pwrite :: "fd \<Rightarrow> bytes \<Rightarrow> int \<Rightarrow> 'w \<Rightarrow> (errno + nat) \<times> 'w"
  sys_ftruncate :: "fd \<Rightarrow> int \<Rightarrow> 'w \<Rightarrow> (errno + unit) \<times> 'w"
  sys_fsync :: "fd \<Rightarrow> 'w \<Rightarrow> (errno + unit) \<times> 'w"
  sys_fdopendir :: "fd \<Rightarrow> 'w \<Rightarrow> (errno + dirp) \<times> 'w"
  sys_closedir :: "dirp \<Rightarrow> 'w \<Rightarrow> 'w"
  sys_rewinddir :: "dirp \<Rightarrow> 'w \<Rightarrow> 'w"
  sys_seekdir :: "dirp \<Rightarrow> u64 \<Rightarrow> 'w \<Rightarrow> 'w"
  sys_telldir :: "dirp \<Rightarrow> 'w \<Rightarrow> u64 \<times> 'w"
  sys_readdir :: "dirp \<Rightarrow> 'w \<Rightarrow> (errno + dirent option) \<times> 'w"
  sys_dirstat :: "dirp \<Rightarrow> bytes \<Rightarrow> 'w \<Rightarrow> (errno + stat) \<times> 'w"
  alloc_resource :: "'w \<Rightarrow> bool \<times> 'w"
  mutex_create :: "'w \<Rightarrow> bool \<times> 'w"
  alloc_binary :: "nat \<Rightarrow> 'w \<Rightarrow> bool \<times> 'w"
  alloc :: "nat \<Rightarrow> 'w \<Rightarrow> bool \<times> 'w"
  dead_stack :: "bytes \<Rightarrow> 'w \<Rightarrow> bytes"

text \<open>
  \<^verbatim>\<open>fstatat\<close> and \<^verbatim>\<open>utimensat\<close> are called with \<^verbatim>\<open>AT_SYMLINK_NOFOLLOW\<close> and \<^verbatim>\<open>linkat\<close> with flags 0
  at every place of the code, so the fields stand for those calls. \<open>sys_dirstat d n\<close> is
  \<^verbatim>\<open>fstatat (dirfd (d), n, \<dots>)\<close>, on the descriptor the stream owns.
\<close>

subsection \<open>Auditing a run\<close>

datatype call =
    COpen bytes cint
  | COpenat fd bytes cint
  | CReadlinkat fd bytes
  | CClose fd
  | CDup fd
  | CMkdirat fd bytes
  | CUnlinkat fd bytes
  | CSymlinkat fd bytes
  | CRenameat fd bytes fd bytes
  | CLinkat fd bytes fd bytes
  | CFstatat fd bytes
  | CUtimensat fd bytes
  | CFd fd
  | CFdopendir fd
  | CClosedir dirp
  | CDir dirp

fun call_fds :: "call \<Rightarrow> fd list" where
  "call_fds (COpen p fl) = []"
| "call_fds (COpenat d n fl) = [d]"
| "call_fds (CReadlinkat d n) = [d]"
| "call_fds (CClose f) = [f]"
| "call_fds (CDup f) = [f]"
| "call_fds (CMkdirat d n) = [d]"
| "call_fds (CUnlinkat d n) = [d]"
| "call_fds (CSymlinkat d n) = [d]"
| "call_fds (CRenameat d n d' n') = [d, d']"
| "call_fds (CLinkat d n d' n') = [d, d']"
| "call_fds (CFstatat d n) = [d]"
| "call_fds (CUtimensat d n) = [d]"
| "call_fds (CFd f) = [f]"
| "call_fds (CFdopendir f) = [f]"
| "call_fds (CClosedir s) = []"
| "call_fds (CDir s) = []"

fun call_dirs :: "call \<Rightarrow> dirp list" where
  "call_dirs (CClosedir s) = [s]"
| "call_dirs (CDir s) = [s]"
| "call_dirs _ = []"

text \<open>
  \<open>held\<close> and \<open>strm\<close> are the descriptors and the streams the program has been given and has not
  given back; \<open>ok\<close> says that no call used one it did not own and that the policy allowed each.
\<close>

record 'w audit =
  world :: 'w
  held :: "fd multiset"
  strm :: "dirp multiset"
  ok :: bool

type_synonym 'w policy = "'w \<Rightarrow> call \<Rightarrow> bool"

definition check :: "'w policy \<Rightarrow> call \<Rightarrow> 'w audit \<Rightarrow> 'w audit" where
  "check pol c a =
     a\<lparr>ok := ok a \<and> set (call_fds c) \<subseteq> set_mset (held a) \<and> set (call_dirs c) \<subseteq> set_mset (strm a)
            \<and> pol (world a) c\<rparr>"

definition on_base :: "('w \<Rightarrow> 'r \<times> 'w) \<Rightarrow> 'w audit \<Rightarrow> 'r \<times> 'w audit" where
  "on_base f a = (case f (world a) of (r, w) \<Rightarrow> (r, a\<lparr>world := w\<rparr>))"

definition gain :: "(errno + fd) \<times> 'w audit \<Rightarrow> (errno + fd) \<times> 'w audit" where
  "gain p = (case p of (r, a) \<Rightarrow>
     (r, case r of Inl _ \<Rightarrow> a | Inr f \<Rightarrow> a\<lparr>held := add_mset f (held a)\<rparr>))"

definition adopt :: "fd \<Rightarrow> (errno + dirp) \<times> 'w audit \<Rightarrow> (errno + dirp) \<times> 'w audit" where
  "adopt f p = (case p of (r, a) \<Rightarrow>
     (r, case r of Inl _ \<Rightarrow> a
         | Inr s \<Rightarrow> a\<lparr>held := held a - {#f#}, strm := add_mset s (strm a)\<rparr>))"

definition audited :: "'w policy \<Rightarrow> 'w kernel \<Rightarrow> 'w audit kernel" where
  "audited pol K =
   \<lparr>O_DIRECTORY = O_DIRECTORY K, O_NOFOLLOW = O_NOFOLLOW K, UTIME_OMIT = UTIME_OMIT K,
    sys_open = (\<lambda>p fl a. gain (on_base (sys_open K p fl) (check pol (COpen p fl) a))),
    sys_openat = (\<lambda>d n fl m a. gain (on_base (sys_openat K d n fl m) (check pol (COpenat d n fl) a))),
    sys_readlinkat = (\<lambda>d n k a. on_base (sys_readlinkat K d n k) (check pol (CReadlinkat d n) a)),
    sys_close = (\<lambda>f a. (check pol (CClose f) a)\<lparr>world := sys_close K f (world a), held := held a - {#f#}\<rparr>),
    sys_dup = (\<lambda>f a. gain (on_base (sys_dup K f) (check pol (CDup f) a))),
    sys_mkdirat = (\<lambda>d n m a. on_base (sys_mkdirat K d n m) (check pol (CMkdirat d n) a)),
    sys_unlinkat = (\<lambda>d n r a. on_base (sys_unlinkat K d n r) (check pol (CUnlinkat d n) a)),
    sys_symlinkat = (\<lambda>t d n a. on_base (sys_symlinkat K t d n) (check pol (CSymlinkat d n) a)),
    sys_renameat = (\<lambda>d n d' n' a. on_base (sys_renameat K d n d' n') (check pol (CRenameat d n d' n') a)),
    sys_linkat = (\<lambda>d n d' n' a. on_base (sys_linkat K d n d' n') (check pol (CLinkat d n d' n') a)),
    sys_fstatat = (\<lambda>d n a. on_base (sys_fstatat K d n) (check pol (CFstatat d n) a)),
    sys_utimensat = (\<lambda>d n ts a. on_base (sys_utimensat K d n ts) (check pol (CUtimensat d n) a)),
    sys_fstat = (\<lambda>f a. on_base (sys_fstat K f) (check pol (CFd f) a)),
    sys_futimens = (\<lambda>f ts a. on_base (sys_futimens K f ts) (check pol (CFd f) a)),
    sys_pread = (\<lambda>f n off a. on_base (sys_pread K f n off) (check pol (CFd f) a)),
    sys_pwrite = (\<lambda>f bs off a. on_base (sys_pwrite K f bs off) (check pol (CFd f) a)),
    sys_ftruncate = (\<lambda>f n a. on_base (sys_ftruncate K f n) (check pol (CFd f) a)),
    sys_fsync = (\<lambda>f a. on_base (sys_fsync K f) (check pol (CFd f) a)),
    sys_fdopendir = (\<lambda>f a. adopt f (on_base (sys_fdopendir K f) (check pol (CFdopendir f) a))),
    sys_closedir = (\<lambda>s a. (check pol (CClosedir s) a)\<lparr>world := sys_closedir K s (world a), strm := strm a - {#s#}\<rparr>),
    sys_rewinddir = (\<lambda>s a. (check pol (CDir s) a)\<lparr>world := sys_rewinddir K s (world a)\<rparr>),
    sys_seekdir = (\<lambda>s c a. (check pol (CDir s) a)\<lparr>world := sys_seekdir K s c (world a)\<rparr>),
    sys_telldir = (\<lambda>s a. on_base (sys_telldir K s) (check pol (CDir s) a)),
    sys_readdir = (\<lambda>s a. on_base (sys_readdir K s) (check pol (CDir s) a)),
    sys_dirstat = (\<lambda>s n a. on_base (sys_dirstat K s n) (check pol (CDir s) a)),
    alloc_resource = on_base (alloc_resource K),
    mutex_create = on_base (mutex_create K),
    alloc_binary = (\<lambda>n. on_base (alloc_binary K n)),
    alloc = (\<lambda>n. on_base (alloc K n)),
    dead_stack = (\<lambda>n a. dead_stack K n (world a))\<rparr>"

text \<open>The books of a world in which nothing is open.\<close>

definition fresh_audit :: "'w \<Rightarrow> 'w audit" where
  "fresh_audit w = \<lparr>world = w, held = {#}, strm = {#}, ok = True\<rparr>"

subsection \<open>What an audited call does to the books\<close>

text \<open>
  Each call is rewritten to what it does to the four fields of the books; the lemmas that follow
  state results and later states of a call as equations on the fields, which is how the component
  proofs use them.
\<close>

lemma check_simps [simp]:
  "world (check pol c a) = world a" "held (check pol c a) = held a" "strm (check pol c a) = strm a"
  "ok (check pol c a) \<longleftrightarrow> ok a \<and> set (call_fds c) \<subseteq> set_mset (held a) \<and>
     set (call_dirs c) \<subseteq> set_mset (strm a) \<and> pol (world a) c"
  by (simp_all add: check_def)

lemma on_base_eq: "on_base f a = (fst (f (world a)), a\<lparr>world := snd (f (world a))\<rparr>)"
  by (simp add: on_base_def split: prod.splits)

lemma gain_simps [simp]:
  "gain (Inl e, a) = (Inl e, a)" "gain (Inr f, a) = (Inr f, a\<lparr>held := add_mset f (held a)\<rparr>)"
  by (simp_all add: gain_def)

lemma adopt_simps [simp]:
  "adopt f (Inl e, a) = (Inl e, a)"
  "adopt f (Inr s, a) = (Inr s, a\<lparr>held := held a - {#f#}, strm := add_mset s (strm a)\<rparr>)"
  by (simp_all add: adopt_def)

lemma audited_const [simp]:
  "O_DIRECTORY (audited pol K) = O_DIRECTORY K" "O_NOFOLLOW (audited pol K) = O_NOFOLLOW K"
  "UTIME_OMIT (audited pol K) = UTIME_OMIT K"
  "dead_stack (audited pol K) n a = dead_stack K n (world a)"
  by (simp_all add: audited_def)

end
