(* ===== verification/Nif_Walk.thy ===== *)
theory Nif_Walk
  imports Nif_Kernel
begin

text \<open>
  The path walk of \<^verbatim>\<open>c_src/wasi_file_nif.c\<close>: \<^verbatim>\<open>step\<close>, \<^verbatim>\<open>walk_from\<close>, \<^verbatim>\<open>walk_open\<close>, \<^verbatim>\<open>walk_parent\<close> and
  \<^verbatim>\<open>resolve_final\<close>. A walk takes a C string, resolves it one component at a time with
  \<^verbatim>\<open>openat (\<dots>, O_NOFOLLOW)\<close>, follows a symlink by walking its text, and counts how far below the
  preopen it is. The out-parameters of the C functions are the components of the result:
  \<open>Inr\<close> for a return of 0, \<open>Inl\<close> for an errno or the walk's own refusal.

  \<^verbatim>\<open>depth\<close> and \<^verbatim>\<open>budget\<close> are C ints that never go below 0: the code tests each for 0 before it counts
  down, so they are \<open>nat\<close> here. \<^verbatim>\<open>mode_t\<close> is a \<open>nat\<close> that is only passed on.
\<close>

definition MAX_PATH_LEN :: nat where "MAX_PATH_LEN = 4096"
definition MAX_SYMLINKS :: nat where "MAX_SYMLINKS = 8"

text \<open>
  The loop of \<^verbatim>\<open>walk_from\<close> is \<open>walk_loop\<close>, over the components that \<^verbatim>\<open>strtok_r\<close> will still
  deliver: \<^verbatim>\<open>next == NULL\<close> is \<open>rest = []\<close>. \<open>component_flags\<close> is its \<^verbatim>\<open>oflags\<close>. The three functions are mutually recursive as in C; the
  budget falls each time \<open>step\<close> re-enters the walk.
\<close>

definition component_flags :: "'w kernel \<Rightarrow> bool \<Rightarrow> cint \<Rightarrow> cint" where
  "component_flags K lst flags =
     (if lst then flags OR O_NOFOLLOW K else O_RDONLY OR O_DIRECTORY K OR O_NOFOLLOW K)"

function step :: "'w kernel \<Rightarrow> fd \<Rightarrow> bytes \<Rightarrow> cint \<Rightarrow> nat \<Rightarrow> nat \<Rightarrow> nat \<Rightarrow> bool \<Rightarrow> 'w
    \<Rightarrow> (walk_err + fd \<times> nat) \<times> 'w"
  and walk_from :: "'w kernel \<Rightarrow> fd \<Rightarrow> bytes \<Rightarrow> cint \<Rightarrow> nat \<Rightarrow> nat \<Rightarrow> nat \<Rightarrow> bool \<Rightarrow> 'w
    \<Rightarrow> (walk_err + fd \<times> nat) \<times> 'w"
  and walk_loop :: "'w kernel \<Rightarrow> fd \<Rightarrow> bool \<Rightarrow> bytes list \<Rightarrow> cint \<Rightarrow> nat \<Rightarrow> nat \<Rightarrow> nat \<Rightarrow> bool \<Rightarrow> 'w
    \<Rightarrow> (walk_err + fd \<times> nat) \<times> 'w"
where
  "step K cur cmp oflags mode depth budget may_follow w =
    (if cmp = DOT then
       (case sys_openat K cur DOT (O_RDONLY OR O_DIRECTORY K) 0 w of
          (Inl e, w1) \<Rightarrow> (Inl (Errno e), w1)
        | (Inr fd, w1) \<Rightarrow> (Inr (fd, depth), w1))
     else if cmp = DOTDOT then
       (if depth = 0 then (Inl E_REFUSED, w)
        else case sys_openat K cur DOTDOT (O_RDONLY OR O_DIRECTORY K) 0 w of
               (Inl e, w1) \<Rightarrow> (Inl (Errno e), w1)
             | (Inr fd, w1) \<Rightarrow> (Inr (fd, depth - 1), w1))
     else
       (case sys_openat K cur cmp oflags mode w of
          (Inr fd, w1) \<Rightarrow> (Inr (fd, depth + 1), w1)
        | (Inl e, w1) \<Rightarrow>
            if e \<noteq> ELOOP \<and> e \<noteq> ENOTDIR \<and> e \<noteq> ENXIO then (Inl (Errno e), w1)
            else if \<not> may_follow then (Inl (Errno ELOOP), w1)
            else if budget = 0 then (Inl (Errno ELOOP), w1)
            else
              (case sys_readlinkat K cur cmp (MAX_PATH_LEN - 1) w1 of
                 (Inl _, w2) \<Rightarrow> (Inl (Errno e), w2)
               | (Inr target, w2) \<Rightarrow>
                   if target \<noteq> [] \<and> hd target = SLASH then (Inl E_REFUSED, w2)
                   else walk_from K cur (cstr target) oflags mode depth (budget - 1) True w2)))"
| "walk_from K dirfd path flags mode depth budget follow_final w =
    (if path = [] then (Inl (Errno EINVAL), w)
     else if length path \<ge> MAX_PATH_LEN then (Inl (Errno ENAMETOOLONG), w)
     else if hd path = SLASH then (Inl E_REFUSED, w)
     else walk_loop K dirfd False (components path) flags mode depth budget follow_final w)"
| "walk_loop K cur cur_owned comps flags mode d budget follow_final w =
    (case comps of
       [] \<Rightarrow> if \<not> cur_owned then (Inl (Errno EINVAL), w) else (Inr (cur, d), w)
     | cmp # rest \<Rightarrow>
         (case step K cur cmp
                 (component_flags K (rest = []) flags)
                 mode d budget (if rest = [] then follow_final else True) w of
            (rc, w1) \<Rightarrow>
              (case rc of
                 Inl e \<Rightarrow> (Inl e, if cur_owned then sys_close K cur w1 else w1)
               | Inr (fd, nd) \<Rightarrow>
                   walk_loop K fd True rest flags mode nd budget follow_final
                     (if cur_owned then sys_close K cur w1 else w1))))"
  by pat_completeness auto
termination
  by (relation "measures
        [case_sum (\<lambda>(_, _, _, _, _, _, b, _). b)
           (case_sum (\<lambda>(_, _, _, _, _, _, b, _). b) (\<lambda>(_, _, _, _, _, _, _, b, _). b)),
         case_sum (\<lambda>_. 0) (case_sum (\<lambda>_. 2) (\<lambda>_. 1)),
         case_sum (\<lambda>_. 0) (case_sum (\<lambda>_. 0) (\<lambda>(_, _, _, cs, _). length cs))]")
    auto

declare step.simps [simp del] walk_from.simps [simp del] walk_loop.simps [simp del]

lemma walk_loop_Cons:
  "walk_loop K cur own (n # cs) fl m k b ff w =
     (case step K cur n (component_flags K (cs = []) fl) m k b (cs = [] \<longrightarrow> ff) w of
        (rc, w1) \<Rightarrow>
          (case rc of
             Inl e \<Rightarrow> (Inl e, if own then sys_close K cur w1 else w1)
           | Inr (fd, nd) \<Rightarrow>
               walk_loop K fd True cs fl m nd b ff (if own then sys_close K cur w1 else w1)))"
proof -
  have "(if cs = [] then ff else True) \<longleftrightarrow> (cs = [] \<longrightarrow> ff)" by simp
  then show ?thesis by (simp only: walk_loop.simps [of _ _ _ "_ # _"] list.case)
qed

lemma component_flags_nofollow: "component_flags K l fl AND O_NOFOLLOW K = O_NOFOLLOW K"
  by (auto simp: component_flags_def bit_simps intro: bit_word_eqI)

lemma component_flags_audited [simp]: "component_flags (audited pol K) = component_flags K"
  by (simp add: component_flags_def fun_eq_iff)

definition walk_open :: "'w kernel \<Rightarrow> fd \<Rightarrow> bytes \<Rightarrow> cint \<Rightarrow> nat \<Rightarrow> bool \<Rightarrow> 'w \<Rightarrow> (walk_err + fd) \<times> 'w" where
  "walk_open K dirfd path flags mode follow_final w =
     (case walk_from K dirfd path flags mode 0 MAX_SYMLINKS follow_final w of
        (Inl e, w1) \<Rightarrow> (Inl e, w1)
      | (Inr (fd, nd), w1) \<Rightarrow> (Inr fd, w1))"

subsection \<open>Walking to the parent\<close>

text \<open>
  \<^verbatim>\<open>walk_parent\<close> hands back a pointer to the last component, inside the buffer its caller gave it or
  to the static \<^verbatim>\<open>"."\<close>. A \<open>name_ref\<close> is that pointer: the storage it points into, and the bytes.
\<close>

datatype storage = Caller_buf | Local_buf | Static_dot

type_synonym name_ref = "storage \<times> bytes"
type_synonym parent = "fd \<times> bool \<times> name_ref"

fun parent_finish :: "'w kernel \<Rightarrow> fd \<Rightarrow> bool \<Rightarrow> name_ref \<Rightarrow> 'w \<Rightarrow> (walk_err + parent) \<times> 'w" where
  "parent_finish K cur owned (st, lst) w =
     (if lst = DOTDOT then (Inl E_REFUSED, if owned then sys_close K cur w else w)
      else (Inr (cur, owned, (st, lst)), w))"

fun parent_loop :: "'w kernel \<Rightarrow> storage \<Rightarrow> fd \<Rightarrow> bool \<Rightarrow> bytes list \<Rightarrow> nat \<Rightarrow> 'w
    \<Rightarrow> (walk_err + parent) \<times> 'w" where
  "parent_loop K st cur owned [] d w = parent_finish K cur owned (Static_dot, DOT) w"
| "parent_loop K st cur owned (cmp # rest) d w =
     (if rest = [] then parent_finish K cur owned (st, cmp) w
      else
        (case step K cur cmp (O_RDONLY OR O_DIRECTORY K OR O_NOFOLLOW K) 0 d MAX_SYMLINKS True w of
           (rc, w1) \<Rightarrow>
             (case rc of
                Inl e \<Rightarrow> (Inl e, if owned then sys_close K cur w1 else w1)
              | Inr (fd, nd) \<Rightarrow>
                  parent_loop K st fd True rest nd (if owned then sys_close K cur w1 else w1))))"

definition walk_parent :: "'w kernel \<Rightarrow> fd \<Rightarrow> bytes \<Rightarrow> storage \<Rightarrow> nat \<Rightarrow> 'w
    \<Rightarrow> (walk_err + parent) \<times> 'w" where
  "walk_parent K dirfd path buf buflen w =
     (if path = [] then (Inl (Errno EINVAL), w)
      else if length path \<ge> buflen then (Inl (Errno ENAMETOOLONG), w)
      else if hd path = SLASH then (Inl E_REFUSED, w)
      else parent_loop K buf dirfd False (components path) 0 w)"

text \<open>
  The loop of \<^verbatim>\<open>resolve_final\<close>: \<open>resolve_loop\<close> with the budget that is left. Each round that
  finds a symlink walks its text from the directory it sits in, into the function's own buffer
  \<^verbatim>\<open>lbuf\<close>, so the name that comes back points there (\<open>Local_buf\<close>).
\<close>

fun resolve_loop :: "'w kernel \<Rightarrow> nat \<Rightarrow> fd \<Rightarrow> bool \<Rightarrow> name_ref \<Rightarrow> 'w \<Rightarrow> (walk_err + parent) \<times> 'w" where
  "resolve_loop K 0 pfd owned name w =
     (Inl (Errno ELOOP), if owned then sys_close K pfd w else w)"
| "resolve_loop K (Suc budget) pfd owned name w =
     (case sys_readlinkat K pfd (snd name) (MAX_PATH_LEN - 1) w of
        (Inl _, w1) \<Rightarrow> (Inr (pfd, owned, name), w1)
      | (Inr link, w1) \<Rightarrow>
          if link \<noteq> [] \<and> hd link = SLASH
          then (Inl E_REFUSED, if owned then sys_close K pfd w1 else w1)
          else
            (case walk_parent K pfd (cstr link) Local_buf MAX_PATH_LEN w1 of
               (rc, w2) \<Rightarrow>
                 (case rc of
                    Inl e \<Rightarrow> (Inl e, if owned then sys_close K pfd w2 else w2)
                  | Inr (npfd, nowned, nname) \<Rightarrow>
                      resolve_loop K budget npfd nowned nname
                        (if owned then sys_close K pfd w2 else w2))))"

definition resolve_final :: "'w kernel \<Rightarrow> fd \<Rightarrow> bytes \<Rightarrow> storage \<Rightarrow> nat \<Rightarrow> 'w
    \<Rightarrow> (walk_err + parent) \<times> 'w" where
  "resolve_final K base path buf buflen w =
     (case walk_parent K base path buf buflen w of
        (Inl e, w1) \<Rightarrow> (Inl e, w1)
      | (Inr (pfd, owned, name), w1) \<Rightarrow> resolve_loop K MAX_SYMLINKS pfd owned name w1)"

end
