(* ===== verification/Nif_Walk_Rule.thy ===== *)
theory Nif_Walk_Rule
  imports Nif_Walk
begin

text \<open>
  The one induction over the walk. The locale \<open>walker\<close> is the contract between the walk and the
  kernel it runs on: a relation \<open>at\<close> between a descriptor, a depth and a world, which opening
  \<^verbatim>\<open>"."\<close>, \<^verbatim>\<open>".."\<close> or a name moves along as the code's depth counter does, and a policy that allows
  what the walk calls in such a state. Inside it, the walk is proved to keep the books of an audited
  kernel: every call allowed and made on an owned descriptor, everything opened on the way closed,
  nothing closed twice, and the result \<open>at\<close> the depth the code reports.

  Two instances matter. With the trivial relation it holds on every kernel and is the descriptor
  discipline of the walk (\<open>ledger\<close>, below). With \<open>at\<close> read as "is so many steps below the preopen"
  it is the sandbox (theory \<open>Nif_Sandbox\<close>).
\<close>

subsection \<open>Audited calls of the walk, as case rules\<close>

lemma audited_openatE:
  assumes "sys_openat (audited pol K) d n fl m a = (r, a')"
  obtains (fail) e w' where "r = Inl e" "sys_openat K d n fl m (world a) = (Inl e, w')"
      "world a' = w'" "held a' = held a" "strm a' = strm a"
      "ok a' \<longleftrightarrow> ok a \<and> d \<in># held a \<and> pol (world a) (COpenat d n fl)"
  | (opened) f w' where "r = Inr f" "sys_openat K d n fl m (world a) = (Inr f, w')"
      "world a' = w'" "held a' = add_mset f (held a)" "strm a' = strm a"
      "ok a' \<longleftrightarrow> ok a \<and> d \<in># held a \<and> pol (world a) (COpenat d n fl)"
proof -
  obtain r0 w0 where eq: "sys_openat K d n fl m (world a) = (r0, w0)" by (cases "sys_openat K d n fl m (world a)")
  with assms show thesis
    by (cases r0) (auto simp: audited_def on_base_eq intro: that)
qed

lemma audited_readlinkatE:
  assumes "sys_readlinkat (audited pol K) d n k a = (r, a')"
  obtains w' where "sys_readlinkat K d n k (world a) = (r, w')"
      "world a' = w'" "held a' = held a" "strm a' = strm a"
      "ok a' \<longleftrightarrow> ok a \<and> d \<in># held a \<and> pol (world a) (CReadlinkat d n)"
proof -
  obtain r0 w0 where "sys_readlinkat K d n k (world a) = (r0, w0)"
    by (cases "sys_readlinkat K d n k (world a)")
  with assms show thesis by (auto simp: audited_def on_base_eq intro: that)
qed

lemma audited_close [simp]:
  "world (sys_close (audited pol K) f a) = sys_close K f (world a)"
  "held (sys_close (audited pol K) f a) = held a - {#f#}"
  "strm (sys_close (audited pol K) f a) = strm a"
  "ok (sys_close (audited pol K) f a) \<longleftrightarrow> ok a \<and> f \<in># held a \<and> pol (world a) (CClose f)"
  by (simp_all add: audited_def)

subsection \<open>The contract\<close>

locale walker =
  fixes K :: "'w kernel" and pol :: "'w policy"
    and at :: "fd \<Rightarrow> nat \<Rightarrow> 'w \<Rightarrow> bool" and apart :: "fd \<Rightarrow> fd \<Rightarrow> bool"
  assumes dot_allowed: "at d k w \<Longrightarrow> pol w (COpenat d DOT (O_DIRECTORY K))"
    and dot_at: "at d k w \<Longrightarrow> sys_openat K d DOT (O_DIRECTORY K) 0 w = (Inr f, w') \<Longrightarrow> at f k w'"
    and dotdot_allowed: "at d (Suc k) w \<Longrightarrow> pol w (COpenat d DOTDOT (O_DIRECTORY K))"
    and dotdot_at: "at d (Suc k) w \<Longrightarrow>
      sys_openat K d DOTDOT (O_DIRECTORY K) 0 w = (Inr f, w') \<Longrightarrow> at f k w'"
    and name_allowed: "at d k w \<Longrightarrow> plain n \<Longrightarrow> fl AND O_NOFOLLOW K = O_NOFOLLOW K \<Longrightarrow> pol w (COpenat d n fl)"
    and name_at: "at d k w \<Longrightarrow> plain n \<Longrightarrow> fl AND O_NOFOLLOW K = O_NOFOLLOW K \<Longrightarrow>
      sys_openat K d n fl m w = (Inr f, w') \<Longrightarrow> at f (Suc k) w'"
    and readlink_allowed: "at d k w \<Longrightarrow> one_component n \<Longrightarrow> n \<noteq> DOTDOT \<Longrightarrow> pol w (CReadlinkat d n)"
    and close_allowed: "pol w (CClose f)"
    and openat_keeps: "sys_openat K d n fl m w = (r, w') \<Longrightarrow> at g j w \<Longrightarrow> at g j w'"
    and openat_apart: "sys_openat K d n fl m w = (Inr f, w') \<Longrightarrow> at g j w \<Longrightarrow> apart f g \<and> apart g f"
    and readlink_keeps: "sys_readlinkat K d n s w = (t, w') \<Longrightarrow> at g j w \<Longrightarrow> at g j w'"
    and close_keeps: "at g j w \<Longrightarrow> apart g f \<Longrightarrow> at g j (sys_close K f w)"
begin

abbreviation "K' \<equiv> audited pol K"

text \<open>What a walk that starts in \<open>a\<close> and ends in \<open>a'\<close> keeps.\<close>

definition still :: "'w audit \<Rightarrow> 'w audit \<Rightarrow> bool" where
  "still a a' \<longleftrightarrow> ok a' \<and> strm a' = strm a \<and> (\<forall>g j. at g j (world a) \<longrightarrow> at g j (world a'))"

definition got :: "'w audit \<Rightarrow> fd \<Rightarrow> nat \<Rightarrow> 'w audit \<Rightarrow> bool" where
  "got a f k a' \<longleftrightarrow> still a a' \<and> held a' = add_mset f (held a) \<and> at f k (world a')
     \<and> (\<forall>g j. at g j (world a) \<longrightarrow> apart f g \<and> apart g f)"

definition kept :: "'w audit \<Rightarrow> walk_err + fd \<times> nat \<Rightarrow> 'w audit \<Rightarrow> bool" where
  "kept a r a' \<longleftrightarrow> (case r of Inl e \<Rightarrow> still a a' \<and> held a' = held a | Inr (f, k) \<Rightarrow> got a f k a')"

text \<open>The state a walk may be in: on an owned descriptor, at a known depth, books in order.\<close>

definition ready :: "fd \<Rightarrow> nat \<Rightarrow> 'w audit \<Rightarrow> bool" where
  "ready d k a \<longleftrightarrow> ok a \<and> d \<in># held a \<and> at d k (world a)"

definition walk_keeps :: "nat \<Rightarrow> bool" where
  "walk_keeps b \<longleftrightarrow> (\<forall>d path fl m k ff a r a'. ready d k a \<longrightarrow> 0 \<notin> set path \<longrightarrow>
     walk_from K' d path fl m k b ff a = (r, a') \<longrightarrow> kept a r a')"

lemma kept_Inl: "still a a' \<Longrightarrow> held a' = held a \<Longrightarrow> kept a (Inl e) a'"
  by (simp add: kept_def)

lemma openat_got:
  assumes "ready d k a" and "sys_openat K' d n fl m a = (Inr f, a')"
    and "pol (world a) (COpenat d n fl)"
    and "\<And>w'. sys_openat K d n fl m (world a) = (Inr f, w') \<Longrightarrow> at f j w'"
  shows "got a f j a'"
  using assms(2)
  by (cases rule: audited_openatE)
    (use assms openat_keeps openat_apart in \<open>auto simp: got_def still_def ready_def\<close>)

lemma openat_failed:
  assumes "ready d k a" and "sys_openat K' d n fl m a = (Inl e, a')"
    and "pol (world a) (COpenat d n fl)"
  shows "still a a' \<and> held a' = held a"
  using assms(2)
  by (cases rule: audited_openatE)
    (use assms openat_keeps in \<open>auto simp: still_def ready_def\<close>)

lemma readlink_still:
  assumes "ready d k a" and "sys_readlinkat K' d n s a = (r, a')" and "one_component n" "n \<noteq> DOTDOT"
  shows "still a a' \<and> held a' = held a"
  using assms(2)
  by (cases rule: audited_readlinkatE)
    (use assms readlink_keeps readlink_allowed in \<open>auto simp: still_def ready_def\<close>)

lemma ready_still: "ready d k a \<Longrightarrow> still a a' \<Longrightarrow> held a' = held a \<Longrightarrow> ready d k a'"
  by (auto simp: ready_def still_def)

lemma still_trans: "still a b \<Longrightarrow> still b c \<Longrightarrow> still a c"
  by (auto simp: still_def)

lemma got_after_still: "still a b \<Longrightarrow> held b = held a \<Longrightarrow> got b f k c \<Longrightarrow> got a f k c"
  unfolding still_def got_def by fastforce

lemma kept_after_still: "still a b \<Longrightarrow> held b = held a \<Longrightarrow> kept b r c \<Longrightarrow> kept a r c"
  by (auto simp: kept_def intro: got_after_still still_trans split: sum.splits)

subsection \<open>One component\<close>

lemma step_dot:
  assumes "ready d k a" and "step K' d DOT fl m k b mf a = (r, a')"
  shows "kept a r a'"
proof (cases "sys_openat K' d DOT (O_DIRECTORY K) 0 a")
  case (Pair r0 a0)
  have pol: "pol (world a) (COpenat d DOT (O_DIRECTORY K))"
    using assms(1) by (auto simp: ready_def intro: dot_allowed)
  show ?thesis
  proof (cases r0)
    case (Inl e)
    with assms(2) Pair have "r = Inl (Errno e)" "a' = a0" by (auto simp: step.simps)
    with openat_failed [OF assms(1) Pair [unfolded Inl] pol] show ?thesis by (simp add: kept_Inl)
  next
    case (Inr f)
    with assms(2) Pair have "r = Inr (f, k)" "a' = a0" by (auto simp: step.simps)
    moreover have "got a f k a0"
      by (rule openat_got [OF assms(1) Pair [unfolded Inr] pol])
        (use assms(1) dot_at in \<open>auto simp: ready_def\<close>)
    ultimately show ?thesis by (simp add: kept_def)
  qed
qed

lemma step_dotdot:
  assumes "ready d k a" and "step K' d DOTDOT fl m k b mf a = (r, a')"
  shows "kept a r a'"
proof (cases k)
  case 0
  with assms have "r = Inl E_REFUSED" "a' = a" by (auto simp: step.simps)
  with assms(1) show ?thesis by (auto simp: kept_def still_def ready_def)
next
  case (Suc k')
  obtain r0 a0 where Pair: "sys_openat K' d DOTDOT (O_DIRECTORY K) 0 a = (r0, a0)"
    by (cases "sys_openat K' d DOTDOT (O_DIRECTORY K) 0 a")
  have pol: "pol (world a) (COpenat d DOTDOT (O_DIRECTORY K))"
    using assms(1) Suc by (auto simp: ready_def intro: dotdot_allowed)
  show ?thesis
  proof (cases r0)
    case (Inl e)
    with assms(2) Pair Suc have "r = Inl (Errno e)" "a' = a0" by (auto simp: step.simps)
    with openat_failed [OF assms(1) Pair [unfolded Inl] pol] show ?thesis by (simp add: kept_Inl)
  next
    case (Inr f)
    with assms(2) Pair Suc have "r = Inr (f, k')" "a' = a0" by (auto simp: step.simps)
    moreover have "got a f k' a0"
      by (rule openat_got [OF assms(1) Pair [unfolded Inr] pol])
        (use assms(1) dotdot_at Suc in \<open>auto simp: ready_def\<close>)
    ultimately show ?thesis by (simp add: kept_def)
  qed
qed

text \<open>A name: opened, or a symlink whose text is walked with a smaller budget.\<close>

lemma step_name:
  assumes ready: "ready d k a" and eq: "step K' d n fl m k b mf a = (r, a')"
    and n: "plain n" and fl: "fl AND O_NOFOLLOW K = O_NOFOLLOW K"
    and IH: "\<And>b'. b' < b \<Longrightarrow> walk_keeps b'"
  shows "kept a r a'"
proof -
  have ne: "n \<noteq> DOT" "n \<noteq> DOTDOT" and one: "one_component n"
    using n by (auto simp: plain_def one_component_def)
  have pol: "pol (world a) (COpenat d n fl)"
    using ready n fl by (auto simp: ready_def intro: name_allowed)
  obtain r0 a0 where op: "sys_openat K' d n fl m a = (r0, a0)"
    by (cases "sys_openat K' d n fl m a")
  show ?thesis
  proof (cases r0)
    case (Inr f)
    with eq op ne have "r = Inr (f, Suc k)" "a' = a0" by (auto simp: step.simps)
    moreover have "got a f (Suc k) a0"
      by (rule openat_got [OF ready op [unfolded Inr] pol])
        (use ready name_at n fl in \<open>auto simp: ready_def\<close>)
    ultimately show ?thesis by (simp add: kept_def)
  next
    case (Inl e)
    note failed = openat_failed [OF ready op [unfolded Inl] pol]
    note ready0 = ready_still [OF ready failed [THEN conjunct1] failed [THEN conjunct2]]
    obtain r1 a1 where rl: "sys_readlinkat K' d n (MAX_PATH_LEN - 1) a0 = (r1, a1)"
      by (cases "sys_readlinkat K' d n (MAX_PATH_LEN - 1) a0")
    note read = readlink_still [OF ready0 rl one ne(2)]
    from failed read have st: "still a a1" "held a1 = held a" by (auto intro: still_trans)
    note ready1 = ready_still [OF ready st]
    from eq op Inl ne rl consider
        (stop) e' where "r = Inl e'" "a' = a0"
      | (stop1) e' where "r = Inl e'" "a' = a1"
      | (link) t where "b \<noteq> 0" "walk_from K' d (cstr t) fl m k (b - 1) True a1 = (r, a')"
      by (auto simp: step.simps split: if_splits sum.splits)
    then show ?thesis
    proof cases
      case stop
      with failed show ?thesis by (simp add: kept_Inl)
    next
      case stop1
      with st show ?thesis by (simp add: kept_Inl)
    next
      case link
      then have "walk_keeps (b - 1)" by (intro IH) simp
      with link(2) ready1 cstr_no_nul have "kept a1 r a'"
        unfolding walk_keeps_def by metis
      with st show ?thesis by (rule kept_after_still)
    qed
  qed
qed

lemma step_kept:
  assumes "ready d k a" and "step K' d n fl m k b mf a = (r, a')"
    and "one_component n" and "fl AND O_NOFOLLOW K = O_NOFOLLOW K"
    and "\<And>b'. b' < b \<Longrightarrow> walk_keeps b'"
  shows "kept a r a'"
proof -
  from assms(3) consider "n = DOT" | "n = DOTDOT" | "plain n" by (auto simp: one_component_cases)
  then show ?thesis
    by cases (use assms(1,2) step_dot step_dotdot step_name [OF assms(1,2) _ assms(4,5)] in blast)+
qed

subsection \<open>The loop over the components\<close>

text \<open>
  After a step, the directory it started from is closed when the loop owns it; what the loop then
  holds is what it held before, with the new descriptor in place of the old.
\<close>

lemma close_after_step:
  assumes cur: "got a0 cur k a" and step: "kept a r a1"
  shows "kept a0 r (sys_close K' cur a1)"
proof (cases r)
  case (Inl e)
  have cur_at: "\<And>g j. at g j (world a0) \<Longrightarrow> at g j (world a1) \<and> apart g cur"
    using cur step Inl by (auto simp: got_def still_def kept_def)
  show ?thesis
    using cur step Inl cur_at
    by (auto simp: kept_def still_def got_def intro!: close_keeps close_allowed)
next
  case (Inr p)
  obtain f k' where p: "p = (f, k')" by (cases p)
  have got: "got a f k' a1" using step Inr p by (simp add: kept_def)
  have f_cur: "apart f cur" using cur got by (auto simp: got_def)
  have outer: "\<And>g j. at g j (world a0) \<Longrightarrow> at g j (world a1) \<and> apart g cur \<and> apart f g \<and> apart g f"
    using cur got by (fastforce simp: got_def still_def)
  show ?thesis
    using cur got f_cur outer Inr p
    by (auto simp: kept_def still_def got_def intro!: close_keeps close_allowed)
qed

lemma loop_owned:
  assumes "\<And>b'. b' < b \<Longrightarrow> walk_keeps b'"
  shows "got a0 cur k a \<Longrightarrow> \<forall>n \<in> set cs. one_component n \<Longrightarrow>
    walk_loop K' cur True cs fl m k b ff a = (r, a') \<Longrightarrow> kept a0 r a'"
proof (induction cs arbitrary: cur k a)
  case Nil
  then show ?case by (auto simp: walk_loop.simps kept_def)
next
  case (Cons n cs)
  let ?fl = "component_flags K (cs = []) fl"
  obtain r1 a1 where st: "step K' cur n ?fl m k b (if cs = [] then ff else True) a = (r1, a1)"
    by (cases "step K' cur n ?fl m k b (if cs = [] then ff else True) a")
  have "ready cur k a" using Cons.prems(1) by (auto simp: ready_def got_def still_def)
  then have "kept a r1 a1"
    using st Cons.prems(2) assms component_flags_nofollow
    by (intro step_kept [of cur k a n ?fl]) auto
  with Cons.prems(1) have closed: "kept a0 r1 (sys_close K' cur a1)" by (rule close_after_step)
  show ?case
  proof (cases r1)
    case (Inl e)
    with Cons.prems(3) st have "r = Inl e" "a' = sys_close K' cur a1"
      by (auto simp: walk_loop.simps [of _ _ _ "_ # _"])
    with closed Inl show ?thesis by (auto simp: kept_def)
  next
    case (Inr p)
    obtain f k' where p: "p = (f, k')" by (cases p)
    with Cons.prems(3) st Inr have "walk_loop K' f True cs fl m k' b ff (sys_close K' cur a1) = (r, a')"
      by (simp add: walk_loop.simps [of _ _ _ "_ # _"])
    with closed Inr p Cons.prems(2) show ?thesis
      by (intro Cons.IH) (auto simp: kept_def)
  qed
qed

lemma loop_kept:
  assumes IH: "\<And>b'. b' < b \<Longrightarrow> walk_keeps b'" and ready: "ready d k a"
    and cs: "\<forall>n \<in> set cs. one_component n"
    and eq: "walk_loop K' d False cs fl m k b ff a = (r, a')"
  shows "kept a r a'"
proof (cases cs)
  case Nil
  with eq ready show ?thesis by (auto simp: walk_loop.simps kept_def still_def ready_def)
next
  case (Cons n cs')
  let ?fl = "component_flags K (cs' = []) fl"
  obtain r1 a1 where st: "step K' d n ?fl m k b (if cs' = [] then ff else True) a = (r1, a1)"
    by (cases "step K' d n ?fl m k b (if cs' = [] then ff else True) a")
  from ready st cs Cons IH have kept: "kept a r1 a1"
    using component_flags_nofollow by (intro step_kept [of d k a n ?fl]) auto
  show ?thesis
  proof (cases r1)
    case (Inl e)
    with eq st Cons have "r = r1" "a' = a1" by (auto simp: walk_loop.simps [of _ _ _ "_ # _"])
    with kept show ?thesis by simp
  next
    case (Inr p)
    obtain f k' where p: "p = (f, k')" by (cases p)
    with eq st Inr Cons have "walk_loop K' f True cs' fl m k' b ff a1 = (r, a')"
      by (simp add: walk_loop.simps [of _ _ _ "_ # _"])
    with kept Inr p cs Cons show ?thesis
      by (intro loop_owned [OF IH, where cur = f and k = k' and a = a1 and cs = cs']) (auto simp: kept_def)
  qed
qed

lemma walk_keeps: "walk_keeps b"
proof (induction b rule: less_induct)
  case (less b)
  show ?case unfolding walk_keeps_def
  proof (intro allI impI)
    fix d path fl m k ff a r a'
    assume ready: "ready d k a" and path: "0 \<notin> set path"
      and eq: "walk_from K' d path fl m k b ff a = (r, a')"
    from eq consider e where "r = Inl e" "a' = a"
      | "walk_loop K' d False (components path) fl m k b ff a = (r, a')"
      by (auto simp: walk_from.simps split: if_splits)
    then show "kept a r a'"
    proof cases
      case 1
      with ready show ?thesis by (auto simp: kept_def still_def ready_def)
    next
      case 2
      with less ready path show ?thesis
        by (intro loop_kept [where cs = "components path"]) (auto intro: components_one_component)
    qed
  qed
qed

lemma walk_from_kept:
  "ready d k a \<Longrightarrow> 0 \<notin> set path \<Longrightarrow> walk_from K' d path fl m k b ff a = (r, a') \<Longrightarrow> kept a r a'"
  using walk_keeps unfolding walk_keeps_def by blast

lemma walk_open_kept:
  assumes "ready d 0 a" and "0 \<notin> set path" and "walk_open K' d path fl m ff a = (r, a')"
  shows "case r of Inl e \<Rightarrow> still a a' \<and> held a' = held a | Inr f \<Rightarrow> (\<exists>k. got a f k a')"
proof (cases "walk_from K' d path fl m 0 MAX_SYMLINKS ff a")
  case (Pair r1 a1)
  with walk_from_kept [OF assms(1,2)] have "kept a r1 a1" by blast
  with assms(3) Pair show ?thesis
    by (auto simp: walk_open_def kept_def split: sum.splits)
qed

subsection \<open>The walk to the parent\<close>

text \<open>
  \<open>walk_parent\<close> hands back a directory it owns, or the one it was given, and a name that is one
  component and not \<^verbatim>\<open>".."\<close>.
\<close>

definition parent_kept :: "'w audit \<Rightarrow> fd \<Rightarrow> walk_err + parent \<Rightarrow> 'w audit \<Rightarrow> bool" where
  "parent_kept a d r a' \<longleftrightarrow>
     (case r of Inl e \<Rightarrow> still a a' \<and> held a' = held a
      | Inr (fd, owned, nm) \<Rightarrow> one_component (snd nm) \<and> snd nm \<noteq> DOTDOT
          \<and> (\<exists>k. if owned then got a fd k a' else fd = d \<and> ready d k a' \<and> still a a' \<and> held a' = held a))"

lemma got_closed: "got a f k a' \<Longrightarrow> still a (sys_close K' f a') \<and> held (sys_close K' f a') = held a"
  by (auto simp: got_def still_def intro!: close_keeps close_allowed)

lemma finish_owned:
  assumes "got a0 cur k a" and "one_component n" and "parent_finish K' cur True (st, n) a = (r, a')"
  shows "parent_kept a0 d r a'"
  using assms got_closed [OF assms(1)]
  by (auto simp: parent_kept_def split: if_splits)

lemma parent_loop_owned:
  "got a0 cur k a \<Longrightarrow> \<forall>n \<in> set cs. one_component n \<Longrightarrow>
    parent_loop K' st cur True cs k a = (r, a') \<Longrightarrow> parent_kept a0 d r a'"
proof (induction cs arbitrary: cur k a)
  case Nil
  then show ?case by (auto intro!: finish_owned simp: one_component_def simp del: parent_finish.simps)
next
  case (Cons n cs)
  show ?case
  proof (cases "cs = []")
    case True
    with Cons.prems show ?thesis by (auto intro: finish_owned simp del: parent_finish.simps)
  next
    case False
    let ?fl = "O_RDONLY OR O_DIRECTORY K OR O_NOFOLLOW K"
    obtain r1 a1 where st: "step K' cur n ?fl 0 k MAX_SYMLINKS True a = (r1, a1)"
      by (cases "step K' cur n ?fl 0 k MAX_SYMLINKS True a")
    have "ready cur k a" using Cons.prems(1) by (auto simp: ready_def got_def still_def)
    then have "kept a r1 a1"
      using st Cons.prems(2) component_flags_nofollow [of K False 0] walk_keeps
      by (intro step_kept [of cur k a n ?fl]) (auto simp: component_flags_def)
    with Cons.prems(1) have closed: "kept a0 r1 (sys_close K' cur a1)" by (rule close_after_step)
    show ?thesis
    proof (cases r1)
      case (Inl e)
      with Cons.prems(3) st False closed show ?thesis by (auto simp: kept_def parent_kept_def)
    next
      case (Inr p)
      with closed Cons.prems st False show ?thesis
        by (cases p) (auto simp: kept_def intro: Cons.IH)
    qed
  qed
qed

lemma walk_parent_kept:
  assumes ready: "ready d 0 a" and path: "0 \<notin> set path"
    and eq: "walk_parent K' d path st sz a = (r, a')"
  shows "parent_kept a d r a'"
proof -
  have st0: "still a a" using ready by (auto simp: ready_def still_def)
  define cs where "cs = components path"
  have cs: "\<forall>n \<in> set cs. one_component n" using path by (auto simp: cs_def components_one_component)
  show ?thesis
  proof (cases "parent_loop K' st d False cs 0 a = (r, a')")
    case False
    with eq st0 show ?thesis by (auto simp: walk_parent_def cs_def parent_kept_def split: if_splits)
  next
    case True
    show ?thesis
    proof (cases "length cs \<le> 1")
      case True
      then consider "cs = []" | n where "cs = [n]" by (cases cs) auto
      then show ?thesis
        by cases (use \<open>parent_loop _ _ _ _ _ _ _ = _\<close> cs ready st0 in
          \<open>auto simp: parent_kept_def one_component_def split: if_splits\<close>)
    next
      case long: False
      then obtain n cs' where cs': "cs = n # cs'" "cs' \<noteq> []" by (cases cs) auto
      let ?fl = "O_RDONLY OR O_DIRECTORY K OR O_NOFOLLOW K"
      obtain r1 a1 where st: "step K' d n ?fl 0 0 MAX_SYMLINKS True a = (r1, a1)"
        by (cases "step K' d n ?fl 0 0 MAX_SYMLINKS True a")
      then have kept: "kept a r1 a1"
        using ready cs cs' component_flags_nofollow [of K False 0] walk_keeps
        by (intro step_kept [of d 0 a n ?fl]) (auto simp: component_flags_def)
      show ?thesis
      proof (cases r1)
        case (Inl e)
        with True cs' st kept show ?thesis by (auto simp: kept_def parent_kept_def)
      next
        case (Inr p)
        obtain f k where p: "p = (f, k)" by (cases p)
        with True cs' st Inr have "parent_loop K' st f True cs' k a1 = (r, a')" by simp
        with kept Inr p cs cs' show ?thesis by (intro parent_loop_owned) (auto simp: kept_def)
      qed
    qed
  qed
qed

end

subsection \<open>The descriptor discipline, on every kernel\<close>

interpretation ledger: walker K "\<lambda>_ _. True" "\<lambda>_ _ _. True" "\<lambda>_ _. True" for K :: "'w kernel"
  by unfold_locales auto

end
