(* ===== verification/Nif_Sandbox.thy ===== *)
theory Nif_Sandbox
  imports Nif_Walk_Rule
begin

text \<open>
  The sandbox. A \<open>view\<close> says what a descriptor denotes and which file is an entry of which
  directory; \<open>below ch R k x\<close> says that \<open>x\<close> is reached from one of the preopens \<open>R\<close> by \<open>k\<close> entries.
  \<open>dir_laws\<close> are the documented answers of \<^verbatim>\<open>openat\<close>, \<^verbatim>\<open>readlinkat\<close> and \<^verbatim>\<open>close\<close>, and \<open>beneath\<close> is
  the policy of the sandbox: which call on which descriptor cannot leave the preopens. The theory
  shows that a kernel with these laws and this policy is a \<open>walker\<close>.

  \<open>child\<close> does not depend on the world: an entry may appear, disappear, be renamed or become a
  symlink between any two calls (\<open>child\<close> holds every entry that exists at any time), but a directory
  keeps its parent. That is what the laws ask of other processes.
\<close>

record ('w, 'n) view =
  node_of :: "'w \<Rightarrow> fd \<Rightarrow> 'n option"
  child :: "'n \<Rightarrow> 'n \<Rightarrow> bool"
  good :: "'w \<Rightarrow> bool"

inductive below :: "('n \<Rightarrow> 'n \<Rightarrow> bool) \<Rightarrow> 'n set \<Rightarrow> nat \<Rightarrow> 'n \<Rightarrow> bool" for ch R where
  here: "r \<in> R \<Longrightarrow> below ch R 0 r"
| entry: "below ch R k y \<Longrightarrow> ch y x \<Longrightarrow> below ch R (Suc k) x"

inductive_cases below_SucE: "below ch R (Suc k) x"
inductive_simps below_0: "below ch R 0 x"

definition inside :: "('w, 'n) view \<Rightarrow> 'n set \<Rightarrow> fd \<Rightarrow> nat \<Rightarrow> 'w \<Rightarrow> bool" where
  "inside V R f k w \<longleftrightarrow> good V w \<and> (\<exists>x. node_of V w f = Some x \<and> below (child V) R k x)"

subsection \<open>The laws of the kernel\<close>

text \<open>A descriptor that is open stays open and denotes the same file, whatever else is opened.\<close>

definition persists :: "('w, 'n) view \<Rightarrow> 'w \<Rightarrow> 'w \<Rightarrow> bool" where
  "persists V w w' \<longleftrightarrow> good V w' \<and> (\<forall>g x. node_of V w g = Some x \<longrightarrow> node_of V w' g = Some x)"

definition law_keeps :: "'w kernel \<Rightarrow> ('w, 'n) view \<Rightarrow> bool" where
  "law_keeps K V \<longleftrightarrow> (\<forall>w. good V w \<longrightarrow>
     (\<forall>d n fl m. persists V w (snd (sys_openat K d n fl m w))) \<and>
     (\<forall>d n s. persists V w (snd (sys_readlinkat K d n s w))) \<and>
     (\<forall>f. persists V w (snd (sys_dup K f w))) \<and>
     (\<forall>f. good V (sys_close K f w) \<and>
        (\<forall>g x. g \<noteq> f \<longrightarrow> node_of V w g = Some x \<longrightarrow> node_of V (sys_close K f w) g = Some x)))"

text \<open>A new descriptor has a number that is not in use.\<close>

definition law_fresh :: "'w kernel \<Rightarrow> ('w, 'n) view \<Rightarrow> bool" where
  "law_fresh K V \<longleftrightarrow>
     (\<forall>w d n fl m f w'. good V w \<longrightarrow> sys_openat K d n fl m w = (Inr f, w') \<longrightarrow> node_of V w f = None)"

text \<open>\<^verbatim>\<open>"."\<close> is the directory itself.\<close>

definition law_dot :: "'w kernel \<Rightarrow> ('w, 'n) view \<Rightarrow> bool" where
  "law_dot K V \<longleftrightarrow>
     (\<forall>w d fl m f w' x. good V w \<longrightarrow> node_of V w d = Some x \<longrightarrow>
        sys_openat K d DOT fl m w = (Inr f, w') \<longrightarrow> node_of V w' f = Some x)"

text \<open>\<^verbatim>\<open>".."\<close> is the directory that a directory is an entry of.\<close>

definition law_dotdot :: "'w kernel \<Rightarrow> ('w, 'n) view \<Rightarrow> bool" where
  "law_dotdot K V \<longleftrightarrow>
     (\<forall>w d fl m f w' x y. good V w \<longrightarrow> node_of V w d = Some x \<longrightarrow> child V y x \<longrightarrow>
        sys_openat K d DOTDOT fl m w = (Inr f, w') \<longrightarrow> node_of V w' f = Some y)"

text \<open>Any other single name, opened with \<^verbatim>\<open>O_NOFOLLOW\<close>, is an entry of the directory.\<close>

definition law_name :: "'w kernel \<Rightarrow> ('w, 'n) view \<Rightarrow> bool" where
  "law_name K V \<longleftrightarrow>
     (\<forall>w d n fl m f w' x. good V w \<longrightarrow> node_of V w d = Some x \<longrightarrow> plain n \<longrightarrow>
        fl AND O_NOFOLLOW K = O_NOFOLLOW K \<longrightarrow> sys_openat K d n fl m w = (Inr f, w') \<longrightarrow>
        (\<exists>z. node_of V w' f = Some z \<and> child V x z))"

text \<open>A duplicate denotes what the original does.\<close>

definition law_dup :: "'w kernel \<Rightarrow> ('w, 'n) view \<Rightarrow> bool" where
  "law_dup K V \<longleftrightarrow>
     (\<forall>w g f w' x. good V w \<longrightarrow> node_of V w g = Some x \<longrightarrow> sys_dup K g w = (Inr f, w') \<longrightarrow>
        node_of V w f = None \<and> node_of V w' f = Some x)"

definition dir_laws :: "'w kernel \<Rightarrow> ('w, 'n) view \<Rightarrow> bool" where
  "dir_laws K V \<longleftrightarrow> law_keeps K V \<and> law_fresh K V \<and> law_dot K V \<and> law_dotdot K V \<and> law_name K V
     \<and> law_dup K V"

subsection \<open>The policy\<close>

text \<open>
  A call that names something must name one component from a directory inside the preopens: not the
  parent (\<^verbatim>\<open>openat\<close> may, when it is below the preopen), and an \<^verbatim>\<open>openat\<close> of a name must not follow a
  symlink. Nothing is opened by a path of its own. Calls that name nothing are not restricted.
\<close>

definition acts_inside :: "('w, 'n) view \<Rightarrow> 'n set \<Rightarrow> 'w \<Rightarrow> fd \<Rightarrow> bytes \<Rightarrow> bool" where
  "acts_inside V R w d n \<longleftrightarrow> (\<exists>k. inside V R d k w) \<and> one_component n \<and> n \<noteq> DOTDOT"

fun beneath :: "cint \<Rightarrow> ('w, 'n) view \<Rightarrow> 'n set \<Rightarrow> 'w \<Rightarrow> call \<Rightarrow> bool" where
  "beneath nofollow V R w (COpen p fl) = False"
| "beneath nofollow V R w (COpenat d n fl) =
     (\<exists>k. inside V R d k w \<and>
        (n = DOT \<or> n = DOTDOT \<and> k > 0 \<or> plain n \<and> fl AND nofollow = nofollow))"
| "beneath nofollow V R w (CReadlinkat d n) = acts_inside V R w d n"
| "beneath nofollow V R w (CMkdirat d n) = acts_inside V R w d n"
| "beneath nofollow V R w (CUnlinkat d n) = acts_inside V R w d n"
| "beneath nofollow V R w (CSymlinkat d n) = acts_inside V R w d n"
| "beneath nofollow V R w (CRenameat d n d' n') = (acts_inside V R w d n \<and> acts_inside V R w d' n')"
| "beneath nofollow V R w (CLinkat d n d' n') = (acts_inside V R w d n \<and> acts_inside V R w d' n')"
| "beneath nofollow V R w (CFstatat d n) = acts_inside V R w d n"
| "beneath nofollow V R w (CUtimensat d n) = acts_inside V R w d n"
| "beneath nofollow V R w _ = True"

abbreviation sandbox :: "'w kernel \<Rightarrow> ('w, 'n) view \<Rightarrow> 'n set \<Rightarrow> 'w policy" where
  "sandbox K V R \<equiv> beneath (O_NOFOLLOW K) V R"

subsection \<open>The laws make a kernel a walker of the sandbox\<close>

lemma inside_persists: "inside V R f k w \<Longrightarrow> persists V w w' \<Longrightarrow> inside V R f k w'"
  by (auto simp: inside_def persists_def)

lemma openat_persists:
  "dir_laws K V \<Longrightarrow> good V w \<Longrightarrow> sys_openat K d n fl m w = (r, w') \<Longrightarrow> persists V w w'"
  unfolding dir_laws_def law_keeps_def by (metis snd_conv)

lemma readlinkat_persists:
  "dir_laws K V \<Longrightarrow> good V w \<Longrightarrow> sys_readlinkat K d n s w = (t, w') \<Longrightarrow> persists V w w'"
  unfolding dir_laws_def law_keeps_def by (metis snd_conv)

lemma dup_persists:
  "dir_laws K V \<Longrightarrow> good V w \<Longrightarrow> sys_dup K f w = (r, w') \<Longrightarrow> persists V w w'"
  unfolding dir_laws_def law_keeps_def by (metis snd_conv)

lemma inside_close:
  "dir_laws K V \<Longrightarrow> inside V R g j w \<Longrightarrow> g \<noteq> f \<Longrightarrow> inside V R g j (sys_close K f w)"
  unfolding dir_laws_def law_keeps_def inside_def by blast

lemma inside_step:
  assumes "dir_laws K V"
  shows "inside V R d k w \<Longrightarrow> sys_openat K d DOT fl m w = (Inr f, w') \<Longrightarrow> inside V R f k w'"
    and "inside V R d (Suc k) w \<Longrightarrow> sys_openat K d DOTDOT fl m w = (Inr f, w') \<Longrightarrow> inside V R f k w'"
    and "inside V R d k w \<Longrightarrow> plain n \<Longrightarrow> fl AND O_NOFOLLOW K = O_NOFOLLOW K \<Longrightarrow>
      sys_openat K d n fl m w = (Inr f, w') \<Longrightarrow> inside V R f (Suc k) w'"
proof -
  have g: "good V w \<Longrightarrow> sys_openat K d n fl m w = (r, w') \<Longrightarrow> good V w'" for d n fl m r w w'
    using openat_persists [OF assms] by (auto simp: persists_def)
  show "inside V R d k w \<Longrightarrow> sys_openat K d DOT fl m w = (Inr f, w') \<Longrightarrow> inside V R f k w'"
    using assms g unfolding dir_laws_def law_dot_def inside_def by blast
  show "inside V R f k w'"
    if "inside V R d (Suc k) w" and op: "sys_openat K d DOTDOT fl m w = (Inr f, w')"
  proof -
    from that(1) obtain x y where "good V w" "node_of V w d = Some x" "below (child V) R k y" "child V y x"
      by (auto simp: inside_def elim: below_SucE)
    with op assms g show ?thesis unfolding dir_laws_def law_dotdot_def inside_def by metis
  qed
  show "inside V R d k w \<Longrightarrow> plain n \<Longrightarrow> fl AND O_NOFOLLOW K = O_NOFOLLOW K \<Longrightarrow>
      sys_openat K d n fl m w = (Inr f, w') \<Longrightarrow> inside V R f (Suc k) w'"
    using assms g unfolding dir_laws_def law_name_def inside_def by (blast intro: below.entry)
qed

lemma sandbox_walker:
  assumes laws: "dir_laws K V"
  shows "walker K (sandbox K V R) (inside V R) (\<noteq>)"
proof
  show "sandbox K V R w (COpenat d DOT (O_DIRECTORY K))" if "inside V R d k w" for d k w
    using that by auto
  show "sandbox K V R w (COpenat d DOTDOT (O_DIRECTORY K))" if "inside V R d (Suc k) w" for d k w
    using that zero_less_Suc [of k] by auto
  show "sandbox K V R w (COpenat d n fl)"
    if "inside V R d k w" "plain n" "fl AND O_NOFOLLOW K = O_NOFOLLOW K" for d k w n fl
    using that by auto
  show "sandbox K V R w (CReadlinkat d n)"
    if "inside V R d k w" "one_component n" "n \<noteq> DOTDOT" for d k w n
    using that by (auto simp: acts_inside_def)
  show "sandbox K V R w (CClose f)" for w f by simp
  show "f \<noteq> g \<and> g \<noteq> f"
    if "sys_openat K d n fl m w = (Inr f, w')" "inside V R g j w" for d n fl m w f w' g j
    using that laws unfolding dir_laws_def law_fresh_def inside_def by fastforce
  show "inside V R g j w'"
    if "sys_openat K d n fl m w = (r, w')" "inside V R g j w" for d n fl m w r w' g j
    using openat_persists [OF laws _ that(1)] that(2) inside_persists by (metis inside_def)
  show "inside V R g j w'"
    if "sys_readlinkat K d n s w = (t, w')" "inside V R g j w" for d n s w t w' g j
    using readlinkat_persists [OF laws _ that(1)] that(2) inside_persists by (metis inside_def)
  show "inside V R g j (sys_close K f w)" if "inside V R g j w" "g \<noteq> f" for g j w f
    using laws that by (rule inside_close)
qed (fact inside_step [OF laws])+

text \<open>
  \<open>directories\<close> is the contract between the kernel and the sandbox; it gives the contract of the walk.
\<close>

locale directories =
  fixes K :: "'w kernel" and V :: "('w, 'n) view"
  assumes laws: "dir_laws K V"

sublocale directories \<subseteq> box: walker K "sandbox K V R" "inside V R" "(\<noteq>)" for R
  by (rule sandbox_walker [OF laws])

end
