(* ===== verification/Nif_Mem.thy ===== *)
theory Nif_Mem
  imports Nif_Sandbox
begin

text \<open>
  A kernel one can run: a small read-only file system in memory. It is an instance of the parameter
  \<open>kernel\<close>, on which the properties that assume the laws of a kernel are shown to be satisfiable and
  the counterexamples are evaluated; it is not a model of the code.

  A world holds the tree of now and the trees that other processes will make of it: each \<^verbatim>\<open>openat\<close> and
  \<^verbatim>\<open>readlinkat\<close> moves on to the next one first, so a schedule of trees is an interference. Calls that
  no example needs answer ENOSYS.
\<close>

datatype mnode =
    MDir nat "(bytes \<times> nat) list"
  | MReg bytes
  | MLnk bytes

type_synonym tree = "(nat \<times> mnode) list"

record mem =
  now :: tree
  later :: "tree list"
  fds :: "(fd \<times> nat) list"
  next_fd :: fd
  strms :: "(dirp \<times> dirent list \<times> nat) list"

definition tick :: "mem \<Rightarrow> mem" where
  "tick w = (case later w of [] \<Rightarrow> w | t # ts \<Rightarrow> w\<lparr>now := t, later := ts\<rparr>)"

definition give_fd :: "nat \<Rightarrow> mem \<Rightarrow> (errno + fd) \<times> mem" where
  "give_fd x w = (Inr (next_fd w), w\<lparr>fds := (next_fd w, x) # fds w, next_fd := Suc (next_fd w)\<rparr>)"

definition M_NOFOLLOW :: cint where "M_NOFOLLOW = 0x20000"
definition M_DIRECTORY :: cint where "M_DIRECTORY = 0x10000"

definition mem_entry :: "fd \<Rightarrow> bytes \<Rightarrow> mem \<Rightarrow> errno + nat \<times> mnode" where
  "mem_entry d n w =
     (case map_of (fds w) d of
        None \<Rightarrow> Inl EBADF
      | Some x \<Rightarrow>
          (case map_of (now w) x of
             Some (MDir p es) \<Rightarrow>
               (case (if n = DOT then Some x else if n = DOTDOT then Some p else map_of es n) of
                  None \<Rightarrow> Inl ENOENT
                | Some y \<Rightarrow> (case map_of (now w) y of None \<Rightarrow> Inl EIO | Some nd \<Rightarrow> Inr (y, nd)))
           | _ \<Rightarrow> Inl ENOTDIR))"

definition mem_openat :: "fd \<Rightarrow> bytes \<Rightarrow> cint \<Rightarrow> nat \<Rightarrow> mem \<Rightarrow> (errno + fd) \<times> mem" where
  "mem_openat d n fl m w0 = (let w = tick w0 in
     case mem_entry d n w of
       Inl e \<Rightarrow> (Inl e, w)
     | Inr (y, MDir p es) \<Rightarrow> give_fd y w
     | Inr (y, MReg bs) \<Rightarrow>
         if fl AND M_DIRECTORY = M_DIRECTORY then (Inl ENOTDIR, w) else give_fd y w
     | Inr (y, MLnk t) \<Rightarrow> (Inl ELOOP, w))"

definition mem_readlinkat :: "fd \<Rightarrow> bytes \<Rightarrow> nat \<Rightarrow> mem \<Rightarrow> (errno + bytes) \<times> mem" where
  "mem_readlinkat d n s w0 = (let w = tick w0 in
     (case mem_entry d n w of
        Inl e \<Rightarrow> Inl e
      | Inr (y, MLnk t) \<Rightarrow> Inr (take s t)
      | Inr _ \<Rightarrow> Inl EINVAL, w))"

fun mode_of :: "mnode \<Rightarrow> ftype" where
  "mode_of (MDir _ _) = S_IFDIR"
| "mode_of (MReg _) = S_IFREG"
| "mode_of (MLnk _) = S_IFLNK"

definition zero_time :: timespec where "zero_time = \<lparr>tv_sec = 0, tv_nsec = 0\<rparr>"

definition stat_of :: "nat \<Rightarrow> mnode \<Rightarrow> stat" where
  "stat_of y nd =
     \<lparr>st_mode = mode_of nd, st_size = (case nd of MReg bs \<Rightarrow> int (length bs) | _ \<Rightarrow> 0), st_ino = of_nat y,
      st_dev = 1, st_nlink = 1, st_atim = zero_time, st_mtim = zero_time, st_ctim = zero_time\<rparr>"

definition mem_node :: "fd \<Rightarrow> mem \<Rightarrow> errno + nat \<times> mnode" where
  "mem_node f w =
     (case map_of (fds w) f of
        None \<Rightarrow> Inl EBADF
      | Some x \<Rightarrow> (case map_of (now w) x of None \<Rightarrow> Inl EIO | Some nd \<Rightarrow> Inr (x, nd)))"

definition mem_close :: "fd \<Rightarrow> mem \<Rightarrow> mem" where
  "mem_close f w = w\<lparr>fds := filter (\<lambda>p. fst p \<noteq> f) (fds w)\<rparr>"

fun dtype_of :: "mnode option \<Rightarrow> dtype" where
  "dtype_of (Some (MDir _ _)) = DT_DIR"
| "dtype_of (Some (MReg _)) = DT_REG"
| "dtype_of (Some (MLnk _)) = DT_LNK"
| "dtype_of None = DT_other"

definition mem_entries :: "tree \<Rightarrow> nat \<Rightarrow> dirent list" where
  "mem_entries t x =
     (case map_of t x of
        Some (MDir p es) \<Rightarrow>
          map (\<lambda>(n, y). \<lparr>d_name = n, d_ino = of_nat y, d_type = dtype_of (map_of t y)\<rparr>)
            ((DOT, x) # (DOTDOT, p) # es)
      | _ \<Rightarrow> [])"

definition mem_fdopendir :: "fd \<Rightarrow> mem \<Rightarrow> (errno + dirp) \<times> mem" where
  "mem_fdopendir f w =
     (case mem_node f w of
        Inr (x, MDir p es) \<Rightarrow> (Inr f, w\<lparr>strms := (f, mem_entries (now w) x, 0) # strms w\<rparr>)
      | Inr _ \<Rightarrow> (Inl ENOTDIR, w)
      | Inl e \<Rightarrow> (Inl e, w))"

definition move_stream :: "dirp \<Rightarrow> (nat \<Rightarrow> nat) \<Rightarrow> mem \<Rightarrow> mem" where
  "move_stream s g w = w\<lparr>strms := map (\<lambda>(s', es, i). (s', es, if s' = s then g i else i)) (strms w)\<rparr>"

definition mem_readdir :: "dirp \<Rightarrow> mem \<Rightarrow> (errno + dirent option) \<times> mem" where
  "mem_readdir s w =
     (case map_of (strms w) s of
        None \<Rightarrow> (Inl EBADF, w)
      | Some (es, i) \<Rightarrow>
          if i < length es then (Inr (Some (es ! i)), move_stream s Suc w) else (Inr None, w))"

definition mem_telldir :: "dirp \<Rightarrow> mem \<Rightarrow> u64 \<times> mem" where
  "mem_telldir s w = (case map_of (strms w) s of None \<Rightarrow> 0 | Some (es, i) \<Rightarrow> of_nat i, w)"

definition mem_pread :: "fd \<Rightarrow> nat \<Rightarrow> int \<Rightarrow> mem \<Rightarrow> (errno + bytes) \<times> mem" where
  "mem_pread f n off w =
     (case mem_node f w of
        Inl e \<Rightarrow> Inl e
      | Inr (x, MReg bs) \<Rightarrow> if off < 0 then Inl EINVAL else Inr (take n (drop (nat off) bs))
      | Inr _ \<Rightarrow> Inl EISDIR, w)"

definition mem_kernel :: "mem kernel" where
  "mem_kernel =
   \<lparr>O_DIRECTORY = M_DIRECTORY, O_NOFOLLOW = M_NOFOLLOW, UTIME_OMIT = 1073741822,
    sys_open = (\<lambda>p fl w. if p = [SLASH] then give_fd 1 w else (Inl ENOENT, w)),
    sys_openat = mem_openat,
    sys_readlinkat = mem_readlinkat,
    sys_close = mem_close,
    sys_dup = (\<lambda>f w. case map_of (fds w) f of None \<Rightarrow> (Inl EBADF, w) | Some x \<Rightarrow> give_fd x w),
    sys_mkdirat = (\<lambda>d n m w. (Inl ENOSYS, w)),
    sys_unlinkat = (\<lambda>d n r w. (Inl ENOSYS, w)),
    sys_symlinkat = (\<lambda>t d n w. (Inl ENOSYS, w)),
    sys_renameat = (\<lambda>d n d' n' w. (Inl ENOSYS, w)),
    sys_linkat = (\<lambda>d n d' n' w. (Inl ENOSYS, w)),
    sys_fstatat = (\<lambda>d n w. (case mem_entry d n w of Inl e \<Rightarrow> Inl e | Inr (y, nd) \<Rightarrow> Inr (stat_of y nd), w)),
    sys_utimensat = (\<lambda>d n ts w. (Inl ENOSYS, w)),
    sys_fstat = (\<lambda>f w. (case mem_node f w of Inl e \<Rightarrow> Inl e | Inr (y, nd) \<Rightarrow> Inr (stat_of y nd), w)),
    sys_futimens = (\<lambda>f ts w. (Inl ENOSYS, w)),
    sys_pread = mem_pread,
    sys_pwrite = (\<lambda>f bs off w. (Inl ENOSYS, w)),
    sys_ftruncate = (\<lambda>f n w. (Inl ENOSYS, w)),
    sys_fsync = (\<lambda>f w. (Inl EINVAL, w)),
    sys_fdopendir = mem_fdopendir,
    sys_closedir = (\<lambda>s w. w\<lparr>strms := filter (\<lambda>p. fst p \<noteq> s) (strms w)\<rparr>),
    sys_rewinddir = (\<lambda>s. move_stream s (\<lambda>i. 0)),
    sys_seekdir = (\<lambda>s c. move_stream s (\<lambda>i. unat c)),
    sys_telldir = mem_telldir,
    sys_readdir = mem_readdir,
    sys_dirstat = (\<lambda>s n w. (Inl ENOSYS, w)),
    alloc_resource = (\<lambda>w. (True, w)),
    mutex_create = (\<lambda>w. (True, w)),
    alloc_binary = (\<lambda>n w. (True, w)),
    alloc = (\<lambda>n w. (True, w)),
    dead_stack = (\<lambda>n w. n)\<rparr>"

subsection \<open>It has the laws\<close>

text \<open>
  For a fixed finite relation \<open>C\<close> of entries, over every schedule of trees whose entries are in
  \<open>C\<close> and whose directories have the parent that \<open>C\<close> gives them.
\<close>

definition fits :: "(nat \<times> nat) list \<Rightarrow> tree \<Rightarrow> bool" where
  "fits C t \<longleftrightarrow>
     (\<forall>(x, nd) \<in> set t. case nd of
        MDir p es \<Rightarrow> (\<forall>(n, y) \<in> set es. (x, y) \<in> set C) \<and> (\<forall>(y, z) \<in> set C. z = x \<longrightarrow> y = p)
      | _ \<Rightarrow> True)"

definition mem_good :: "(nat \<times> nat) list \<Rightarrow> mem \<Rightarrow> bool" where
  "mem_good C w \<longleftrightarrow> (\<forall>t \<in> set (now w # later w). fits C t) \<and> (\<forall>p \<in> set (fds w). fst p < next_fd w)"

definition mem_view :: "(nat \<times> nat) list \<Rightarrow> (mem, nat) view" where
  "mem_view C = \<lparr>node_of = (\<lambda>w. map_of (fds w)), child = (\<lambda>x y. (x, y) \<in> set C), good = mem_good C\<rparr>"

lemma tick_good: "mem_good C w \<Longrightarrow> mem_good C (tick w)"
  by (auto simp: tick_def mem_good_def split: list.splits)

lemma tick_fds [simp]: "fds (tick w) = fds w" "next_fd (tick w) = next_fd w"
  by (auto simp: tick_def split: list.splits)

lemma fresh_fd: "mem_good C w \<Longrightarrow> map_of (fds w) (next_fd w) = None"
  by (force simp: mem_good_def map_of_eq_None_iff)

lemma give_fd_persists:
  assumes "mem_good C w"
  shows "persists (mem_view C) w (snd (give_fd x w))"
proof -
  have "map_of (fds w) g = Some y \<Longrightarrow> g \<noteq> next_fd w" for g y
    using fresh_fd [OF assms] by auto
  with assms show ?thesis
    by (auto simp: give_fd_def persists_def mem_view_def mem_good_def less_Suc_eq)
qed

lemma tick_persists: "mem_good C w \<Longrightarrow> persists (mem_view C) w (tick w)"
  by (simp add: persists_def mem_view_def tick_good)

lemma persists_trans: "persists V a b \<Longrightarrow> persists V b c \<Longrightarrow> persists V a c"
  by (auto simp: persists_def)

text \<open>An \<^verbatim>\<open>openat\<close> of it fails, or gives a new descriptor for an entry of the directory.\<close>

lemma mem_entryE:
  assumes "mem_entry d n w = Inr (z, nd)"
  obtains x p es where "map_of (fds w) d = Some x" "map_of (now w) x = Some (MDir p es)"
      "n = DOT \<and> z = x \<or> n = DOTDOT \<and> z = p \<or> n \<noteq> DOT \<and> n \<noteq> DOTDOT \<and> map_of es n = Some z"
  using assms unfolding mem_entry_def
  by (auto split: option.splits mnode.splits if_splits)

lemma mem_openat_cases:
  obtains (fail) e where "mem_openat d n fl m w = (Inl e, tick w)"
  | (opened) x p es z where "map_of (fds w) d = Some x" "map_of (now (tick w)) x = Some (MDir p es)"
      "mem_openat d n fl m w = give_fd z (tick w)"
      "n = DOT \<and> z = x \<or> n = DOTDOT \<and> z = p \<or> n \<noteq> DOT \<and> n \<noteq> DOTDOT \<and> map_of es n = Some z"
proof (cases "mem_entry d n (tick w)")
  case (Inl e)
  then show thesis by (intro fail) (simp add: mem_openat_def Let_def)
next
  case (Inr q)
  obtain z nd where q: "q = (z, nd)" by (cases q)
  then consider "mem_openat d n fl m w = give_fd z (tick w)" | e where "mem_openat d n fl m w = (Inl e, tick w)"
    using q Inr
    by (cases nd; cases "fl AND M_DIRECTORY = M_DIRECTORY") (simp_all add: mem_openat_def Let_def)
  then show thesis
  proof cases
    case 1
    from Inr [unfolded q] 1 show thesis by (cases rule: mem_entryE) (auto intro: opened)
  qed (rule fail)
qed

lemma fits_entry:
  "fits C t \<Longrightarrow> map_of t x = Some (MDir p es) \<Longrightarrow> map_of es n = Some z \<Longrightarrow> (x, z) \<in> set C"
  by (fastforce simp: fits_def dest!: map_of_SomeD)

lemma fits_parent:
  "fits C t \<Longrightarrow> map_of t x = Some (MDir p es) \<Longrightarrow> (y, x) \<in> set C \<Longrightarrow> y = p"
  by (fastforce simp: fits_def dest!: map_of_SomeD)

lemma mem_openat_persists: "mem_good C w \<Longrightarrow> persists (mem_view C) w (snd (mem_openat d n fl m w))"
  by (cases rule: mem_openat_cases [of d n fl m w])
    (auto intro: persists_trans tick_persists give_fd_persists tick_good)

lemma map_of_filter_ne: "g \<noteq> f \<Longrightarrow> map_of (filter (\<lambda>p. fst p \<noteq> f) xs) g = map_of xs g"
  by (induction xs) auto

theorem mem_laws: "dir_laws mem_kernel (mem_view C)"
  unfolding dir_laws_def
proof (intro conjI)
  have "mem_good C (mem_close f w)" if "mem_good C w" for f w
    using that by (auto simp: mem_good_def mem_close_def)
  moreover have "map_of (fds (mem_close f w)) g = Some x" if "g \<noteq> f" "map_of (fds w) g = Some x" for f g x w
    using that by (simp add: mem_close_def map_of_filter_ne)
  moreover have "persists (mem_view C) w (snd (mem_readlinkat d n s w))" if "mem_good C w" for d n s w
    using tick_persists [OF that] by (simp add: mem_readlinkat_def Let_def)
  moreover have "persists (mem_view C) w
      (snd (case map_of (fds w) f of None \<Rightarrow> (Inl EBADF, w) | Some x \<Rightarrow> give_fd x w))"
    if "mem_good C w" for f w
    using give_fd_persists [OF that] that
    by (auto split: option.splits simp: persists_def mem_view_def)
  ultimately show "law_keeps mem_kernel (mem_view C)"
    using mem_openat_persists by (simp add: law_keeps_def mem_kernel_def mem_view_def)
  have op: "\<exists>x p es z. map_of (fds w) d = Some x \<and> map_of (now (tick w)) x = Some (MDir p es) \<and>
      f = next_fd w \<and> map_of (fds w') f = Some z \<and> fits C (now (tick w)) \<and>
      (n = DOT \<and> z = x \<or> n = DOTDOT \<and> z = p \<or> n \<noteq> DOT \<and> n \<noteq> DOTDOT \<and> map_of es n = Some z)"
    if "mem_good C w" "mem_openat d n fl m w = (Inr f, w')" for w d n fl m f w'
    using tick_good [OF that(1)] that(2)
    by (cases rule: mem_openat_cases [of d n fl m w]) (auto simp: give_fd_def mem_good_def)
  show "law_fresh mem_kernel (mem_view C)"
    unfolding law_fresh_def mem_kernel_def mem_view_def using op fresh_fd by fastforce
  show "law_dot mem_kernel (mem_view C)"
    unfolding law_dot_def mem_kernel_def mem_view_def using op by fastforce
  show "law_dotdot mem_kernel (mem_view C)"
    unfolding law_dotdot_def mem_kernel_def mem_view_def using op fits_parent by fastforce
  show "law_name mem_kernel (mem_view C)"
    unfolding law_name_def mem_kernel_def mem_view_def plain_def using op fits_entry by fastforce
  show "law_dup mem_kernel (mem_view C)"
    by (auto simp: law_dup_def mem_kernel_def mem_view_def give_fd_def fresh_fd split: option.splits)
qed

text \<open>The laws hold of the kernel in memory, so they can.\<close>

interpretation mem: directories mem_kernel "mem_view C" for C :: "(nat \<times> nat) list"
  by unfold_locales (rule mem_laws)

subsection \<open>A sample\<close>

text \<open>
  Text as bytes, and a small tree: \<open>/a/b\<close> a file, \<open>/l\<close> a link to it, \<open>/a/u\<close> a link up to \<open>/l\<close>,
  \<open>/s\<close> a link to itself. The preopen is the root, on descriptor 7.
\<close>

definition bytes_of :: "string \<Rightarrow> bytes" where
  "bytes_of s = map (\<lambda>c. of_nat (of_char c)) s"

definition sample_tree :: tree where
  "sample_tree =
    [(1, MDir 1 [(bytes_of ''a'', 2), (bytes_of ''l'', 4), (bytes_of ''s'', 6)]),
     (2, MDir 1 [(bytes_of ''b'', 3), (bytes_of ''u'', 5)]),
     (3, MReg (bytes_of ''hello'')), (4, MLnk (bytes_of ''a/b'')), (5, MLnk (bytes_of ''../l'')),
     (6, MLnk (bytes_of ''s''))]"

definition sample_entries :: "(nat \<times> nat) list" where
  "sample_entries = [(1, 2), (1, 4), (1, 6), (2, 3), (2, 5)]"

definition mem_world :: "tree \<Rightarrow> tree list \<Rightarrow> (fd \<times> nat) list \<Rightarrow> mem" where
  "mem_world t ts ds =
     \<lparr>now = t, later = ts, fds = ds, next_fd = Suc (Max (set (map fst ds))), strms = []\<rparr>"

definition sample :: mem where
  "sample = mem_world sample_tree [] [(7, 1)]"

definition audit_of :: "mem \<Rightarrow> mem audit" where
  "audit_of w = \<lparr>world = w, held = mset (map fst (fds w)), strm = {#}, ok = True\<rparr>"

declare mem_kernel_def [sample_simps] sample_def [sample_simps] mem_world_def [sample_simps]
  sample_tree_def [sample_simps] bytes_of_def [sample_simps]

lemma sample_good: "mem_good sample_entries sample"
  by (simp add: mem_good_def fits_def sample_def sample_tree_def sample_entries_def mem_world_def)

lemma sample_inside: "inside (mem_view sample_entries) {1} 7 0 sample"
  using sample_good by (simp add: inside_def mem_view_def below_0) (simp add: sample_def mem_world_def)

end
