(* ===== verification/Nif_Resolver.thy ===== *)
theory Nif_Resolver
  imports Nif_Mem
begin

text \<open>
  What the walk computes. \<open>files\<close> is a file tree that stands still, and \<open>res_path\<close> the resolution of a
  path in it: no descriptors, no system calls, only the stack of the files between the preopen and the
  place the walk has come to. The theory shows that \<^verbatim>\<open>walk_open\<close> refines it, on every kernel that
  answers from such a tree and for every outcome, errors included; and that a resolution that succeeds
  finds the file that the path names when each symlink is replaced by its text, as the comment of
  \<^verbatim>\<open>step\<close> promises.
\<close>

subsection \<open>Files\<close>

text \<open>
  \<open>entry\<close> looks a component up (\<^verbatim>\<open>"."\<close> and \<^verbatim>\<open>".."\<close> too), \<open>target\<close> is the text of a symlink, and
  \<open>refusal\<close> the errno with which a file refuses to be opened with these flags.
\<close>

record 'n files =
  entry :: "'n \<Rightarrow> bytes \<Rightarrow> errno + 'n"
  target :: "'n \<Rightarrow> bytes option"
  refusal :: "'n \<Rightarrow> cint \<Rightarrow> errno option"

definition visit :: "'n files \<Rightarrow> 'n \<Rightarrow> bytes \<Rightarrow> cint \<Rightarrow> errno + 'n" where
  "visit T x n fl =
     (case entry T x n of
        Inl e \<Rightarrow> Inl e
      | Inr z \<Rightarrow> (case refusal T z fl of Some e \<Rightarrow> Inl e | None \<Rightarrow> Inr z))"

definition link_text :: "'n files \<Rightarrow> 'n \<Rightarrow> bytes \<Rightarrow> bytes option" where
  "link_text T x n = (case entry T x n of Inl e \<Rightarrow> None | Inr z \<Rightarrow> target T z)"

definition link_error :: "errno \<Rightarrow> bool" where
  "link_error e \<longleftrightarrow> e = ELOOP \<or> e = ENOTDIR \<or> e = ENXIO"

subsection \<open>Resolution\<close>

text \<open>
  The stack holds the current file first and the preopen last, so \<^verbatim>\<open>".."\<close> takes the top away and is
  refused on the preopen. A symlink resolves its text where it stands, with one less of the budget; the
  components after it have the budget it had.
\<close>

abbreviation dir_flags :: "'w kernel \<Rightarrow> cint" where "dir_flags K \<equiv> O_RDONLY OR O_DIRECTORY K"

function res_name :: "'n files \<Rightarrow> 'w kernel \<Rightarrow> 'n list \<Rightarrow> bytes \<Rightarrow> cint \<Rightarrow> nat \<Rightarrow> bool \<Rightarrow> walk_err + 'n list"
  and res_path :: "'n files \<Rightarrow> 'w kernel \<Rightarrow> 'n list \<Rightarrow> bytes \<Rightarrow> cint \<Rightarrow> nat \<Rightarrow> bool \<Rightarrow> walk_err + 'n list"
  and res_loop :: "'n files \<Rightarrow> 'w kernel \<Rightarrow> 'n list \<Rightarrow> bytes list \<Rightarrow> cint \<Rightarrow> nat \<Rightarrow> bool \<Rightarrow> walk_err + 'n list"
where
  "res_name T K s n fl b follow =
    (if n = DOT then map_sum Errno (\<lambda>_. s) (visit T (hd s) DOT (dir_flags K))
     else if n = DOTDOT then
       (if tl s = [] then Inl E_REFUSED else map_sum Errno (\<lambda>_. tl s) (visit T (hd s) DOTDOT (dir_flags K)))
     else
       (case visit T (hd s) n fl of
          Inr z \<Rightarrow> Inr (z # s)
        | Inl e \<Rightarrow>
            if \<not> link_error e then Inl (Errno e)
            else if \<not> follow \<or> b = 0 then Inl (Errno ELOOP)
            else
              (case link_text T (hd s) n of
                 None \<Rightarrow> Inl (Errno e)
               | Some t \<Rightarrow>
                   if t \<noteq> [] \<and> hd t = SLASH then Inl E_REFUSED
                   else res_path T K s (cstr (take (MAX_PATH_LEN - 1) t)) fl (b - 1) True)))"
| "res_path T K s path fl b follow =
    (if path = [] then Inl (Errno EINVAL)
     else if length path \<ge> MAX_PATH_LEN then Inl (Errno ENAMETOOLONG)
     else if hd path = SLASH then Inl E_REFUSED
     else res_loop T K s (components path) fl b follow)"
| "res_loop T K s cs fl b follow =
    (case cs of
       [] \<Rightarrow> Inr s
     | n # rest \<Rightarrow>
         (case res_name T K s n (component_flags K (rest = []) fl) b (rest = [] \<longrightarrow> follow) of
            Inl e \<Rightarrow> Inl e
          | Inr s' \<Rightarrow> res_loop T K s' rest fl b follow))"
  by pat_completeness auto
termination
  by (relation "measures
        [case_sum (\<lambda>(_, _, _, _, _, b, _). b)
           (case_sum (\<lambda>(_, _, _, _, _, b, _). b) (\<lambda>(_, _, _, _, _, b, _). b)),
         case_sum (\<lambda>_. 0) (case_sum (\<lambda>_. 2) (\<lambda>_. 1)),
         case_sum (\<lambda>_. 0) (case_sum (\<lambda>_. 0) (\<lambda>(_, _, _, cs, _). length cs))]")
    auto

declare res_name.simps [simp del] res_path.simps [simp del] res_loop.simps [simp del]

definition resolve :: "'n files \<Rightarrow> 'w kernel \<Rightarrow> 'n \<Rightarrow> bytes \<Rightarrow> cint \<Rightarrow> bool \<Rightarrow> walk_err + 'n" where
  "resolve T K x path fl follow = map_sum id hd (res_path T K [x] path fl MAX_SYMLINKS follow)"

text \<open>The parent of a path: the walk of all components but the last, and the last as a name.\<close>

definition res_parent :: "'n files \<Rightarrow> 'w kernel \<Rightarrow> 'n list \<Rightarrow> bytes list \<Rightarrow> walk_err + 'n \<times> bytes" where
  "res_parent T K s cs =
     (case res_loop T K s (butlast cs) (component_flags K False 0) MAX_SYMLINKS True of
        Inl e \<Rightarrow> Inl e
      | Inr s' \<Rightarrow> if last cs = DOTDOT then Inl E_REFUSED else Inr (hd s', last cs))"

definition resolve_parent :: "'n files \<Rightarrow> 'w kernel \<Rightarrow> 'n \<Rightarrow> bytes \<Rightarrow> nat \<Rightarrow> walk_err + 'n \<times> bytes" where
  "resolve_parent T K x path buflen =
     (if path = [] then Inl (Errno EINVAL)
      else if length path \<ge> buflen then Inl (Errno ENAMETOOLONG)
      else if hd path = SLASH then Inl E_REFUSED
      else res_parent T K [x] (components path))"

subsection \<open>A kernel that answers from a tree\<close>

text \<open>
  The laws, for a kernel \<open>K\<close> with the view \<open>V\<close> of its descriptors: \<^verbatim>\<open>openat\<close> and \<^verbatim>\<open>readlinkat\<close> answer
  from the tree \<open>T\<close>. \<open>F\<close> are the flags that change nothing (no \<^verbatim>\<open>O_CREAT\<close>), \<open>R\<close> the errors of a lack of
  resources, which a call may answer at any time.
\<close>

definition law_open :: "'w kernel \<Rightarrow> ('w, 'n) view \<Rightarrow> 'n files \<Rightarrow> errno set \<Rightarrow> cint set \<Rightarrow> bool" where
  "law_open K V T R F \<longleftrightarrow>
     (\<forall>w d n fl m x. good V w \<longrightarrow> node_of V w d = Some x \<longrightarrow> one_component n \<longrightarrow> fl \<in> F \<longrightarrow>
        (case sys_openat K d n fl m w of
           (Inl e, w') \<Rightarrow> e \<in> R \<or> visit T x n fl = Inl e
         | (Inr f, w') \<Rightarrow> node_of V w f = None \<and>
             (\<exists>z. visit T x n fl = Inr z \<and> node_of V w' f = Some z)))"

definition law_read :: "'w kernel \<Rightarrow> ('w, 'n) view \<Rightarrow> 'n files \<Rightarrow> bool" where
  "law_read K V T \<longleftrightarrow>
     (\<forall>w d n k x. good V w \<longrightarrow> node_of V w d = Some x \<longrightarrow> one_component n \<longrightarrow>
        (case fst (sys_readlinkat K d n k w) of
           Inl e \<Rightarrow> link_text T x n = None
         | Inr t \<Rightarrow> \<exists>t'. link_text T x n = Some t' \<and> t = take k t'))"

text \<open>\<^verbatim>\<open>"."\<close> is the directory, \<^verbatim>\<open>".."\<close> the one it is an entry of, and a symlink does not open.\<close>

definition law_tree :: "('w, 'n) view \<Rightarrow> 'n files \<Rightarrow> cint set \<Rightarrow> bool" where
  "law_tree V T F \<longleftrightarrow>
     (\<forall>w x z. good V w \<longrightarrow> entry T x DOT = Inr z \<longrightarrow> z = x) \<and>
     (\<forall>w x y n z. good V w \<longrightarrow> plain n \<longrightarrow> entry T y n = Inr x \<longrightarrow> entry T x DOTDOT = Inr z \<longrightarrow> z = y) \<and>
     (\<forall>w z fl. good V w \<longrightarrow> fl \<in> F \<longrightarrow> target T z \<noteq> None \<longrightarrow> refusal T z fl \<noteq> None)"

definition law_flags :: "'w kernel \<Rightarrow> errno set \<Rightarrow> cint set \<Rightarrow> bool" where
  "law_flags K R F \<longleftrightarrow> (\<forall>e\<in>R. \<not> link_error e) \<and> dir_flags K \<in> F \<and> (\<forall>fl\<in>F. \<forall>l. component_flags K l fl \<in> F)"

definition tree_laws :: "'w kernel \<Rightarrow> ('w, 'n) view \<Rightarrow> 'n files \<Rightarrow> errno set \<Rightarrow> cint set \<Rightarrow> bool" where
  "tree_laws K V T R F \<longleftrightarrow>
     law_keeps K V \<and> law_open K V T R F \<and> law_read K V T \<and> law_tree V T F \<and> law_flags K R F"

locale static_tree =
  fixes K :: "'w kernel" and V :: "('w, 'n) view" and T :: "'n files" and R :: "errno set" and F :: "cint set"
  assumes laws: "tree_laws K V T R F"
begin

lemma keeps: "law_keeps K V" and opens: "law_open K V T R F" and reads: "law_read K V T"
  and shape: "law_tree V T F" and flags: "law_flags K R F"
  using laws by (simp_all add: tree_laws_def)

text \<open>Each file of a stack is an entry of the one under it.\<close>

fun chain :: "'n list \<Rightarrow> bool" where
  "chain (x # y # s) = ((\<exists>n. plain n \<and> entry T y n = Inr x) \<and> chain (y # s))"
| "chain s = (s \<noteq> [])"

definition stands :: "fd \<Rightarrow> nat \<Rightarrow> 'n list \<Rightarrow> 'w \<Rightarrow> bool" where
  "stands d k s w \<longleftrightarrow> good V w \<and> chain s \<and> length s = Suc k \<and> node_of V w d = Some (hd s)"

text \<open>The outcome \<open>r\<close> of a walk from \<open>w\<close> to \<open>w'\<close> is the resolution \<open>q\<close>.\<close>

definition agrees :: "'w \<Rightarrow> walk_err + fd \<times> nat \<Rightarrow> 'w \<Rightarrow> walk_err + 'n list \<Rightarrow> bool" where
  "agrees w r w' q \<longleftrightarrow> persists V w w' \<and>
     (case r of
        Inl e \<Rightarrow> e \<in> Errno ` R \<or> q = Inl e
      | Inr (f, k) \<Rightarrow> node_of V w f = None \<and> (\<exists>s. q = Inr s \<and> stands f k s w'))"

definition refines :: "nat \<Rightarrow> bool" where
  "refines b \<longleftrightarrow> (\<forall>d path fl m k ff w s r w'. stands d k s w \<longrightarrow> 0 \<notin> set path \<longrightarrow> fl \<in> F \<longrightarrow>
     walk_from K d path fl m k b ff w = (r, w') \<longrightarrow> agrees w r w' (res_path T K s path fl b ff))"

lemma chain_tl: "chain s \<Longrightarrow> tl s \<noteq> [] \<Longrightarrow> chain (tl s)"
  by (cases s rule: chain.cases) auto

lemma agrees_after: "agrees w1 r w' q \<Longrightarrow> persists V w w1 \<Longrightarrow> agrees w r w' q"
  unfolding agrees_def persists_def by (cases r) (auto, metis option.exhaust)

lemma openat_keeps: "good V w \<Longrightarrow> sys_openat K d n fl m w = (r, w') \<Longrightarrow> persists V w w'"
  using keeps unfolding law_keeps_def by (metis snd_conv)

lemma readlinkat_keeps: "good V w \<Longrightarrow> sys_readlinkat K d n k w = (r, w') \<Longrightarrow> persists V w w'"
  using keeps unfolding law_keeps_def by (metis snd_conv)

lemma close_persists:
  assumes "persists V w w'" and "node_of V w f = None"
  shows "persists V w (sys_close K f w')"
  using assms keeps unfolding law_keeps_def persists_def by (metis option.distinct(1))

lemma stands_persists: "stands d k s w \<Longrightarrow> persists V w w' \<Longrightarrow> stands d k s w'"
  by (auto simp: stands_def persists_def)

lemma openatE:
  assumes "stands d k s w" and "one_component n" and "fl \<in> F"
  obtains (fail) e w' where "sys_openat K d n fl m w = (Inl e, w')" "persists V w w'"
      "e \<in> R \<or> visit T (hd s) n fl = Inl e"
  | (opened) f w' z where "sys_openat K d n fl m w = (Inr f, w')" "persists V w w'"
      "node_of V w f = None" "visit T (hd s) n fl = Inr z" "node_of V w' f = Some z"
proof -
  obtain q w' where eq: "sys_openat K d n fl m w = (q, w')" by (cases "sys_openat K d n fl m w")
  have g: "good V w" "node_of V w d = Some (hd s)" using assms(1) by (auto simp: stands_def)
  note law = opens [unfolded law_open_def, rule_format, OF g assms(2,3), where m = m]
  note p = openat_keeps [OF g(1) eq]
  show thesis using law eq p by (cases q) (auto intro: fail opened)
qed

lemma visit_entry: "visit T x n fl = Inr z \<Longrightarrow> entry T x n = Inr z"
  by (auto simp: visit_def split: sum.splits option.splits)

subsection \<open>One component\<close>

lemma agrees_dot:
  assumes "stands d k s w" and "step K d DOT fl m k b mf w = (r, w')"
  shows "agrees w r w' (res_name T K s DOT fl b mf)"
proof -
  have "one_component DOT" "dir_flags K \<in> F" using flags by (simp_all add: law_flags_def one_component_cases)
  with assms(1) show ?thesis
  proof (cases rule: openatE [where m = 0])
    case (fail e w1)
    with assms(2) have "r = Inl (Errno e)" "w' = w1" by (auto simp: step.simps)
    with fail show ?thesis by (auto simp: agrees_def res_name.simps)
  next
    case (opened f w1 z)
    with assms(2) have r: "r = Inr (f, k)" "w' = w1" by (auto simp: step.simps)
    have "z = hd s"
      using shape visit_entry [OF opened(4)] assms(1) by (auto simp: law_tree_def stands_def)
    with opened r assms(1) show ?thesis by (auto simp: agrees_def res_name.simps stands_def persists_def)
  qed
qed

lemma agrees_up:
  assumes "stands d k s w" and "step K d DOTDOT fl m k b mf w = (r, w')"
  shows "agrees w r w' (res_name T K s DOTDOT fl b mf)"
proof (cases k)
  case 0
  with assms have "tl s = []" "good V w" by (cases s; auto simp: stands_def)+
  with 0 assms(2) show ?thesis by (auto simp: agrees_def res_name.simps step.simps persists_def)
next
  case (Suc j)
  with assms(1) have s: "good V w" "chain s" "length s = Suc k" "tl s \<noteq> []" by (cases s; auto simp: stands_def)+
  have "one_component DOTDOT" "dir_flags K \<in> F" using flags by (simp_all add: law_flags_def one_component_cases)
  with assms(1) show ?thesis
  proof (cases rule: openatE [where m = 0])
    case (fail e w1)
    with assms(2) Suc have "r = Inl (Errno e)" "w' = w1" by (auto simp: step.simps)
    with fail s show ?thesis by (auto simp: agrees_def res_name.simps)
  next
    case (opened f w1 z)
    with assms(2) Suc have r: "r = Inr (f, j)" "w' = w1" by (auto simp: step.simps)
    obtain n' where "plain n'" "entry T (hd (tl s)) n' = Inr (hd s)"
      using s by (cases s rule: chain.cases) auto
    then have "z = hd (tl s)" using shape visit_entry [OF opened(4)] s(1) unfolding law_tree_def by blast
    with opened r s Suc show ?thesis
      by (auto simp: agrees_def res_name.simps stands_def persists_def chain_tl)
  qed
qed

text \<open>A name that does not open: given up, or read as a symlink and its text walked.\<close>

lemma agrees_given_up:
  assumes "stands d k s w" and "plain n" "n \<noteq> DOT" "n \<noteq> DOTDOT"
    and "sys_openat K d n fl m w = (Inl e, w1)" "persists V w w1" "e \<in> R \<or> visit T (hd s) n fl = Inl e"
    and "e \<in> R \<or> \<not> (link_error e \<and> mf \<and> b \<noteq> 0)"
    and eq: "step K d n fl m k b mf w = (r, w')"
  shows "agrees w r w' (res_name T K s n fl b mf)"
proof -
  have R: "e \<in> R \<Longrightarrow> \<not> link_error e" using flags by (simp add: law_flags_def)
  then have "r = Inl (Errno (if link_error e then ELOOP else e))" "w' = w1"
    using assms by (auto simp: step.simps link_error_def split: if_splits)
  then show ?thesis using assms(2-8) R by (cases "e \<in> R") (auto simp: agrees_def res_name.simps)
qed

lemma agrees_link:
  assumes st: "stands d k s w" and n: "one_component n" "n \<noteq> DOT" "n \<noteq> DOTDOT" and fl: "fl \<in> F"
    and op: "sys_openat K d n fl m w = (Inl e, w1)" "persists V w w1" "visit T (hd s) n fl = Inl e"
    and e: "link_error e" "mf" "b \<noteq> 0" and eq: "step K d n fl m k b mf w = (r, w')"
    and IH: "refines (b - 1)"
  shows "agrees w r w' (res_name T K s n fl b mf)"
proof -
  have st1: "stands d k s w1" using stands_persists [OF st op(2)] .
  obtain q w2 where rl: "sys_readlinkat K d n (MAX_PATH_LEN - 1) w1 = (q, w2)"
    by (cases "sys_readlinkat K d n (MAX_PATH_LEN - 1) w1")
  have g: "good V w1" "node_of V w1 d = Some (hd s)" using st1 by (auto simp: stands_def)
  note law = reads [unfolded law_read_def, rule_format, OF g n(1), where k = "MAX_PATH_LEN - 1",
      unfolded rl fst_conv]
  have p2: "persists V w w2" "persists V w1 w2"
    using readlinkat_keeps [OF g(1) rl] op(2) by (auto intro: persists_trans)
  show ?thesis
  proof (cases q)
    case (Inl e')
    with eq n op e rl law p2 show ?thesis by (auto simp: step.simps res_name.simps agrees_def link_error_def)
  next
    case (Inr t)
    then obtain t' where t: "link_text T (hd s) n = Some t'" "t = take (MAX_PATH_LEN - 1) t'"
      using law by auto
    have absolute: "t \<noteq> [] \<and> hd t = SLASH \<longleftrightarrow> t' \<noteq> [] \<and> hd t' = SLASH" by (auto simp: t(2) MAX_PATH_LEN_def)
    show ?thesis
    proof (cases "t \<noteq> [] \<and> hd t = SLASH")
      case True
      with eq n op e rl Inr have "r = Inl E_REFUSED" "w' = w2" by (auto simp: step.simps link_error_def)
      with True absolute n op e t p2 show ?thesis by (auto simp: res_name.simps agrees_def)
    next
      case False
      with eq n op e rl Inr have "walk_from K d (cstr t) fl m k (b - 1) True w2 = (r, w')"
        by (auto simp: step.simps link_error_def)
      then have "agrees w2 r w' (res_path T K s (cstr t) fl (b - 1) True)"
        using IH [unfolded refines_def] stands_persists [OF st1 p2(2)] cstr_no_nul fl by metis
      moreover have "res_name T K s n fl b mf = res_path T K s (cstr t) fl (b - 1) True"
        using e False absolute n op t by (auto simp: res_name.simps)
      ultimately show ?thesis by (auto intro: agrees_after p2(1))
    qed
  qed
qed

lemma step_agrees:
  assumes st: "stands d k s w" and n: "one_component n" and fl: "fl \<in> F"
    and eq: "step K d n fl m k b mf w = (r, w')" and IH: "\<And>b'. b' < b \<Longrightarrow> refines b'"
  shows "agrees w r w' (res_name T K s n fl b mf)"
proof -
  consider "n = DOT" | "n = DOTDOT" | "plain n" "n \<noteq> DOT" "n \<noteq> DOTDOT"
    using n by (auto simp: one_component_cases plain_def)
  then show ?thesis
  proof cases
    case 3
    show ?thesis
      using st n fl
    proof (cases rule: openatE [where m = m])
      case (fail e w1)
      show ?thesis
      proof (cases "e \<in> R \<or> \<not> (link_error e \<and> mf \<and> b \<noteq> 0)")
        case True
        with st 3 fail eq show ?thesis by (intro agrees_given_up)
      next
        case False
        with fail have "visit T (hd s) n fl = Inl e" by blast
        with False st n 3 fl fail eq IH show ?thesis by (intro agrees_link) auto
      qed
    next
      case (opened f w1 z)
      with eq 3 have r: "r = Inr (f, Suc k)" "w' = w1" by (auto simp: step.simps)
      have "chain (z # s)" using st visit_entry [OF opened(4)] 3(1) by (cases s) (auto simp: stands_def)
      with opened r 3 st show ?thesis by (auto simp: agrees_def res_name.simps stands_def persists_def)
    qed
  qed (use st eq agrees_dot agrees_up in blast)+
qed

subsection \<open>The walk\<close>

lemma loop_agrees:
  assumes IH: "\<And>b'. b' < b \<Longrightarrow> refines b'" and fl: "fl \<in> F"
  shows "stands d k s w \<Longrightarrow> persists V w0 w \<Longrightarrow> node_of V w0 d = None \<Longrightarrow> \<forall>n \<in> set cs. one_component n \<Longrightarrow>
    walk_loop K d True cs fl m k b ff w = (r, w') \<Longrightarrow> agrees w0 r w' (res_loop T K s cs fl b ff)"
proof (induction cs arbitrary: d k s w)
  case Nil
  then show ?case by (auto simp: walk_loop.simps res_loop.simps agrees_def)
next
  case (Cons n cs)
  let ?fl = "component_flags K (cs = []) fl" and ?mf = "cs = [] \<longrightarrow> ff"
  obtain r1 w1 where st: "step K d n ?fl m k b ?mf w = (r1, w1)" by (cases "step K d n ?fl m k b ?mf w")
  have "?fl \<in> F" using flags fl by (simp add: law_flags_def)
  with Cons.prems st IH have ag: "agrees w r1 w1 (res_name T K s n ?fl b ?mf)" by (intro step_agrees) auto
  then have p: "persists V w0 w1" using Cons.prems(2) by (auto simp: agrees_def intro: persists_trans)
  then have pc: "persists V w0 (sys_close K d w1)" using Cons.prems(3) by (rule close_persists)
  note loop = Cons.prems(5) [unfolded walk_loop_Cons st prod.case]
  show ?case
  proof (cases r1)
    case (Inl e)
    with loop ag pc show ?thesis by (auto simp: agrees_def res_loop.simps [of _ _ _ "_ # _"])
  next
    case (Inr q)
    obtain f k' where q: "q = (f, k')" by (cases q)
    with ag Inr obtain s' where s': "res_name T K s n ?fl b ?mf = Inr s'" "stands f k' s' w1" "node_of V w f = None"
      by (auto simp: agrees_def)
    have "f \<noteq> d" using s'(3) Cons.prems(1) by (auto simp: stands_def)
    then have "stands f k' s' (sys_close K d w1)"
      using s'(2) keeps unfolding stands_def law_keeps_def by metis
    moreover have "node_of V w0 f = None"
      using s'(3) Cons.prems(2) unfolding persists_def by (metis option.exhaust option.distinct(1))
    ultimately have "agrees w0 r w' (res_loop T K s' cs fl b ff)"
      using loop Inr q pc Cons.prems(4) by (intro Cons.IH) auto
    with s'(1) show ?thesis by (simp add: res_loop.simps [of _ _ _ "_ # _"])
  qed
qed

lemma refines: "refines b"
proof (induction b rule: less_induct)
  case (less b)
  show ?case
    unfolding refines_def
  proof (intro allI impI)
    fix d path fl m k ff w s r w'
    assume st: "stands d k s w" and p: "(0 :: byte) \<notin> set path" and fl: "fl \<in> F"
      and eq: "walk_from K d path fl m k b ff w = (r, w')"
    have refl: "persists V w w" using st by (simp add: persists_def stands_def)
    have one: "\<forall>n \<in> set (components path). one_component n" using p by (auto simp: components_one_component)
    show "agrees w r w' (res_path T K s path fl b ff)"
    proof (cases "path = [] \<or> length path \<ge> MAX_PATH_LEN \<or> hd path = SLASH")
      case True
      with eq have "w' = w" "r = Inl (if path = [] then Errno EINVAL else if length path \<ge> MAX_PATH_LEN
          then Errno ENAMETOOLONG else E_REFUSED)"
        by (auto simp: walk_from.simps split: if_splits)
      with True refl show ?thesis by (auto simp: res_path.simps agrees_def)
    next
      case False
      then obtain n cs where cs: "components path = n # cs"
        using components_relative [of path] by (cases "components path") auto
      let ?fl = "component_flags K (cs = []) fl" and ?mf = "cs = [] \<longrightarrow> ff"
      obtain r1 w1 where step: "step K d n ?fl m k b ?mf w = (r1, w1)" by (cases "step K d n ?fl m k b ?mf w")
      have "?fl \<in> F" using flags fl by (simp add: law_flags_def)
      with st step one cs less have ag: "agrees w r1 w1 (res_name T K s n ?fl b ?mf)" by (intro step_agrees) auto
      have "walk_loop K d False (n # cs) fl m k b ff w = (r, w')"
        using eq False cs by (simp add: walk_from.simps)
      note loop = this [unfolded walk_loop_Cons step prod.case]
      have res: "res_path T K s path fl b ff = res_loop T K s (n # cs) fl b ff"
        using False cs by (simp add: res_path.simps)
      show ?thesis
      proof (cases r1)
        case (Inl e)
        with loop ag res show ?thesis by (auto simp: agrees_def res_loop.simps [of _ _ _ "_ # _"])
      next
        case (Inr q)
        obtain f k' where q: "q = (f, k')" by (cases q)
        with ag Inr obtain s' where s': "res_name T K s n ?fl b ?mf = Inr s'" "stands f k' s' w1"
          "node_of V w f = None" "persists V w w1" by (auto simp: agrees_def)
        with loop Inr q one cs less fl have "agrees w r w' (res_loop T K s' cs fl b ff)"
          by (intro loop_agrees) auto
        with s'(1) res show ?thesis by (simp add: res_loop.simps [of _ _ _ "_ # _"])
      qed
    qed
  qed
qed

lemma walk_open_agrees:
  assumes "good V w" "node_of V w d = Some x" "0 \<notin> set path" "fl \<in> F"
    and eq: "walk_open K d path fl m ff w = (r, w')"
  shows "persists V w w' \<and> (case r of
      Inl e \<Rightarrow> e \<in> Errno ` R \<or> resolve T K x path fl ff = Inl e
    | Inr f \<Rightarrow> node_of V w f = None \<and> (\<exists>z. resolve T K x path fl ff = Inr z \<and> node_of V w' f = Some z))"
proof -
  obtain r0 where wf: "walk_from K d path fl m 0 MAX_SYMLINKS ff w = (r0, w')" "r = map_sum id fst r0"
    using eq by (auto simp: walk_open_def split: prod.splits sum.splits)
  have "stands d 0 [x] w" using assms(1,2) by (simp add: stands_def)
  then have "agrees w r0 w' (res_path T K [x] path fl MAX_SYMLINKS ff)"
    using refines [unfolded refines_def] assms(3,4) wf(1) by blast
  with wf(2) show ?thesis
    by (cases r0) (auto simp: agrees_def resolve_def stands_def)
qed

definition parent_agrees :: "'w \<Rightarrow> walk_err + parent \<Rightarrow> 'w \<Rightarrow> storage \<Rightarrow> walk_err + 'n \<times> bytes \<Rightarrow> bool" where
  "parent_agrees w r w' st q \<longleftrightarrow> persists V w w' \<and>
     (case r of
        Inl e \<Rightarrow> e \<in> Errno ` R \<or> q = Inl e
      | Inr (f, owned, st', name) \<Rightarrow> st' = st \<and> (owned \<longrightarrow> node_of V w f = None) \<and>
          (\<exists>x. q = Inr (x, name) \<and> node_of V w' f = Some x))"

lemma mid_flags: "O_RDONLY OR O_DIRECTORY K OR O_NOFOLLOW K = component_flags K l (component_flags K False 0)"
  by (simp add: component_flags_def or.assoc)

lemma dir_nofollow: "O_RDONLY OR O_DIRECTORY K OR O_NOFOLLOW K \<in> F"
proof -
  have "component_flags K False (dir_flags K) \<in> F" using flags unfolding law_flags_def by blast
  then show ?thesis by (simp add: component_flags_def or.assoc)
qed

lemma parent_loop_agrees:
  assumes "stands d k s w" "persists V w0 w" "owned \<Longrightarrow> node_of V w0 d = None" "\<forall>n \<in> set cs. one_component n"
    "cs \<noteq> []" and "parent_loop K st d owned cs k w = (r, w')"
  shows "parent_agrees w0 r w' st (res_parent T K s cs)"
  using assms
proof (induction cs arbitrary: d owned k s w)
  case (Cons n cs)
  have drop: "persists V w0 (if owned then sys_close K d w1 else w1)" if "persists V w0 w1" for w1
    using that Cons.prems(3) by (auto intro: close_persists)
  show ?case
  proof (cases "cs = []")
    case True
    with Cons.prems drop [OF Cons.prems(2)] show ?thesis
      by (auto simp: parent_agrees_def res_parent_def res_loop.simps stands_def split: if_splits)
  next
    case False
    let ?fl = "O_RDONLY OR O_DIRECTORY K OR O_NOFOLLOW K"
    obtain r1 w1 where st: "step K d n ?fl 0 k MAX_SYMLINKS True w = (r1, w1)"
      by (cases "step K d n ?fl 0 k MAX_SYMLINKS True w")
    have "?fl \<in> F" using dir_nofollow .
    with Cons.prems st refines have ag: "agrees w r1 w1 (res_name T K s n ?fl MAX_SYMLINKS True)"
      by (intro step_agrees) auto
    then have "persists V w0 w1" using Cons.prems(2) by (auto simp: agrees_def intro: persists_trans)
    note pc = drop [OF this]
    note loop = Cons.prems(6) [unfolded parent_loop.simps st prod.case]
    have res: "res_parent T K s (n # cs) = (case res_name T K s n ?fl MAX_SYMLINKS True of
        Inl e \<Rightarrow> Inl e | Inr s' \<Rightarrow> res_parent T K s' cs)"
      using False mid_flags by (simp add: res_parent_def res_loop.simps [of _ _ _ "_ # _"] split: sum.splits)
    show ?thesis
    proof (cases r1)
      case (Inl e)
      with loop ag pc res False show ?thesis by (auto simp: agrees_def parent_agrees_def)
    next
      case (Inr q)
      obtain f k' where q: "q = (f, k')" by (cases q)
      with ag Inr obtain s' where s': "res_name T K s n ?fl MAX_SYMLINKS True = Inr s'" "stands f k' s' w1"
          "node_of V w f = None" by (auto simp: agrees_def)
      have "f \<noteq> d" using s'(3) Cons.prems(1) by (auto simp: stands_def)
      then have "stands f k' s' (if owned then sys_close K d w1 else w1)"
        using s'(2) keeps unfolding stands_def law_keeps_def by auto
      moreover have "node_of V w0 f = None"
        using s'(3) Cons.prems(2) unfolding persists_def by (metis option.exhaust option.distinct(1))
      ultimately have "parent_agrees w0 r w' st (res_parent T K s' cs)"
        using loop Inr q pc Cons.prems(4) False by (intro Cons.IH) auto
      with s'(1) res show ?thesis by simp
    qed
  qed
qed simp

lemma walk_parent_agrees:
  assumes "good V w" "node_of V w d = Some x" "0 \<notin> set path"
    and eq: "walk_parent K d path st sz w = (r, w')"
  shows "parent_agrees w r w' st (resolve_parent T K x path sz)"
proof (cases "path = [] \<or> length path \<ge> sz \<or> hd path = SLASH")
  case True
  with eq have "w' = w" "r = Inl (if path = [] then Errno EINVAL else if length path \<ge> sz
      then Errno ENAMETOOLONG else E_REFUSED)"
    by (auto simp: walk_parent_def split: if_splits)
  with True assms(1) show ?thesis by (auto simp: resolve_parent_def parent_agrees_def persists_def)
next
  case False
  have "stands d 0 [x] w" "persists V w w" using assms(1,2) by (simp_all add: stands_def persists_def)
  moreover have "components path \<noteq> []" "\<forall>n \<in> set (components path). one_component n"
    using False assms(3) by (auto simp: components_relative components_one_component)
  ultimately have "parent_agrees w r w' st (res_parent T K [x] (components path))"
    using eq False by (intro parent_loop_agrees [where owned = False]) (auto simp: walk_parent_def)
  with False show ?thesis by (simp add: resolve_parent_def)
qed

end

subsection \<open>The kernel in memory answers from its tree\<close>

definition mem_files :: "tree \<Rightarrow> nat files" where
  "mem_files t =
     \<lparr>entry = (\<lambda>x n. case map_of t x of
          Some (MDir p es) \<Rightarrow>
            (case (if n = DOT then Some x else if n = DOTDOT then Some p else map_of es n) of
               None \<Rightarrow> Inl ENOENT
             | Some y \<Rightarrow> if map_of t y = None then Inl EIO else Inr y)
        | _ \<Rightarrow> Inl ENOTDIR),
      target = (\<lambda>x. case map_of t x of Some (MLnk s) \<Rightarrow> Some s | _ \<Rightarrow> None),
      refusal = (\<lambda>z fl. case map_of t z of
          Some (MLnk s) \<Rightarrow> Some ELOOP
        | Some (MReg bs) \<Rightarrow> if fl AND M_DIRECTORY = M_DIRECTORY then Some ENOTDIR else None
        | _ \<Rightarrow> None)\<rparr>"

definition still_view :: "(nat \<times> nat) list \<Rightarrow> tree \<Rightarrow> (mem, nat) view" where
  "still_view C t = (mem_view C)\<lparr>good := \<lambda>w. mem_good C w \<and> now w = t \<and> later w = []\<rparr>"

lemma mem_entry_files:
  "map_of (fds w) d = Some x \<Longrightarrow> mem_entry d n w =
     (case entry (mem_files (now w)) x n of Inl e \<Rightarrow> Inl e | Inr y \<Rightarrow> Inr (y, the (map_of (now w) y)))"
  by (auto simp: mem_entry_def mem_files_def split: option.splits mnode.splits)

lemma files_entry_known: "entry (mem_files t) x n = Inr y \<Longrightarrow> \<exists>nd. map_of t y = Some nd"
  by (auto simp: mem_files_def split: option.splits mnode.splits if_splits)

lemma link_refused: "target (mem_files t) z = Some s \<Longrightarrow> refusal (mem_files t) z fl = Some ELOOP"
  by (auto simp: mem_files_def split: option.splits mnode.splits)

lemma mem_tree_laws: "tree_laws mem_kernel (still_view C t) (mem_files t) {} UNIV"
  unfolding tree_laws_def
proof (intro conjI)
  have tick: "tick w = w" if "later w = []" for w using that by (simp add: tick_def)
  have still: "now (snd (mem_openat d n fl m w)) = now w \<and> later (snd (mem_openat d n fl m w)) = []"
    if "later w = []" for d n fl m w
    using that by (cases rule: mem_openat_cases [of d n fl m w]) (auto simp: tick give_fd_def)
  show "law_keeps mem_kernel (still_view C t)"
    using mem_laws [of C] still
    by (auto simp: dir_laws_def law_keeps_def persists_def still_view_def mem_view_def mem_kernel_def
        mem_readlinkat_def mem_close_def give_fd_def tick Let_def split: option.splits)
  show "law_open mem_kernel (still_view C t) (mem_files t) {} UNIV"
    unfolding law_open_def
  proof (intro allI impI)
    fix w d n fl m x
    assume g: "good (still_view C t) w" and x: "node_of (still_view C t) w d = Some x"
    then have w: "later w = []" "now w = t" "map_of (fds w) d = Some x" "mem_good C w"
      by (auto simp: still_view_def mem_view_def)
    show "case sys_openat mem_kernel d n fl m w of
        (Inl e, w') \<Rightarrow> e \<in> {} \<or> visit (mem_files t) x n fl = Inl e
      | (Inr f, w') \<Rightarrow> node_of (still_view C t) w f = None \<and>
          (\<exists>z. visit (mem_files t) x n fl = Inr z \<and> node_of (still_view C t) w' f = Some z)"
    proof (cases "entry (mem_files t) x n")
      case (Inl e)
      with w show ?thesis
        by (simp add: mem_kernel_def mem_openat_def tick mem_entry_files visit_def)
    next
      case (Inr y)
      then obtain nd where "map_of t y = Some nd" using files_entry_known by blast
      with Inr w show ?thesis
        by (cases nd) (auto simp: mem_kernel_def mem_openat_def tick mem_entry_files visit_def
            mem_files_def give_fd_def still_view_def mem_view_def fresh_fd)
    qed
  qed
  show "law_read mem_kernel (still_view C t) (mem_files t)"
    unfolding law_read_def
  proof (intro allI impI)
    fix w d n k x
    assume g: "good (still_view C t) w" and x: "node_of (still_view C t) w d = Some x"
    then have w: "later w = []" "now w = t" "map_of (fds w) d = Some x"
      by (auto simp: still_view_def mem_view_def)
    show "case fst (sys_readlinkat mem_kernel d n k w) of
        Inl e \<Rightarrow> link_text (mem_files t) x n = None
      | Inr s \<Rightarrow> \<exists>s'. link_text (mem_files t) x n = Some s' \<and> s = take k s'"
    proof (cases "entry (mem_files t) x n")
      case (Inl e)
      with w show ?thesis
        by (simp add: mem_kernel_def mem_readlinkat_def tick mem_entry_files link_text_def)
    next
      case (Inr y)
      then obtain nd where "map_of t y = Some nd" using files_entry_known by blast
      with Inr w show ?thesis
        by (cases nd) (auto simp: mem_kernel_def mem_readlinkat_def tick mem_entry_files link_text_def
            mem_files_def)
    qed
  qed
  have "z = x" if "entry (mem_files t) x DOT = Inr z" for x z
    using that by (auto simp: mem_files_def split: option.splits mnode.splits if_splits)
  moreover have "z = y" if "mem_good C w" "now w = t" "plain n" "entry (mem_files t) y n = Inr x"
    "entry (mem_files t) x DOTDOT = Inr z" for w x y z n
  proof -
    have fits: "fits C t" using that(1,2) by (auto simp: mem_good_def)
    from that(3,4) obtain p es where y: "map_of t y = Some (MDir p es)" "map_of es n = Some x"
      by (auto simp: mem_files_def plain_def split: option.splits mnode.splits if_splits)
    from that(5) obtain q es' where "map_of t x = Some (MDir q es')" "z = q"
      by (auto simp: mem_files_def split: option.splits mnode.splits if_splits)
    with fits y show ?thesis using fits_entry fits_parent by metis
  qed
  ultimately show "law_tree (still_view C t) (mem_files t) UNIV"
    unfolding law_tree_def still_view_def
    by (auto simp: link_refused)
  show "law_flags mem_kernel {} UNIV" by (simp add: law_flags_def)
qed

interpretation mem_still: static_tree mem_kernel "still_view C t" "mem_files t" "{}" UNIV
  for C :: "(nat \<times> nat) list" and t :: tree
  by unfold_locales (rule mem_tree_laws)

end
