(* ===== verification/Nif_Expansion.thy ===== *)
theory Nif_Expansion
  imports Nif_Resolver
begin

text \<open>
  What a path names. \<open>expands\<close> is the textbook reading of a path with symlinks: one component after
  the other, and a symlink is replaced by the components of its text. There is no budget and no
  recursion into the text in it. The theory shows that a resolution that succeeds follows it and that
  it names one file only, and states what the walks of the NIF compute.
\<close>

inductive expands :: "'n files \<Rightarrow> 'w kernel \<Rightarrow> cint \<Rightarrow> 'n list \<Rightarrow> bytes list \<Rightarrow> 'n list \<Rightarrow> bool"
  for T :: "'n files" and K :: "'w kernel" and fl :: cint
where
  arrived: "expands T K fl s [] s"
| same: "visit T (hd s) DOT (dir_flags K) = Inr z \<Longrightarrow> expands T K fl s cs s' \<Longrightarrow>
    expands T K fl s (DOT # cs) s'"
| up: "tl s \<noteq> [] \<Longrightarrow> visit T (hd s) DOTDOT (dir_flags K) = Inr z \<Longrightarrow> expands T K fl (tl s) cs s' \<Longrightarrow>
    expands T K fl s (DOTDOT # cs) s'"
| down: "n \<noteq> DOT \<Longrightarrow> n \<noteq> DOTDOT \<Longrightarrow> visit T (hd s) n (component_flags K (cs = []) fl) = Inr z \<Longrightarrow>
    expands T K fl (z # s) cs s' \<Longrightarrow> expands T K fl s (n # cs) s'"
| link: "n \<noteq> DOT \<Longrightarrow> n \<noteq> DOTDOT \<Longrightarrow> link_text T (hd s) n = Some t \<Longrightarrow> t = [] \<or> hd t \<noteq> SLASH \<Longrightarrow>
    expands T K fl s (components (cstr (take (MAX_PATH_LEN - 1) t)) @ cs) s' \<Longrightarrow>
    expands T K fl s (n # cs) s'"

inductive_cases expands_NilE [elim!]: "expands T K fl s [] s'"
inductive_cases expands_ConsE: "expands T K fl s (n # cs) s'"

lemma expands_nameE:
  assumes "expands T K fl s (n # cs) s'" and "n \<noteq> DOT" "n \<noteq> DOTDOT"
  obtains (down) z where "visit T (hd s) n (component_flags K (cs = []) fl) = Inr z" "expands T K fl (z # s) cs s'"
  | (link) t where "link_text T (hd s) n = Some t"
      "expands T K fl s (components (cstr (take (MAX_PATH_LEN - 1) t)) @ cs) s'"
  using assms(1) by (rule expands_ConsE) (use assms(2,3) in \<open>auto intro: that\<close>)

subsection \<open>A resolution follows the text\<close>

lemma component_flags_twice:
  "component_flags K True (component_flags K l fl) = component_flags K l fl"
  "component_flags K False (component_flags K l fl) = component_flags K False fl"
  by (simp_all add: component_flags_def or.assoc)

text \<open>
  Each of the three functions, in front of any continuation \<open>ds\<close>: the flags with which it opens its
  last component are those of its place in the path.
\<close>

lemma resolution_expands:
  shows "res_name T K s n fl b mf = Inr s1 \<Longrightarrow> fl = component_flags K (ds = []) fl0 \<Longrightarrow>
      expands T K fl0 s1 ds s2 \<Longrightarrow> expands T K fl0 s (n # ds) s2"
    and "res_path T K s path fl b ff = Inr s1 \<Longrightarrow> fl = component_flags K (ds = []) fl0 \<Longrightarrow>
      expands T K fl0 s1 ds s2 \<Longrightarrow> expands T K fl0 s (components path @ ds) s2"
    and "res_loop T K s cs fl b ff = Inr s1 \<Longrightarrow> fl = component_flags K (ds = []) fl0 \<Longrightarrow>
      expands T K fl0 s1 ds s2 \<Longrightarrow> expands T K fl0 s (cs @ ds) s2"
proof (induction T K s n fl b mf and T K s path fl b ff and T K s cs fl b ff
    arbitrary: ds s1 s2 and ds s1 s2 and ds s1 s2 rule: res_name_res_path_res_loop.induct)
  case (1 T K s n fl b follow)
  show ?case
  proof (cases "n = DOT \<or> n = DOTDOT")
    case True
    with 1(2-4) show ?thesis
      by (auto simp: res_name.simps map_sum_def split: sum.splits if_splits intro: same up)
  next
    case False
    show ?thesis
    proof (cases "visit T (hd s) n fl")
      case (Inr z)
      with False 1(2-4) show ?thesis by (auto simp: res_name.simps intro: down)
    next
      case (Inl e)
      with False 1(2) obtain t where t: "link_error e" "follow" "b \<noteq> 0" "link_text T (hd s) n = Some t"
          "t = [] \<or> hd t \<noteq> SLASH" "res_path T K s (cstr (take (MAX_PATH_LEN - 1) t)) fl (b - 1) True = Inr s1"
        by (auto simp: res_name.simps split: if_splits option.splits)
      with False Inl 1(3,4) have "expands T K fl0 s (components (cstr (take (MAX_PATH_LEN - 1) t)) @ ds) s2"
        by (intro 1(1)) auto
      with False t show ?thesis by (intro link) auto
    qed
  qed
next
  case (2 T K s path fl b follow)
  then show ?case by (auto simp: res_path.simps split: if_splits)
next
  case (3 T K s cs fl b follow)
  show ?case
  proof (cases cs)
    case Nil
    with 3(3-5) show ?thesis by (simp add: res_loop.simps)
  next
    case (Cons n rest)
    with 3(3) obtain s' where s': "res_name T K s n (component_flags K (rest = []) fl) b (rest = [] \<longrightarrow> follow) = Inr s'"
        "res_loop T K s' rest fl b follow = Inr s1"
      by (auto simp: res_loop.simps [of _ _ _ "_ # _"] split: sum.splits)
    from Cons s' 3(4,5) have "expands T K fl0 s' (rest @ ds) s2" by (intro 3(2)) auto
    moreover have "component_flags K (rest = []) fl = component_flags K (rest @ ds = []) fl0"
      using 3(4) by (cases "rest = []") (simp_all add: component_flags_twice)
    ultimately show ?thesis using Cons s'(1) 3(1) by auto
  qed
qed

lemma res_loop_flags: "res_loop T K s cs (component_flags K True fl) b ff = res_loop T K s cs fl b ff"
proof (induction cs arbitrary: s)
  case (Cons n cs)
  have "component_flags K (cs = []) (component_flags K True fl) = component_flags K (cs = []) fl"
    by (cases "cs = []") (simp_all add: component_flags_twice)
  with Cons show ?case by (simp add: res_loop.simps [of _ _ _ "_ # _"] split: sum.split)
qed (simp add: res_loop.simps)

lemma res_path_flags: "res_path T K s path (component_flags K True fl) b ff = res_path T K s path fl b ff"
  by (simp only: res_path.simps res_loop_flags)

lemma expands_stack: "expands T K fl s cs s' \<Longrightarrow> s \<noteq> [] \<Longrightarrow> s' \<noteq> []"
  by (induction rule: expands.induct) auto

lemma resolve_expands:
  assumes "resolve T K x path fl ff = Inr z"
  obtains s where "expands T K fl [x] (components path) s" "hd s = z"
proof -
  from assms obtain s where s: "res_path T K [x] path fl MAX_SYMLINKS ff = Inr s" "hd s = z"
    by (auto simp: resolve_def map_sum_def split: sum.splits)
  then have "res_path T K [x] path (component_flags K True fl) MAX_SYMLINKS ff = Inr s"
    by (simp add: res_path_flags)
  then have "expands T K fl [x] (components path @ []) s"
    by (rule resolution_expands(2)) (simp_all add: arrived)
  with s(2) show thesis by (intro that) simp_all
qed

text \<open>A symlink does not open, so a component is gone down to or followed, never both.\<close>

lemma visit_no_link:
  assumes "\<And>z. target T z \<noteq> None \<Longrightarrow> refusal T z fl \<noteq> None" and "visit T x n fl = Inr z"
  shows "link_text T x n = None"
  using assms(1) [of z] assms(2)
  by (cases "target T z") (auto simp: visit_def link_text_def split: sum.splits option.splits)

lemma expands_unique:
  assumes no_link: "\<And>z l. target T z \<noteq> None \<Longrightarrow> refusal T z (component_flags K l fl) \<noteq> None"
  shows "expands T K fl s cs s1 \<Longrightarrow> expands T K fl s cs s2 \<Longrightarrow> s2 = s1"
proof (induction arbitrary: s2 rule: expands.induct)
  case (same s z cs s')
  from same.prems show ?case by (rule expands_ConsE) (simp_all add: same.IH)
next
  case (up s z cs s')
  from up.prems show ?case by (rule expands_ConsE) (simp_all add: up.IH)
next
  case (down n s cs z s')
  have "link_text T (hd s) n = None" using no_link down.hyps(3) by (rule visit_no_link)
  with down.prems down.hyps show ?case by (auto elim!: expands_nameE intro: down.IH)
next
  case (link n s t cs s')
  have "visit T (hd s) n (component_flags K (cs = []) fl) \<noteq> Inr z" for z
    using no_link visit_no_link link.hyps(3) by (metis option.distinct(1))
  with link.prems link.hyps show ?case by (auto elim!: expands_nameE intro: link.IH)
qed auto

subsection \<open>What the walks compute\<close>

text \<open>
  C15. On a tree that stands still \<^verbatim>\<open>walk_open\<close> computes the resolution of the path and nothing else: it
  opens a new descriptor on the file the resolution ends at, or answers the resolution's error (or, at
  any point, a lack of resources); and everything that was open stays open.
\<close>

theorem walk_open_refines:
  assumes "tree_laws K V T R F" and "good V w" "node_of V w d = Some x" and "0 \<notin> set path" "fl \<in> F"
    and "walk_open K d path fl m ff w = (r, w')"
  shows "persists V w w' \<and> (case r of
      Inl e \<Rightarrow> e \<in> Errno ` R \<or> resolve T K x path fl ff = Inl e
    | Inr f \<Rightarrow> node_of V w f = None \<and> (\<exists>z. resolve T K x path fl ff = Inr z \<and> node_of V w' f = Some z))"
  using assms by (intro static_tree.walk_open_agrees [OF static_tree.intro])

lemma sample_still: "good (still_view sample_entries sample_tree) sample"
  "node_of (still_view sample_entries sample_tree) sample 7 = Some 1"
  using sample_good by (simp_all add: still_view_def mem_view_def sample_simps)

theorem walk_open_refines_witness:
  "\<exists>f w'. walk_open mem_kernel 7 (bytes_of ''a/u'') 0 0 True sample = (Inr f, w') \<and> map_of (fds w') f = Some 3"
proof -
  obtain r w' where eq: "walk_open mem_kernel 7 (bytes_of ''a/u'') 0 0 True sample = (r, w')"
    by (cases "walk_open mem_kernel 7 (bytes_of ''a/u'') 0 0 True sample")
  have "(0 :: byte) \<notin> set (bytes_of ''a/u'')" by code_simp
  moreover have "resolve (mem_files sample_tree) mem_kernel 1 (bytes_of ''a/u'') 0 True = Inr 3" by code_simp
  ultimately show ?thesis
    using walk_open_refines [OF mem_tree_laws sample_still _ _ eq] eq
    by (cases r) (auto simp: still_view_def mem_view_def)
qed

text \<open>
  C16. A walk that succeeds ends at the file the path names: the one reached by taking its components in
  turn and putting the components of a symlink's text in the place of the symlink. There is no other
  file that the path names in this way.
\<close>

theorem walk_open_follows_text:
  assumes "tree_laws K V T R F" and "good V w" "node_of V w d = Some x" and "0 \<notin> set path" "fl \<in> F"
    and "walk_open K d path fl m ff w = (Inr f, w')"
  shows "\<exists>z s. node_of V w' f = Some z \<and> expands T K fl [x] (components path) (z # s)
    \<and> (\<forall>s'. expands T K fl [x] (components path) s' \<longrightarrow> s' = z # s)"
proof -
  have no_link: "refusal T z (component_flags K l fl) \<noteq> None" if "target T z \<noteq> None" for z l
  proof -
    have "component_flags K l fl \<in> F" using assms(1,5) by (simp add: tree_laws_def law_flags_def)
    with assms(1,2) that show ?thesis unfolding tree_laws_def law_tree_def by blast
  qed
  obtain z where z: "resolve T K x path fl ff = Inr z" "node_of V w' f = Some z"
    using static_tree.walk_open_agrees [OF static_tree.intro, OF assms] by auto
  obtain s where s: "expands T K fl [x] (components path) s" "hd s = z"
    by (rule resolve_expands [OF z(1)])
  from expands_stack [OF s(1)] s(2) have "s = z # tl s" by (cases s) auto
  with z(2) s(1) have "node_of V w' f = Some z" "expands T K fl [x] (components path) (z # tl s)" by simp_all
  then show ?thesis using expands_unique [OF no_link] by blast
qed

theorem walk_open_follows_text_witness:
  "\<exists>f w' s. walk_open mem_kernel 7 (bytes_of ''a/u'') 0 0 True sample = (Inr f, w') \<and> map_of (fds w') f = Some 3
    \<and> expands (mem_files sample_tree) mem_kernel 0 [1] (map bytes_of [''a'', ''u'']) (3 # s)"
proof -
  have "case walk_open mem_kernel 7 (bytes_of ''a/u'') 0 0 True sample of
      (Inr f, w') \<Rightarrow> map_of (fds w') f = Some 3 | (Inl e, w') \<Rightarrow> False" by code_simp
  then obtain f w' where eq: "walk_open mem_kernel 7 (bytes_of ''a/u'') 0 0 True sample = (Inr f, w')"
      "map_of (fds w') f = Some 3" by (auto split: prod.splits sum.splits)
  have "(0 :: byte) \<notin> set (bytes_of ''a/u'')" by code_simp
  from walk_open_follows_text [OF mem_tree_laws sample_still this _ eq(1)] obtain z s where
      "node_of (still_view sample_entries sample_tree) w' f = Some z"
      "expands (mem_files sample_tree) mem_kernel 0 [1] (components (bytes_of ''a/u'')) (z # s)" by auto
  moreover have "components (bytes_of ''a/u'') = map bytes_of [''a'', ''u'']" by code_simp
  ultimately show ?thesis using eq by (auto simp: still_view_def mem_view_def)
qed

text \<open>
  The walk to a parent computes the parent of the resolved path: a descriptor on the directory in
  which the last component is to be used, a new one unless it is the preopen itself, and that component,
  in the buffer of the caller.
\<close>

lemma walk_parent_refines:
  assumes "tree_laws K V T R F" and "good V w" "node_of V w d = Some x" and "0 \<notin> set path"
    and "walk_parent K d path st sz w = (r, w')"
  shows "persists V w w' \<and> (case r of
      Inl e \<Rightarrow> e \<in> Errno ` R \<or> resolve_parent T K x path sz = Inl e
    | Inr (f, owned, st', name) \<Rightarrow> st' = st \<and> (owned \<longrightarrow> node_of V w f = None) \<and>
        (\<exists>z. resolve_parent T K x path sz = Inr (z, name) \<and> node_of V w' f = Some z))"
  using static_tree.walk_parent_agrees [OF static_tree.intro, OF assms]
  by (simp add: static_tree.parent_agrees_def [OF static_tree.intro, OF assms(1)])

lemma walk_parent_refines_witness:
  "\<exists>f owned w'. walk_parent mem_kernel 7 (bytes_of ''a/../a/u'') Caller_buf 4096 sample
      = (Inr (f, owned, Caller_buf, bytes_of ''u''), w') \<and> map_of (fds w') f = Some 2"
proof -
  obtain r w' where eq: "walk_parent mem_kernel 7 (bytes_of ''a/../a/u'') Caller_buf 4096 sample = (r, w')"
    by (cases "walk_parent mem_kernel 7 (bytes_of ''a/../a/u'') Caller_buf 4096 sample")
  have "(0 :: byte) \<notin> set (bytes_of ''a/../a/u'')" by code_simp
  moreover have "resolve_parent (mem_files sample_tree) mem_kernel 1 (bytes_of ''a/../a/u'') 4096
      = Inr (2, bytes_of ''u'')" by code_simp
  ultimately show ?thesis
    using walk_parent_refines [OF mem_tree_laws sample_still _ eq] eq
    by (cases r) (auto simp: still_view_def mem_view_def)
qed

subsection \<open>Symlinks that go round in circles\<close>

lemma loop_resolves:
  assumes "plain n" "length n < MAX_PATH_LEN" "link_text T x n = Some n"
    and "visit T x n (component_flags K True fl) = Inl e" "link_error e"
  shows "res_path T K [x] n fl b follow = Inl (Errno ELOOP)"
proof (induction b arbitrary: follow rule: less_induct)
  case (less b)
  have "hd n \<noteq> SLASH" using assms(1) by (cases n) (auto simp: plain_def)
  then have n: "n \<noteq> []" "hd n \<noteq> SLASH" "n \<noteq> DOT" "n \<noteq> DOTDOT" "components n = [n]" "cstr (take (MAX_PATH_LEN - 1) n) = n"
    using assms(1,2) \<open>hd n \<noteq> SLASH\<close> by (auto simp: plain_def one_component_cases cstr_id)
  have "res_name T K [x] n (component_flags K True fl) b follow = Inl (Errno ELOOP)"
    if "follow" "b \<noteq> 0"
    using n assms(3-5) less [of "b - 1"] that
    by (simp add: res_name.simps res_path_flags)
  then have "res_name T K [x] n (component_flags K True fl) b follow = Inl (Errno ELOOP)"
    using n assms(4,5) by (auto simp: res_name.simps)
  with n assms(2) show ?case by (simp add: res_path.simps res_loop.simps)
qed

text \<open>
  A symlink to itself is no endless loop: whatever else the tree and the kernel are, the walk ends
  with ELOOP (or a lack of resources).
\<close>

lemma looping_link_eloop:
  assumes "tree_laws K V T R F" and "good V w" "node_of V w d = Some x" and "fl \<in> F"
    and "plain n" "length n < MAX_PATH_LEN" "link_text T x n = Some n"
    and "visit T x n (component_flags K True fl) = Inl e" "link_error e"
    and "walk_open K d n fl m ff w = (r, w')"
  shows "r = Inl (Errno ELOOP) \<or> r \<in> Inl ` Errno ` R"
proof -
  have "0 \<notin> set n" using assms(5) by (auto simp: plain_def)
  with static_tree.walk_open_agrees [OF static_tree.intro, OF assms(1-3) _ assms(4,10)]
  have "case r of Inl e \<Rightarrow> e \<in> Errno ` R \<or> resolve T K x n fl ff = Inl e
      | Inr f \<Rightarrow> \<exists>z. resolve T K x n fl ff = Inr z" by (auto split: sum.splits)
  moreover have "resolve T K x n fl ff = Inl (Errno ELOOP)"
    by (simp add: resolve_def loop_resolves [OF assms(5-9)])
  ultimately show ?thesis by (auto split: sum.splits)
qed

lemma looping_link_eloop_witness:
  "fst (walk_open mem_kernel 7 (bytes_of ''s'') 0 0 True sample) = Inl (Errno ELOOP)"
proof -
  have "plain (bytes_of ''s'')" "length (bytes_of ''s'') < MAX_PATH_LEN"
    by (simp_all add: plain_def bytes_of_def MAX_PATH_LEN_def)
  moreover have "link_text (mem_files sample_tree) 1 (bytes_of ''s'') = Some (bytes_of ''s'')"
    "visit (mem_files sample_tree) 1 (bytes_of ''s'') (component_flags mem_kernel True 0) = Inl ELOOP"
    by code_simp+
  ultimately show ?thesis
    using looping_link_eloop [OF mem_tree_laws sample_still, of 0 "bytes_of ''s''" ELOOP 0 True]
    by (simp add: link_error_def prod_eq_iff)
qed

end
