(* ===== verification/Path_Fallback.thy ===== *)
theory Path_Fallback
  imports Nif_Expansion
begin

text \<open>
  The other backend's resolver, \<^verbatim>\<open>wasi_path.erl\<close>: a path is resolved by name, link by link, and opened
  afterwards. The file system is what it asks: \<open>read_link\<close> is \<^verbatim>\<open>prim_file:read_link\<close>, \<open>present\<close> says
  whether \<^verbatim>\<open>file:read_link_info\<close> finds the name; both of a tree that stands still, so the window between
  the check and the open is not in this model. Names are bytes: the code works on the characters of the
  UTF-8 path, and looks at \<^verbatim>\<open>/\<close> and \<^verbatim>\<open>.\<close> only.
\<close>

subsection \<open>filename\<close>

text \<open>
  What it uses of \<^verbatim>\<open>filename\<close>: \<open>split\<close>, whose first component is \<^verbatim>\<open>/\<close> when the path is absolute, \<open>join\<close>,
  which normalises and where an absolute second argument wins, and \<open>absname\<close>.
\<close>

definition absolute :: "bytes \<Rightarrow> bool" where
  "absolute p \<longleftrightarrow> p \<noteq> [] \<and> hd p = SLASH"

definition split_path :: "bytes \<Rightarrow> bytes list" where
  "split_path p = (if absolute p then [[SLASH]] else []) @ components p"

fun slashed :: "bytes list \<Rightarrow> bytes" where
  "slashed [] = []"
| "slashed [c] = c"
| "slashed (c # cs) = c @ SLASH # slashed cs"

definition norm_path :: "bytes \<Rightarrow> bytes" where
  "norm_path p = (if absolute p then [SLASH] else []) @ slashed (components p)"

definition join2 :: "bytes \<Rightarrow> bytes \<Rightarrow> bytes" where
  "join2 a b = norm_path (if absolute b \<or> a = [] then b else a @ SLASH # b)"

definition join_path :: "bytes list \<Rightarrow> bytes" where
  "join_path ps = foldl join2 (norm_path (hd ps)) (tl ps)"

definition absname :: "bytes \<Rightarrow> bytes \<Rightarrow> bytes" where
  "absname cwd p = (if absolute p then norm_path p else join2 cwd p)"

subsection \<open>safe_relative_path\<close>

text \<open>
  The segments still to take are components and the atom \<^verbatim>\<open>clear\<close>, which ends a link's text and empties
  the set of links seen. The recursion need not end, so \<open>None\<close> is a resolution that never returns.
\<close>

datatype segment = Seg bytes | Clear

datatype safe_path = Unsafe | Safe bytes

partial_function (option) srp ::
  "(bytes \<Rightarrow> bytes option) \<Rightarrow> segment list \<Rightarrow> bytes \<Rightarrow> bytes list \<Rightarrow> bytes list \<Rightarrow> safe_path option" where
  "srp read_link segs cwd seen acc =
     (case segs of
        [] \<Rightarrow> Some (Safe (if acc = [] then [] else join_path acc))
      | Clear # rest \<Rightarrow> srp read_link rest cwd [] acc
      | Seg s # rest \<Rightarrow>
          if s = DOT then srp read_link rest cwd seen acc
          else if s = DOTDOT then
            (if acc = [] then Some Unsafe else srp read_link rest cwd seen (butlast acc))
          else if absolute s then Some Unsafe
          else
            (let dir = join_path (cwd # acc) in
             case read_link (join2 dir s) of
               Some link \<Rightarrow>
                 (if join2 dir link \<in> set seen then Some Unsafe
                  else srp read_link (map Seg (split_path link) @ Clear # rest) cwd (join2 dir link # seen) acc)
             | None \<Rightarrow> srp read_link rest cwd seen (acc @ [s])))"

declare srp.simps [simp del]

definition safe_relative_path :: "(bytes \<Rightarrow> bytes option) \<Rightarrow> bytes \<Rightarrow> bytes \<Rightarrow> safe_path option" where
  "safe_relative_path read_link path cwd =
     srp read_link (map Seg (split_path path)) (if cwd = [] then DOT else cwd) [] []"

subsection \<open>resolve\<close>

text \<open>The errors are WASI codes: ENOTCAPABLE is 76, ENOENT 44.\<close>

definition resolve_checked ::
  "(bytes \<Rightarrow> bytes option) \<Rightarrow> (bytes \<Rightarrow> bool) \<Rightarrow> bytes \<Rightarrow> bytes \<Rightarrow> bool \<Rightarrow> (nat + bytes) option" where
  "resolve_checked read_link present root path must_exist =
     (case safe_relative_path read_link path root of
        None \<Rightarrow> None
      | Some Unsafe \<Rightarrow> Some (Inl 76)
      | Some (Safe rel) \<Rightarrow>
          (let full = join2 root rel in
           if must_exist \<and> \<not> present full then Some (Inl 44) else Some (Inr full)))"

text \<open>
  \<^verbatim>\<open>nofollow\<close>: the parent is resolved and the last component appended by name. \<open>dirname\<close> of a path
  without trailing slashes takes the last component away and the slashes before it.
\<close>

definition dirname :: "bytes \<Rightarrow> bytes" where
  "dirname p =
     (let q = rev (dropWhile (\<lambda>c. c = SLASH) (dropWhile (\<lambda>c. c \<noteq> SLASH) (rev p)))
      in if q = [] then (if absolute p then [SLASH] else DOT) else q)"

definition trim_slashes :: "bytes \<Rightarrow> bytes" where
  "trim_slashes p = rev (dropWhile (\<lambda>c. c = SLASH) (rev p))"

definition resolve_last ::
  "(bytes \<Rightarrow> bytes option) \<Rightarrow> (bytes \<Rightarrow> bool) \<Rightarrow> bytes \<Rightarrow> bytes \<Rightarrow> bool \<Rightarrow> (nat + bytes) option" where
  "resolve_last read_link present root path0 must_exist =
     (let path = trim_slashes path0 in
      if path = [] then resolve_checked read_link present root path0 must_exist
      else
        (let name = last (split_path path) in
         if name = DOT \<or> name = DOTDOT \<or> name = [SLASH] then
           resolve_checked read_link present root path must_exist
         else
           (case resolve_checked read_link present root (dirname path) True of
              Some (Inr parent) \<Rightarrow>
                (let full = join2 parent name in
                 if must_exist \<and> \<not> present full then Some (Inl 44) else Some (Inr full))
            | r \<Rightarrow> r)))"

subsection \<open>verify_within\<close>

text \<open>
  The check after the open. \<^verbatim>\<open>real/1\<close> asks \<^verbatim>\<open>read_link_all\<close> and goes on in the same way whatever it
  answers, and \<^verbatim>\<open>canonical/1\<close> joins the components it has split, whether or not the file is there.
\<close>

definition ensure_trailing :: "bytes \<Rightarrow> bytes" where
  "ensure_trailing p = p @ [SLASH]"

definition canonical :: "(bytes \<Rightarrow> bool) \<Rightarrow> bytes \<Rightarrow> bytes \<Rightarrow> bytes" where
  "canonical found cwd p =
     (let a = absname cwd p in
      if found a then ensure_trailing (join_path (split_path a)) else ensure_trailing a)"

definition verify_within :: "(bytes \<Rightarrow> bool) \<Rightarrow> bytes \<Rightarrow> bytes \<Rightarrow> bytes \<Rightarrow> nat option" where
  "verify_within found cwd root path =
     (if take (length (canonical found cwd root)) (canonical found cwd path) = canonical found cwd root
      then None else Some 76)"

subsection \<open>Paths and their components\<close>

definition word :: "bytes \<Rightarrow> bool" where
  "word t \<longleftrightarrow> t \<noteq> [] \<and> SLASH \<notin> set t"

lemma one_component_word: "one_component t \<Longrightarrow> word t"
  by (simp add: one_component_def word_def)

lemma strtok_r_word:
  assumes "word t"
  shows "strtok_r t = Some (t, [])" and "strtok_r (t @ SLASH # r) = Some (t, r)"
proof -
  have ne: "t \<noteq> []" and ns: "SLASH \<notin> set t" using assms by (auto simp: word_def)
  have d: "dropWhile (\<lambda>b. b = SLASH) (t @ u) = t @ u" for u using ne ns by (cases t) auto
  have tw: "takeWhile (\<lambda>b. b \<noteq> SLASH) t = t" "dropWhile (\<lambda>b. b \<noteq> SLASH) t = []"
    using ns by (auto simp: takeWhile_eq_all_conv dropWhile_eq_Nil_conv)
  show "strtok_r t = Some (t, [])" using d [of "[]"] ne by (simp add: strtok_r_def tw)
  have "takeWhile (\<lambda>b. b \<noteq> SLASH) (t @ SLASH # r) = t" "dropWhile (\<lambda>b. b \<noteq> SLASH) (t @ SLASH # r) = SLASH # r"
    using ns by (auto simp: takeWhile_append dropWhile_append)
  then show "strtok_r (t @ SLASH # r) = Some (t, r)" using d [of "SLASH # r"] ne by (simp add: strtok_r_def)
qed

lemma components_Nil [simp]: "components [] = []"
  by (simp add: components_empty)

lemma components_word [simp]: "word t \<Longrightarrow> components t = [t]" "word t \<Longrightarrow> components (t @ SLASH # r) = t # components r"
  by (simp_all add: components.simps [of t] components.simps [of "t @ SLASH # r"] strtok_r_word)

lemma components_slash [simp]: "components (SLASH # r) = components r"
  by (simp add: components.simps [of "SLASH # r"] components.simps [of r] strtok_r_def)

text \<open>A path is slashes, or a word before the rest.\<close>

lemma word_split:
  obtains (all) "SLASH \<notin> set p" | (cut) t r where "p = t @ SLASH # r" "SLASH \<notin> set t"
  by (metis split_list_first)

lemma path_induct [case_names empty slash one cons]:
  assumes "P []" and "\<And>r. P r \<Longrightarrow> P (SLASH # r)" and "\<And>t. word t \<Longrightarrow> P t"
    and "\<And>t r. word t \<Longrightarrow> P r \<Longrightarrow> P (t @ SLASH # r)"
  shows "P p"
proof (induction p rule: length_induct)
  case (1 p)
  show ?case
  proof (cases p rule: word_split)
    case all
    with assms(1,3) show ?thesis by (cases "p = []") (auto simp: word_def)
  next
    case (cut t r)
    with 1 have "P r" by simp
    with cut assms(2,4) show ?thesis by (cases "t = []") (auto simp: word_def)
  qed
qed

lemma components_append: "components (a @ SLASH # b) = components a @ components b"
  by (induction a rule: path_induct) simp_all

lemma components_words: "c \<in> set (components p) \<Longrightarrow> word c"
  by (induction p rule: path_induct) auto

lemma components_slashed: "(\<And>c. c \<in> set cs \<Longrightarrow> word c) \<Longrightarrow> components (slashed cs) = cs"
  by (induction cs rule: slashed.induct) auto

lemma components_norm [simp]: "components (norm_path p) = components p"
  using components_slashed [of "components p"] components_words
  by (auto simp: norm_path_def)

lemma absolute_slashed: "(\<And>c. c \<in> set cs \<Longrightarrow> word c) \<Longrightarrow> \<not> absolute (slashed cs)"
proof -
  assume w: "\<And>c. c \<in> set cs \<Longrightarrow> word c"
  have "hd t \<noteq> SLASH" if "word t" for t using that by (cases t) (auto simp: word_def)
  with w show ?thesis by (cases cs rule: slashed.cases) (auto simp: absolute_def word_def hd_append)
qed

lemma absolute_norm [simp]: "absolute (norm_path p) = absolute p"
  using absolute_slashed [of "components p"] components_words by (auto simp: norm_path_def absolute_def)

lemma norm_eq: "absolute p = absolute q \<Longrightarrow> components p = components q \<Longrightarrow> norm_path p = norm_path q"
  by (simp add: norm_path_def)

lemma norm_norm [simp]: "norm_path (norm_path p) = norm_path p"
  by (rule norm_eq) simp_all

text \<open>What a join is made of, when its second part is relative.\<close>

lemma absolute_append [simp]: "a \<noteq> [] \<Longrightarrow> absolute (a @ b) = absolute a"
  by (simp add: absolute_def)

lemma join2_parts:
  assumes "a \<noteq> []" and "\<not> absolute b"
  shows "absolute (join2 a b) = absolute a" and "components (join2 a b) = components a @ components b"
proof -
  have "join2 a b = norm_path (a @ SLASH # b)" using assms by (simp add: join2_def)
  then show "absolute (join2 a b) = absolute a" "components (join2 a b) = components a @ components b"
    using assms(1) by (simp_all add: components_append del: components_word)
qed

lemma slashed_Nil: "(\<And>c. c \<in> set cs \<Longrightarrow> word c) \<Longrightarrow> slashed cs = [] \<longleftrightarrow> cs = []"
  by (cases cs rule: slashed.cases) (auto simp: word_def)

lemma norm_ne: "p \<noteq> [] \<Longrightarrow> norm_path p \<noteq> []"
proof (cases "absolute p")
  case False
  moreover assume "p \<noteq> []"
  ultimately have "components p \<noteq> []" by (intro components_relative) (auto simp: absolute_def)
  then show ?thesis using slashed_Nil [of "components p"] components_words by (auto simp: norm_path_def)
qed (simp add: norm_path_def)

lemma join2_ne: "a \<noteq> [] \<Longrightarrow> b \<noteq> [] \<Longrightarrow> join2 a b \<noteq> []"
  using norm_ne [of b] norm_ne [of "a @ SLASH # b"] by (simp add: join2_def)

text \<open>The directory a resolution stands in, and its path from the root.\<close>

lemma join_path_snoc: "ps \<noteq> [] \<Longrightarrow> join_path (ps @ [s]) = join2 (join_path ps) s"
  by (cases ps) (simp_all add: join_path_def)

lemma join_path_parts:
  assumes "root \<noteq> []" and "\<And>c. c \<in> set cs \<Longrightarrow> word c"
  shows "join_path (root # cs) \<noteq> [] \<and> absolute (join_path (root # cs)) = absolute root
    \<and> components (join_path (root # cs)) = components root @ cs"
  using assms(2)
proof (induction cs rule: rev_induct)
  case Nil
  then show ?case using norm_ne [OF assms(1)] by (simp add: join_path_def)
next
  case (snoc c cs)
  then have "word c" by simp
  then have c: "c \<noteq> []" "\<not> absolute c" "components c = [c]" using absolute_slashed [of "[c]"] by (auto simp: word_def)
  from snoc c show ?case
    using join_path_snoc [of "root # cs" c] join2_parts [of "join_path (root # cs)" c] join2_ne by simp
qed

lemma join2_slashed:
  assumes "root \<noteq> []" and "\<And>c. c \<in> set cs \<Longrightarrow> word c"
  shows "join2 root (slashed cs) = join_path (root # cs)"
proof (cases "cs = []")
  case True
  have "norm_path (root @ [SLASH]) = norm_path root"
    using assms(1) components_append [of root "[]"] by (intro norm_eq) simp_all
  with True assms(1) show ?thesis by (simp add: join2_def join_path_def absolute_def)
next
  case False
  have "\<exists>p. join_path (root # cs) = norm_path p"
    using False by (cases cs rule: rev_cases) (auto simp: join_path_snoc [of "root # _", simplified] join2_def)
  then obtain p where p: "join_path (root # cs) = norm_path p" ..
  have rel: "\<not> absolute (slashed cs)" using absolute_slashed assms(2) by blast
  have "absolute (join_path (root # cs)) = absolute root \<and> components (join_path (root # cs)) = components root @ cs"
    using join_path_parts [OF assms] by blast
  then have "absolute p = absolute root" "components p = components root @ cs" using p by simp_all
  moreover have "components (slashed cs) = cs" using components_slashed assms(2) by blast
  ultimately have "norm_path (root @ SLASH # slashed cs) = norm_path p"
    using assms(1) by (intro norm_eq) (simp_all add: components_append del: components_word)
  with p rel assms(1) show ?thesis by (simp add: join2_def)
qed

lemma join_path_words:
  assumes "cs \<noteq> []" and "\<And>c. c \<in> set cs \<Longrightarrow> word c"
  shows "join_path cs = slashed cs"
proof -
  obtain c ds where cs: "cs = c # ds" using assms(1) by (cases cs) auto
  have c: "c \<noteq> []" "components c = [c]" "\<not> absolute c"
    using assms(2) cs absolute_slashed [of "[c]"] by (auto simp: word_def)
  have "join2 c (slashed ds) = join_path cs" using join2_slashed [of c ds] assms(2) cs c(1) by simp
  moreover have "join2 c (slashed ds) = slashed cs"
  proof (cases ds)
    case Nil
    with c cs show ?thesis using components_append [of c "[]"] by (simp add: join2_def norm_path_def absolute_def)
  next
    case (Cons d es)
    have "\<not> absolute (slashed ds)" using absolute_slashed [of ds] assms(2) cs by simp
    then show ?thesis
      using c cs Cons components_slashed [of cs] assms(2) by (simp add: join2_def norm_path_def)
  qed
  ultimately show ?thesis by simp
qed

end
