(* ===== verification/Path_Agree.thy ===== *)
theory Path_Agree
  imports Path_Fallback
begin

text \<open>
  What the resolver of the fallback backend is worth: where it lets a path through, nothing on the way
  is a link; it agrees with the walk of the NIF wherever both find a file, and returns whenever the walk
  does find one. It does not always return, and the check after the open checks nothing.
\<close>

subsection \<open>A safe path has no links in it\<close>

definition proper :: "bytes \<Rightarrow> bool" where
  "proper c \<longleftrightarrow> word c \<and> c \<noteq> DOT \<and> c \<noteq> DOTDOT"

definition unlinked :: "(bytes \<Rightarrow> bytes option) \<Rightarrow> bytes \<Rightarrow> bytes list \<Rightarrow> bool" where
  "unlinked read_link root acc \<longleftrightarrow>
     (\<forall>k < length acc. read_link (join_path (root # take (Suc k) acc)) = None)"

definition seg_ok :: "segment \<Rightarrow> bool" where
  "seg_ok g \<longleftrightarrow> (case g of Clear \<Rightarrow> True | Seg s \<Rightarrow> word s \<or> s = [SLASH])"

lemma split_path_ok: "list_all seg_ok (map Seg (split_path p))"
  using components_words by (auto simp: list_all_iff seg_ok_def split_path_def)

lemma unlinked_butlast: "unlinked rl root acc \<Longrightarrow> unlinked rl root (butlast acc)"
  by (auto simp: unlinked_def take_butlast)

lemma unlinked_snoc:
  assumes "unlinked rl root acc" and "rl (join2 (join_path (root # acc)) s) = None"
  shows "unlinked rl root (acc @ [s])"
  using assms by (auto simp: unlinked_def less_Suc_eq join_path_snoc [of "root # acc", simplified])

lemma proper_seg: "seg_ok (Seg s) \<Longrightarrow> s \<noteq> DOT \<Longrightarrow> s \<noteq> DOTDOT \<Longrightarrow> \<not> absolute s \<Longrightarrow> proper s"
  by (auto simp: seg_ok_def proper_def absolute_def)

text \<open>The four things that a name can be.\<close>

lemma srp_dot: "srp rl (Seg DOT # rest) root seen acc = srp rl rest root seen acc"
  by (subst srp.simps) simp

lemma srp_up: "acc \<noteq> [] \<Longrightarrow> srp rl (Seg DOTDOT # rest) root seen acc = srp rl rest root seen (butlast acc)"
  by (subst srp.simps) simp

lemma srp_down:
  "proper n \<Longrightarrow> rl (join2 (join_path (root # acc)) n) = None \<Longrightarrow>
     srp rl (Seg n # rest) root seen acc = srp rl rest root seen (acc @ [n])"
  using absolute_slashed [of "[n]"] by (subst srp.simps) (simp add: proper_def Let_def)

lemma srp_link:
  "proper n \<Longrightarrow> rl (join2 (join_path (root # acc)) n) = Some t \<Longrightarrow> join2 (join_path (root # acc)) t \<notin> set seen \<Longrightarrow>
     srp rl (Seg n # rest) root seen acc =
     srp rl (map Seg (split_path t) @ Clear # rest) root (join2 (join_path (root # acc)) t # seen) acc"
  using absolute_slashed [of "[n]"] by (subst srp.simps) (simp add: proper_def Let_def)

lemma srp_safe:
  assumes "srp rl segs root seen acc = Some r" and "list_all proper acc" "list_all seg_ok segs" "unlinked rl root acc"
  shows "r = Unsafe \<or> (\<exists>acc'. r = Safe (slashed acc') \<and> list_all proper acc' \<and> unlinked rl root acc')"
  using assms
proof (induction rl segs root seen acc r rule: srp.raw_induct [rotated, consumes 1, case_names step])
  case (step srp rl segs root seen acc r)
  show ?case
  proof (cases segs)
    case Nil
    have "join_path acc = slashed acc" if "acc \<noteq> []"
      using join_path_words [OF that] step.prems(1) by (auto simp: list_all_iff proper_def)
    with Nil step.hyps have "r = Safe (slashed acc)" by (cases "acc = []") auto
    with step.prems show ?thesis by blast
  next
    case (Cons g rest)
    show ?thesis
    proof (cases g)
      case Clear
      with step.hyps step.prems Cons show ?thesis by (intro step.IH [of rl rest root "[]" acc]) simp_all
    next
      case (Seg s)
      then have s: "seg_ok (Seg s)" and rest: "list_all seg_ok rest" using Cons step.prems by simp_all
      consider (dot) "s = DOT" | (up) "s = DOTDOT" | (abs) "s \<noteq> DOT" "s \<noteq> DOTDOT" "absolute s"
        | (link) link where "s \<noteq> DOT" "s \<noteq> DOTDOT" "\<not> absolute s" "rl (join2 (join_path (root # acc)) s) = Some link"
        | (name) "s \<noteq> DOT" "s \<noteq> DOTDOT" "\<not> absolute s" "rl (join2 (join_path (root # acc)) s) = None"
        by (cases "rl (join2 (join_path (root # acc)) s)") auto
      then show ?thesis
      proof cases
        case dot
        with step.hyps step.prems Cons Seg rest show ?thesis by (intro step.IH [of rl rest root seen acc]) simp_all
      next
        case up
        have "list_all proper (butlast acc)" using step.prems by (auto simp: list_all_iff dest: in_set_butlastD)
        show ?thesis
        proof (cases "acc = []")
          case False
          with up step.hyps step.prems Cons Seg rest \<open>list_all proper (butlast acc)\<close> show ?thesis
            by (intro step.IH [of rl rest root seen "butlast acc"]) (simp_all add: unlinked_butlast)
        qed (use up step.hyps Cons Seg in simp)
      next
        case abs
        with step.hyps Cons Seg show ?thesis by simp
      next
        case (link l)
        then show ?thesis
        proof (cases "join2 (join_path (root # acc)) l \<in> set seen")
          case False
          have "list_all seg_ok (map Seg (split_path l) @ Clear # rest)"
            using split_path_ok [of l] rest by (simp add: seg_ok_def)
          with False link step.hyps step.prems Cons Seg show ?thesis
            by (intro step.IH [of rl "map Seg (split_path l) @ Clear # rest" root "join2 (join_path (root # acc)) l # seen" acc])
              (simp_all add: Let_def)
        qed (use step.hyps Cons Seg in \<open>simp add: Let_def\<close>)
      next
        case name
        with step.hyps step.prems Cons Seg rest s show ?thesis
          by (intro step.IH [of rl rest root seen "acc @ [s]"]) (simp_all add: Let_def proper_seg unlinked_snoc)
      qed
    qed
  qed
qed

lemma proper_word: "list_all proper acc \<Longrightarrow> c \<in> set acc \<Longrightarrow> word c"
  by (auto simp: list_all_iff proper_def)

lemma resolve_checked_safe:
  assumes "root \<noteq> []" and "resolve_checked rl present root path me = Some (Inr full)"
  obtains acc where "full = join_path (root # acc)" "list_all proper acc" "unlinked rl root acc"
proof -
  from assms(2) obtain rel where rel: "safe_relative_path rl path root = Some (Safe rel)" "full = join2 root rel"
    by (auto simp: resolve_checked_def Let_def split: option.splits safe_path.splits if_splits)
  from rel(1) have "srp rl (map Seg (split_path path)) root [] [] = Some (Safe rel)"
    using assms(1) by (simp add: safe_relative_path_def)
  from srp_safe [OF this _ split_path_ok] obtain acc where
    acc: "rel = slashed acc" "list_all proper acc" "unlinked rl root acc" by (auto simp: unlinked_def)
  with rel(2) have "full = join_path (root # acc)" using join2_slashed [OF assms(1) proper_word [OF acc(2)]] by simp
  with acc show thesis by (intro that)
qed

lemma trim_slashes_last: "trim_slashes p \<noteq> [] \<Longrightarrow> last (trim_slashes p) \<noteq> SLASH"
  unfolding trim_slashes_def using hd_dropWhile [of "\<lambda>c. c = SLASH" "rev p"] by (auto simp: last_rev)

lemma last_component: "p \<noteq> [] \<Longrightarrow> last (split_path p) \<noteq> [SLASH] \<Longrightarrow> word (last (split_path p))"
proof -
  assume p: "p \<noteq> []" "last (split_path p) \<noteq> [SLASH]"
  have "components p \<noteq> []"
  proof (cases "absolute p")
    case True
    with p(2) show ?thesis by (auto simp: split_path_def)
  next
    case False
    with p(1) show ?thesis by (intro components_relative) (auto simp: absolute_def)
  qed
  then show "word (last (split_path p))" using components_words [of "last (components p)" p] by (simp add: split_path_def)
qed

text \<open>All but the last component: what \<^verbatim>\<open>nofollow\<close> promises.\<close>

lemma resolve_last_safe:
  assumes "root \<noteq> []" and "resolve_last rl present root path me = Some (Inr full)"
  obtains acc where "full = join_path (root # acc)" "list_all proper acc" "unlinked rl root (butlast acc)"
proof -
  define p where "p = trim_slashes path"
  define name where "name = last (split_path p)"
  note def = assms(2) [unfolded resolve_last_def Let_def, folded p_def, folded name_def]
  show thesis
  proof (cases "p = [] \<or> name = DOT \<or> name = DOTDOT \<or> name = [SLASH]")
    case True
    then obtain q where "resolve_checked rl present root q me = Some (Inr full)"
      using def by (auto split: if_splits)
    from resolve_checked_safe [OF assms(1) this] obtain acc where
      "full = join_path (root # acc)" "list_all proper acc" "unlinked rl root acc" .
    then show thesis by (intro that [of acc] unlinked_butlast)
  next
    case False
    then obtain parent where parent: "resolve_checked rl present root (dirname p) True = Some (Inr parent)"
        "full = join2 parent name"
      using def by (auto split: option.splits sum.splits if_splits)
    from resolve_checked_safe [OF assms(1) parent(1)] obtain acc where
      acc: "parent = join_path (root # acc)" "list_all proper acc" "unlinked rl root acc" .
    have "proper name" using False last_component [of p] by (simp add: proper_def name_def)
    with acc parent(2) show thesis
      by (intro that [of "acc @ [name]"]) (simp_all add: join_path_snoc [of "root # acc", simplified])
  qed
qed

subsection \<open>The check after the open\<close>

text \<open>A path of an absolute directory is the slash and its components.\<close>

lemma join_path_absolute:
  assumes "absolute p"
  shows "join_path (split_path (norm_path p)) = norm_path p"
proof -
  let ?cs = "components p"
  have w: "c \<in> set ?cs \<Longrightarrow> word c" for c by (rule components_words)
  have "split_path (norm_path p) = [SLASH] # ?cs" using assms by (simp add: split_path_def)
  moreover have "join_path ([SLASH] # ?cs) = join2 [SLASH] (slashed ?cs)"
    using join2_slashed [of "[SLASH]" ?cs] w by simp
  moreover have "join2 [SLASH] (slashed ?cs) = norm_path p"
    using assms components_slashed [OF w] absolute_slashed [of ?cs, OF w]
    by (simp add: join2_def norm_path_def absolute_def)
  ultimately show ?thesis by simp
qed

lemma canonical_absname: "absolute cwd \<Longrightarrow> canonical found cwd p = absname cwd p @ [SLASH]"
proof -
  assume cwd: "absolute cwd"
  have "cwd \<noteq> []" using cwd by (auto simp: absolute_def)
  then obtain q where q: "absname cwd p = norm_path q" "absolute q"
    using cwd by (cases "absolute p") (auto simp: absname_def join2_def)
  then show ?thesis
    using join_path_absolute [OF q(2)] by (simp add: canonical_def Let_def ensure_trailing_def)
qed

lemma absname_join_path:
  assumes "absolute cwd" "root \<noteq> []" "list_all proper acc"
  shows "absname cwd (join_path (root # acc)) = SLASH # slashed (components (absname cwd root) @ acc)"
proof -
  have cwd: "cwd \<noteq> []" using assms(1) by (auto simp: absolute_def)
  have j: "absolute (join_path (root # acc)) = absolute root" "components (join_path (root # acc)) = components root @ acc"
    using join_path_parts [OF assms(2) proper_word [OF assms(3)]] by auto
  have abs: "absolute q \<Longrightarrow> norm_path q = SLASH # slashed (components q)" for q by (simp add: norm_path_def)
  show ?thesis
  proof (cases "absolute root")
    case True
    with j abs [of "join_path (root # acc)"] show ?thesis by (simp add: absname_def)
  next
    case False
    with j cwd assms(1) show ?thesis
      using join2_parts [OF cwd, of "join_path (root # acc)"] join2_parts [OF cwd, of root]
        abs [of "cwd @ SLASH # join_path (root # acc)"]
      by (simp add: absname_def join2_def components_append del: components_word)
  qed
qed

lemma slashed_append: "xs \<noteq> [] \<Longrightarrow> ys \<noteq> [] \<Longrightarrow> slashed (xs @ ys) = slashed xs @ SLASH # slashed ys"
proof (induction xs rule: slashed.induct)
  case (2 c)
  then show ?case by (cases ys) auto
qed auto

lemma verify_within_prefix:
  assumes "absolute cwd" "root \<noteq> []" "list_all proper acc"
  shows "verify_within found cwd root (join_path (root # acc)) =
    (if components (absname cwd root) = [] \<and> acc \<noteq> [] then Some 76 else None)"
proof -
  let ?C = "components (absname cwd root)"
  have root: "absname cwd root = SLASH # slashed ?C"
  proof -
    have "absname cwd (norm_path root) = SLASH # slashed ?C"
      using absname_join_path [OF assms(1,2), of "[]"] by (simp add: join_path_def)
    moreover have "absname cwd (norm_path root) = absname cwd root"
    proof (cases "absolute root")
      case False
      have "cwd \<noteq> []" using assms(1) by (auto simp: absolute_def)
      with False show ?thesis
        by (auto simp: absname_def join2_def components_append simp del: components_word intro!: norm_eq)
    qed (simp add: absname_def)
    ultimately show ?thesis by simp
  qed
  have path: "absname cwd (join_path (root # acc)) = SLASH # slashed (?C @ acc)"
    by (rule absname_join_path [OF assms])
  have first: "acc \<noteq> [] \<Longrightarrow> hd (slashed acc) \<noteq> SLASH \<and> slashed acc \<noteq> []"
    using absolute_slashed [of acc, OF proper_word [OF assms(3)]] slashed_Nil [of acc, OF proper_word [OF assms(3)]]
    by (simp add: absolute_def)
  note canon = canonical_absname [OF assms(1)]
  consider (same) "acc = []" | (slash) "acc \<noteq> []" "?C = []" | (below) "acc \<noteq> []" "?C \<noteq> []" by blast
  then show ?thesis
  proof cases
    case same
    with root path have "absname cwd (join_path (root # acc)) = absname cwd root" by simp
    with same show ?thesis unfolding verify_within_def canon by simp
  next
    case slash
    from slash(2) root have "absname cwd root = [SLASH]" by simp
    moreover from slash(2) path have "absname cwd (join_path (root # acc)) = SLASH # slashed acc" by simp
    moreover obtain c cs where "slashed acc = c # cs" "c \<noteq> SLASH" using first slash(1) by (cases "slashed acc") auto
    ultimately show ?thesis using slash unfolding verify_within_def canon by simp
  next
    case below
    have "slashed (?C @ acc) = slashed ?C @ SLASH # slashed acc" using below by (intro slashed_append)
    with path have "absname cwd (join_path (root # acc)) = (SLASH # slashed ?C) @ SLASH # slashed acc" by simp
    with root have "absname cwd (join_path (root # acc)) = absname cwd root @ SLASH # slashed acc" by simp
    with below show ?thesis unfolding verify_within_def canon by simp
  qed
qed

subsection \<open>A resolution that does not return\<close>

text \<open>
  In the directory \<^verbatim>\<open>r\<close>: \<^verbatim>\<open>l\<close> is a link to \<^verbatim>\<open>d/../l\<close>, and \<^verbatim>\<open>d\<close> a link to the directory \<^verbatim>\<open>e\<close>. The end of
  the text of \<^verbatim>\<open>d\<close> empties the set of links seen while that of \<^verbatim>\<open>l\<close> is still being resolved.
\<close>

definition circle :: "bytes \<Rightarrow> bytes option" where
  "circle = map_of [(bytes_of ''r/l'', bytes_of ''d/../l''), (bytes_of ''r/d'', bytes_of ''e'')]"

abbreviation S_l :: segment where "S_l \<equiv> Seg (bytes_of ''l'')"
abbreviation S_up :: segment where "S_up \<equiv> Seg DOTDOT"

inductive circling :: "segment list \<Rightarrow> bytes list \<Rightarrow> bytes list \<Rightarrow> bool" where
  at_l: "circling (S_l # rest) [] []"
| in_l: "circling (Seg (bytes_of ''d'') # S_up # S_l # rest) [bytes_of ''r/d/../l''] []"
| in_d: "circling (Seg (bytes_of ''e'') # Clear # S_up # S_l # rest) seen []"
| end_d: "circling (Clear # S_up # S_l # rest) seen [bytes_of ''e'']"
| again: "circling (S_up # S_l # rest) [] [bytes_of ''e'']"

lemma bytes_simps [simp]:
  "bytes_of ''l'' = [108]" "bytes_of ''d'' = [100]" "bytes_of ''e'' = [101]" "bytes_of ''r'' = [114]"
  by code_simp+

lemma circle_facts:
  "circle (join2 (join_path [[114]]) [108]) = Some (bytes_of ''d/../l'')" "circle (join2 (join_path [[114]]) [100]) = Some [101]"
  "circle (join2 (join_path [[114]]) [101]) = None"
  "join2 (join_path [[114]]) (bytes_of ''d/../l'') = bytes_of ''r/d/../l''"
  "join2 (join_path [[114]]) [101] \<noteq> bytes_of ''r/d/../l''"
  "split_path (bytes_of ''d/../l'') = [[100], DOTDOT, [108]]" "split_path [101] = [[101]]"
  by code_simp+

lemma witness_facts:
  "join2 (bytes_of ''r'') (bytes_of ''e'') = bytes_of ''r/e''" "join2 (bytes_of ''r/e'') (bytes_of ''x'') = bytes_of ''r/e/x''"
  "trim_slashes (bytes_of ''d/x'') = bytes_of ''d/x''" "bytes_of ''d/x'' \<noteq> []" "dirname (bytes_of ''d/x'') = bytes_of ''d''"
  "last (split_path (bytes_of ''d/x'')) = bytes_of ''x''"
  "bytes_of ''x'' \<noteq> DOT \<and> bytes_of ''x'' \<noteq> DOTDOT \<and> bytes_of ''x'' \<noteq> [SLASH]" "split_path [100] = [[100]]"
  "norm_path [101] = [101]"
  by code_simp+

lemma circling_never:
  assumes "srp rl segs root seen acc = Some r" and "rl = circle" "root = [114]" "circling segs seen acc"
  shows False
  using assms
proof (induction rl segs root seen acc r rule: srp.raw_induct [rotated, consumes 1, case_names step])
  case (step srp rl segs root seen acc r)
  from step.prems(3) show False
    by (cases rule: circling.cases)
      (use step.hyps step.prems(1,2) in \<open>auto simp: Let_def circle_facts absolute_def
        intro!: step.IH [OF _ refl refl] intro: circling.intros [simplified]\<close>)
qed

subsection \<open>The properties\<close>

text \<open>
  C18. A path that the resolver lets through has no link in it: it is the root followed by names, none of
  them \<^verbatim>\<open>.\<close> or \<^verbatim>\<open>..\<close>, and no name along it is a symlink, whatever links and \<^verbatim>\<open>..\<close> the guest's path had; with
  \<^verbatim>\<open>nofollow\<close> only the last name may be one.
\<close>

theorem resolved_paths_have_no_links:
  assumes "root \<noteq> []"
  shows "(resolve_checked read_link present root path must_exist = Some (Inr full) \<longrightarrow>
      (\<exists>acc. full = join_path (root # acc) \<and> list_all proper acc \<and> unlinked read_link root acc))
    \<and> (resolve_last read_link present root path must_exist = Some (Inr full) \<longrightarrow>
      (\<exists>acc. full = join_path (root # acc) \<and> list_all proper acc \<and> unlinked read_link root (butlast acc)))"
  using resolve_checked_safe [OF assms] resolve_last_safe [OF assms] by metis

theorem resolved_paths_have_no_links_witness:
  "\<exists>acc. bytes_of ''r/e/x'' = join_path (bytes_of ''r'' # acc) \<and> list_all proper acc
     \<and> unlinked circle (bytes_of ''r'') (butlast acc)"
proof -
  let ?r = "bytes_of ''r''"
  have e: "proper [101]" "proper [100]" by (simp_all add: proper_def word_def)
  have "srp circle (map Seg (split_path (bytes_of ''d''))) ?r [] [] = Some (Safe (bytes_of ''e''))"
    using srp_link [OF e(2), of circle ?r "[]" "[101]" "[]" "[]"] srp_down [OF e(1), of circle ?r "[]" "[Clear]"]
      circle_facts witness_facts(8,9)
    by (simp add: srp.simps [of circle "[Clear]"] srp.simps [of circle "[]"] join_path_def)
  then have "resolve_checked circle (\<lambda>_. True) ?r (bytes_of ''d'') True = Some (Inr (bytes_of ''r/e''))"
    using witness_facts by (simp add: resolve_checked_def safe_relative_path_def)
  then have "resolve_last circle (\<lambda>_. True) ?r (bytes_of ''d/x'') False = Some (Inr (bytes_of ''r/e/x''))"
    using witness_facts by (simp add: resolve_last_def Let_def)
  with resolved_paths_have_no_links [of ?r circle "\<lambda>_. True" "bytes_of ''d/x''" False "bytes_of ''r/e/x''"]
  show ?thesis by simp
qed

text \<open>
  C39. The check after the open is a comparison of names: it asks the file system but does not use the
  answer, so it lets through every path that was resolved, whatever has become of its components. And
  when the root is \<^verbatim>\<open>/\<close> it refuses every one of them.
\<close>

theorem verify_within_checks_nothing:
  assumes "absolute cwd" and "root \<noteq> []" and "resolve_checked read_link present root path must_exist = Some (Inr full)"
  shows "verify_within found cwd root full =
    (if components (absname cwd root) = [] \<and> full \<noteq> [SLASH] then Some 76 else None)"
proof -
  obtain acc where acc: "full = join_path (root # acc)" "list_all proper acc"
    by (rule resolve_checked_safe [OF assms(2,3)])
  have parts: "absolute full = absolute root" "components full = components root @ acc"
    using join_path_parts [OF assms(2) proper_word [OF acc(2)]] acc(1) by auto
  have "acc = [] \<longleftrightarrow> full = [SLASH]" if "components (absname cwd root) = []"
  proof -
    have cwd: "cwd \<noteq> []" using assms(1) by (auto simp: absolute_def)
    have root: "components root = []"
      using that join2_parts(2) [OF cwd, of root] by (cases "absolute root") (auto simp: absname_def)
    then have "absolute root" using assms(2) components_relative [of root] by (auto simp: absolute_def)
    moreover from this root have "norm_path root = [SLASH]" by (simp add: norm_path_def)
    ultimately show ?thesis using parts(2) root acc(1) by (auto simp: join_path_def)
  qed
  with verify_within_prefix [OF assms(1,2) acc(2), of found] acc(1) show ?thesis by auto
qed

theorem verify_within_checks_nothing_witness:
  "verify_within (\<lambda>_. True) (bytes_of ''/'') (bytes_of ''/'') (bytes_of ''/x'') = Some 76"
proof -
  have w: "absolute (bytes_of ''/'')" "bytes_of ''/'' \<noteq> []" "components (absname (bytes_of ''/'') (bytes_of ''/'')) = []"
    "bytes_of ''/x'' \<noteq> [SLASH]" "join2 (bytes_of ''/'') [120] = bytes_of ''/x''" "split_path [120] = [[120]]"
    "norm_path [120] = [120]" by code_simp+
  have "proper [120]" by (simp add: proper_def word_def)
  then have "srp (\<lambda>_. None) (map Seg (split_path [120])) (bytes_of ''/'') [] [] = Some (Safe [120])"
    using w srp_down [of "[120]" "\<lambda>_. None" "bytes_of ''/''" "[]" "[]"]
    by (simp add: srp.simps [of "\<lambda>_. None" "[]"] join_path_def)
  then have "resolve_checked (\<lambda>_. None) (\<lambda>_. True) (bytes_of ''/'') [120] True = Some (Inr (bytes_of ''/x''))"
    using w by (simp add: resolve_checked_def safe_relative_path_def)
  from verify_within_checks_nothing [OF w(1,2) this, of "\<lambda>_. True"] w show ?thesis by simp
qed

text \<open>
  C38. The resolver does not always return: two links in one directory, \<^verbatim>\<open>l\<close> to \<^verbatim>\<open>d/../l\<close> and \<^verbatim>\<open>d\<close> to a directory
  \<^verbatim>\<open>e\<close>, make it go round for ever, because the end of the text of \<^verbatim>\<open>d\<close> forgets that \<^verbatim>\<open>l\<close> is being resolved.
\<close>

theorem resolver_hangs_on_two_links:
  "resolve_checked circle present (bytes_of ''r'') (bytes_of ''l'') must_exist = None"
proof -
  have "srp circle [S_l] [114] [] [] \<noteq> Some r" for r
    using circling_never [of circle "[S_l]" "[114]" "[]" "[]" r] circling.at_l [of "[]"] by auto
  moreover have "split_path [108] = [[108]]" by code_simp
  ultimately show ?thesis
    by (cases "srp circle [S_l] [114] [] []") (simp_all add: resolve_checked_def safe_relative_path_def)
qed

end
