(* ===== verification/Path_Match.thy ===== *)
theory Path_Match
  imports Path_Agree
begin

text \<open>
  The two resolvers on a tree that stands still: whenever the walk of the NIF finds a file, the resolver
  of \<^verbatim>\<open>wasi_path\<close> returns, lets the path through, and answers a path without links to the same file. The
  set of links seen never stops a resolution that has an end: \<open>steps\<close> counts the links it replaces, and
  a link met again would have to be resolved in fewer of them than itself.
\<close>

subsection \<open>Counting links\<close>

inductive steps :: "'n files \<Rightarrow> nat \<Rightarrow> 'n list \<Rightarrow> bytes list \<Rightarrow> 'n list \<Rightarrow> bool" for T :: "'n files" where
  none: "steps T 0 s [] s"
| dot: "steps T k s cs s' \<Longrightarrow> steps T k s (DOT # cs) s'"
| up: "tl s \<noteq> [] \<Longrightarrow> steps T k (tl s) cs s' \<Longrightarrow> steps T k s (DOTDOT # cs) s'"
| down: "n \<noteq> DOT \<Longrightarrow> n \<noteq> DOTDOT \<Longrightarrow> entry T (hd s) n = Inr z \<Longrightarrow> target T z = None \<Longrightarrow>
    steps T k (z # s) cs s' \<Longrightarrow> steps T k s (n # cs) s'"
| link: "n \<noteq> DOT \<Longrightarrow> n \<noteq> DOTDOT \<Longrightarrow> link_text T (hd s) n = Some t \<Longrightarrow> \<not> absolute t \<Longrightarrow>
    steps T k s (components t @ cs) s' \<Longrightarrow> steps T (Suc k) s (n # cs) s'"

inductive_cases steps_NilE [elim!]: "steps T k s [] s'"
inductive_cases steps_ConsE: "steps T k s (n # cs) s'"

lemma steps_dotE: "steps T k s (DOT # cs) s' \<Longrightarrow> steps T k s cs s'"
  and steps_upE: "steps T k s (DOTDOT # cs) s' \<Longrightarrow> tl s \<noteq> [] \<and> steps T k (tl s) cs s'"
  by (auto elim: steps_ConsE)

lemma steps_downE:
  assumes "steps T k s (n # cs) s'" and "n \<noteq> DOT" "n \<noteq> DOTDOT" "entry T (hd s) n = Inr z" "target T z = None"
  shows "steps T k (z # s) cs s'"
  using assms(1) by (rule steps_ConsE) (use assms in \<open>auto simp: link_text_def\<close>)

lemma steps_linkE:
  assumes "steps T k s (n # cs) s'" and "n \<noteq> DOT" "n \<noteq> DOTDOT" "link_text T (hd s) n = Some t"
  shows "\<exists>j. k = Suc j \<and> \<not> absolute t \<and> steps T j s (components t @ cs) s'"
  using assms(1) by (rule steps_ConsE) (use assms in \<open>auto simp: link_text_def\<close>)

lemma steps_unique: "steps T k s cs s' \<Longrightarrow> steps T j s cs s'' \<Longrightarrow> j = k \<and> s'' = s'"
proof (induction arbitrary: j s'' rule: steps.induct)
  case (none s)
  then show ?case by blast
next
  case (dot k s cs s')
  from dot.IH [OF steps_dotE [OF dot.prems]] show ?case .
next
  case (up s k cs s')
  from steps_upE [OF up.prems] up.IH show ?case by blast
next
  case (down n s z k cs s')
  from down.IH [OF steps_downE [OF down.prems down.hyps(1-4)]] show ?case .
next
  case (link n s t k cs s')
  from steps_linkE [OF link.prems link.hyps(1-3)] link.IH show ?case by auto
qed

lemma steps_split:
  "steps T k s cs s' \<Longrightarrow> cs = as @ bs \<Longrightarrow> \<exists>i j s1. steps T i s as s1 \<and> steps T j s1 bs s' \<and> k = i + j"
proof (induction arbitrary: as rule: steps.induct)
  case (none s)
  then show ?case by (auto intro: steps.none)
next
  case (dot s k cs s')
  show ?case
  proof (cases as)
    case Nil
    with dot show ?thesis by (metis add_0 append_Nil steps.none steps.dot)
  next
    case (Cons a as')
    with dot.prems have "cs = as' @ bs" "a = DOT" by auto
    with dot.IH Cons show ?thesis by (metis steps.dot)
  qed
next
  case (up s k cs s')
  show ?case
  proof (cases as)
    case Nil
    with up show ?thesis by (metis add_0 append_Nil steps.none steps.up)
  next
    case (Cons a as')
    with up.prems have "cs = as' @ bs" "a = DOTDOT" by auto
    with up.IH up.hyps(1) Cons show ?thesis by (metis steps.up)
  qed
next
  case (down n s z k cs s')
  show ?case
  proof (cases as)
    case Nil
    with down show ?thesis by (metis add_0 append_Nil steps.none steps.down)
  next
    case (Cons a as')
    with down.prems have "cs = as' @ bs" "a = n" by auto
    with down.IH down.hyps Cons show ?thesis by (metis steps.down)
  qed
next
  case (link n s t k cs s')
  show ?case
  proof (cases as)
    case Nil
    with link show ?thesis by (metis add_0 append_Nil steps.none steps.link)
  next
    case (Cons a as')
    with link.prems have eq: "cs = as' @ bs" "a = n" by auto
    then have "components t @ cs = (components t @ as') @ bs" by simp
    from link.IH [OF this] obtain i j s1 where
      "steps T i s (components t @ as') s1" "steps T j s1 bs s'" "k = i + j" by blast
    with link.hyps eq Cons show ?thesis by (intro exI [of _ "Suc i"] exI [of _ j] exI [of _ s1]) (auto intro: steps.link)
  qed
qed

lemma steps_join: "steps T i s as s1 \<Longrightarrow> steps T j s1 bs s2 \<Longrightarrow> steps T (i + j) s (as @ bs) s2"
  by (induction rule: steps.induct) (auto intro: steps.intros)

text \<open>A walk that finds a file takes such steps.\<close>

definition short_links :: "'n files \<Rightarrow> bool" where
  "short_links T \<longleftrightarrow> (\<forall>z t. target T z = Some t \<longrightarrow> 0 \<notin> set t \<and> length t < MAX_PATH_LEN)"

lemma whole_text: "short_links T \<Longrightarrow> link_text T x n = Some t \<Longrightarrow> cstr (take (MAX_PATH_LEN - 1) t) = t"
proof -
  assume "short_links T" "link_text T x n = Some t"
  then have "0 \<notin> set t" "length t < MAX_PATH_LEN" by (auto simp: short_links_def link_text_def split: sum.splits)
  then show ?thesis by (simp add: cstr_id take_all)
qed

lemma expands_steps:
  assumes "expands T K fl s cs s'" and "short_links T"
    and no_link: "\<And>z l. target T z \<noteq> None \<Longrightarrow> refusal T z (component_flags K l fl) \<noteq> None"
  shows "\<exists>k. steps T k s cs s'"
  using assms(1)
proof (induction rule: expands.induct)
  case (down n s cs z s')
  have "entry T (hd s) n = Inr z" "refusal T z (component_flags K (cs = []) fl) = None"
    using down.hyps by (auto simp: visit_def split: sum.splits option.splits)
  with no_link [of z] have "target T z = None" by (metis option.distinct(1))
  with down \<open>entry T (hd s) n = Inr z\<close> show ?case by (auto intro: steps.down)
next
  case (link n s t cs s')
  then obtain k where "steps T k s (components t @ cs) s'" using whole_text [OF assms(2) link.hyps(3)] by auto
  with link.hyps(1-4) have "steps T (Suc k) s (n # cs) s'" by (intro steps.link) (auto simp: absolute_def)
  then show ?case ..
qed (auto intro: steps.intros)

subsection \<open>The resolver takes the same steps\<close>

text \<open>
  The files along the names of \<open>acc\<close> (innermost first), none of them a link; a file system that answers
  \<^verbatim>\<open>read_link\<close> from the tree; the names still to take, all and up to the first \<^verbatim>\<open>clear\<close>.
\<close>

fun trail :: "'n files \<Rightarrow> 'n \<Rightarrow> bytes list \<Rightarrow> 'n list \<Rightarrow> bool" where
  "trail T x [] s = (s = [x])"
| "trail T x (n # ns) s =
     (case s of [] \<Rightarrow> False
      | z # s1 \<Rightarrow> s1 \<noteq> [] \<and> entry T (hd s1) n = Inr z \<and> target T z = None \<and> trail T x ns s1)"

definition reads_tree :: "(bytes \<Rightarrow> bytes option) \<Rightarrow> bytes \<Rightarrow> 'n files \<Rightarrow> 'n \<Rightarrow> bool" where
  "reads_tree read_link root T x \<longleftrightarrow>
     (\<forall>acc s n. list_all proper acc \<longrightarrow> trail T x (rev acc) s \<longrightarrow> proper n \<longrightarrow>
        read_link (join2 (join_path (root # acc)) n) = link_text T (hd s) n)"

definition seg_names :: "segment list \<Rightarrow> bytes list" where
  "seg_names segs = concat (map (\<lambda>g. case g of Seg n \<Rightarrow> [n] | Clear \<Rightarrow> []) segs)"

abbreviation now_names :: "segment list \<Rightarrow> bytes list" where
  "now_names segs \<equiv> seg_names (takeWhile (\<lambda>g. g \<noteq> Clear) segs)"

lemma seg_names_simps [simp]:
  "seg_names [] = []" "seg_names (Seg n # segs) = n # seg_names segs" "seg_names (Clear # segs) = seg_names segs"
  "seg_names (as @ bs) = seg_names as @ seg_names bs" "seg_names (map Seg ns) = ns"
  by (simp_all add: seg_names_def) (induction ns, simp_all)

lemma now_names_prefix: "\<exists>later. seg_names segs = now_names segs @ later"
  by (metis seg_names_simps(4) takeWhile_dropWhile_id)

lemma trail_ne: "trail T x ns s \<Longrightarrow> s \<noteq> []"
  by (cases ns) (auto split: list.splits)

lemma trail_length: "trail T x ns s \<Longrightarrow> length s = Suc (length ns)"
  by (induction ns arbitrary: s) (auto split: list.splits)

lemma trail_butlast: "trail T x (rev acc) s \<Longrightarrow> tl s \<noteq> [] \<Longrightarrow> acc \<noteq> [] \<and> trail T x (rev (butlast acc)) (tl s)"
  by (cases acc rule: rev_cases) (auto split: list.splits)

lemma trail_snoc:
  "trail T x (rev acc) s \<Longrightarrow> entry T (hd s) n = Inr z \<Longrightarrow> target T z = None \<Longrightarrow> trail T x (rev (acc @ [n])) (z # s)"
  using trail_ne by fastforce

lemma trail_steps: "trail T x (rev acc) s \<Longrightarrow> list_all proper acc \<Longrightarrow> steps T 0 [x] acc s"
proof (induction acc arbitrary: s rule: rev_induct)
  case (snoc n acc)
  from snoc.prems(1) obtain z s1 where s: "s = z # s1" "s1 \<noteq> []" "entry T (hd s1) n = Inr z" "target T z = None"
      "trail T x (rev acc) s1"
    by (auto split: list.splits)
  have "n \<noteq> DOT" "n \<noteq> DOTDOT" using snoc.prems(2) by (auto simp: proper_def)
  with s have "steps T 0 s1 [n] s" by (auto intro: steps.down steps.none)
  with snoc.IH [OF s(5)] snoc.prems(2) steps_join [of T 0 "[x]" acc s1 0 "[n]" s] show ?case by simp
qed (auto intro: steps.none)

text \<open>
  A link in the set was met in this stretch of names, so it takes at least as many replacements as the
  rest of the stretch.
\<close>

definition pending :: "'n files \<Rightarrow> 'n \<Rightarrow> bytes \<Rightarrow> segment list \<Rightarrow> bytes list \<Rightarrow> 'n list \<Rightarrow> bool" where
  "pending T x root segs seen s \<longleftrightarrow>
     (\<forall>full \<in> set seen. \<exists>ts k s2 j s3. components full = components root @ ts \<and> steps T k [x] ts s2
        \<and> steps T j s (now_names segs) s3 \<and> j \<le> k)"

lemma pendingI [intro]: "pending T x root segs [] s"
  by (simp add: pending_def)

lemma pending_step:
  assumes "pending T x root segs seen s"
    and "\<And>j s3. steps T j s (now_names segs) s3 \<Longrightarrow> \<exists>i s4. steps T i s' (now_names segs') s4 \<and> i \<le> j"
  shows "pending T x root segs' seen s'"
  unfolding pending_def
proof
  fix full assume "full \<in> set seen"
  then obtain ts k s2 j s3 where "components full = components root @ ts" "steps T k [x] ts s2"
      "steps T j s (now_names segs) s3" "j \<le> k"
    using assms(1) unfolding pending_def by blast
  with assms(2) [OF this(3)] show "\<exists>ts k s2 j s3. components full = components root @ ts \<and> steps T k [x] ts s2
        \<and> steps T j s' (now_names segs') s3 \<and> j \<le> k"
    by (meson le_trans)
qed

lemma srp_ends:
  "seg_names segs = [] \<Longrightarrow> list_all proper acc \<Longrightarrow> srp rl segs root seen acc = Some (Safe (slashed acc))"
proof (induction segs arbitrary: seen)
  case Nil
  have "join_path acc = slashed acc" if "acc \<noteq> []"
    using join_path_words [OF that] proper_word [OF Nil.prems(2)] by blast
  then show ?case by (cases "acc = []") (simp_all add: srp.simps)
next
  case (Cons g segs)
  then show ?case by (cases g) (simp_all add: srp.simps [of rl "Clear # segs"])
qed

lemma srp_clears:
  "seg_names segs = n # cs \<Longrightarrow> pending T x root segs seen s \<Longrightarrow>
     \<exists>rest seen'. srp rl segs root seen acc = srp rl (Seg n # rest) root seen' acc \<and> seg_names rest = cs
       \<and> pending T x root (Seg n # rest) seen' s"
proof (induction segs arbitrary: seen)
  case (Cons g segs)
  show ?case
  proof (cases g)
    case (Seg m)
    with Cons.prems show ?thesis by auto
  next
    case Clear
    with Cons.prems have "seg_names segs = n # cs" by simp
    from Cons.IH [OF this pendingI] Clear show ?thesis by (simp add: srp.simps [of rl "Clear # segs"])
  qed
qed simp

lemma link_place:
  assumes "root \<noteq> []" "list_all proper acc" "\<not> absolute t"
  shows "components (join2 (join_path (root # acc)) t) = components root @ acc @ components t"
  using join_path_parts [OF assms(1) proper_word [OF assms(2)]] join2_parts(2) [OF _ assms(3)] by simp

text \<open>A link that is met is not in the set.\<close>

lemma link_unseen:
  assumes root: "root \<noteq> []" and acc: "list_all proper acc" "trail T x (rev acc) s"
    and n: "proper n" "link_text T (hd s) n = Some t" "\<not> absolute t"
    and i: "steps T i s (components t) s4"
    and pend: "pending T x root (Seg n # rest) seen s"
  shows "join2 (join_path (root # acc)) t \<notin> set seen"
proof
  assume "join2 (join_path (root # acc)) t \<in> set seen"
  then obtain ts k s2 j s3 where
    ts: "components (join2 (join_path (root # acc)) t) = components root @ ts" "steps T k [x] ts s2" and
    j: "steps T j s (n # now_names rest) s3" "j \<le> k"
    using pend by (auto simp: pending_def)
  from ts(1) have "ts = acc @ components t" using link_place [OF root acc(1) n(3)] by simp
  with steps_join [OF trail_steps [OF acc(2,1)] i] ts(2) have k: "k = i" using steps_unique by fastforce
  from n(1) have "n \<noteq> DOT" "n \<noteq> DOTDOT" by (simp_all add: proper_def)
  from steps_linkE [OF j(1) this n(2)] obtain j' where
    j': "j = Suc j'" "steps T j' s (components t @ now_names rest) s3" by blast
  from steps_split [OF j'(2) refl] obtain i' j'' s5 where "steps T i' s (components t) s5" "j' = i' + j''" by blast
  with steps_unique [OF i] j'(1) j(2) k show False by fastforce
qed

text \<open>What is pending after a link.\<close>

lemma link_pending:
  assumes root: "root \<noteq> []" and acc: "list_all proper acc" "trail T x (rev acc) s"
    and n: "proper n" "link_text T (hd s) n = Some t" "\<not> absolute t"
    and i: "steps T i s (components t) s4"
    and pend: "pending T x root (Seg n # rest) seen s"
  shows "pending T x root (map Seg (split_path t) @ Clear # rest) (join2 (join_path (root # acc)) t # seen) s"
proof -
  let ?segs = "map Seg (split_path t) @ Clear # rest"
  have "takeWhile (\<lambda>g. g \<noteq> Clear) ?segs = map Seg (split_path t)"
    by (simp add: takeWhile_append)
  then have now: "now_names ?segs = components t" using n(3) by (simp add: split_path_def)
  have old: "pending T x root ?segs seen s"
  proof (rule pending_step [OF pend])
    fix j s3 assume "steps T j s (now_names (Seg n # rest)) s3"
    then have "steps T j s (n # now_names rest) s3" by simp
    moreover from n(1) have "n \<noteq> DOT" "n \<noteq> DOTDOT" by (simp_all add: proper_def)
    ultimately obtain j' where j': "j = Suc j'" "steps T j' s (components t @ now_names rest) s3"
      using steps_linkE n(2) by blast
    from steps_split [OF j'(2) refl] obtain i' j'' s5 where "steps T i' s (components t) s5" "j' = i' + j''" by blast
    with j'(1) show "\<exists>i s4. steps T i s (now_names ?segs) s4 \<and> i \<le> j" unfolding now by fastforce
  qed
  have "steps T i [x] (acc @ components t) s4" using steps_join [OF trail_steps [OF acc(2,1)] i] by simp
  with link_place [OF root acc(1) n(3)] i have
    "\<exists>ts k s2 j s3. components (join2 (join_path (root # acc)) t) = components root @ ts \<and> steps T k [x] ts s2
        \<and> steps T j s (now_names ?segs) s3 \<and> j \<le> k"
    unfolding now by blast
  with old show ?thesis by (simp add: pending_def)
qed

lemma srp_finds:
  assumes "steps T k s cs s'" and reads: "reads_tree rl root T x" and root: "root \<noteq> []"
    and "seg_names segs = cs" "list_all word cs" "list_all proper acc" "trail T x (rev acc) s"
    "pending T x root segs seen s"
  shows "\<exists>acc'. srp rl segs root seen acc = Some (Safe (slashed acc')) \<and> list_all proper acc' \<and> trail T x (rev acc') s'"
  using assms(1,4-)
proof (induction arbitrary: segs seen acc rule: steps.induct)
  case (none s)
  from srp_ends [OF none.prems(1,3)] none.prems show ?case by blast
next
  case (dot k s cs s')
  from srp_clears [OF dot.prems(1,5)] obtain rest seen' where
    r: "srp rl segs root seen acc = srp rl (Seg DOT # rest) root seen' acc" "seg_names rest = cs"
      "pending T x root (Seg DOT # rest) seen' s" by blast
  have "pending T x root rest seen' s" by (rule pending_step [OF r(3)]) (auto dest: steps_dotE)
  from dot.IH [OF r(2) _ dot.prems(3,4) this] dot.prems(2) r(1) srp_dot show ?case by simp
next
  case (up s k cs s')
  from srp_clears [OF up.prems(1,5)] obtain rest seen' where
    r: "srp rl segs root seen acc = srp rl (Seg DOTDOT # rest) root seen' acc" "seg_names rest = cs"
      "pending T x root (Seg DOTDOT # rest) seen' s" by blast
  from trail_butlast [OF up.prems(4) up.hyps(1)] have b: "acc \<noteq> []" "trail T x (rev (butlast acc)) (tl s)" by auto
  have p: "list_all proper (butlast acc)" using up.prems(3) by (auto simp: list_all_iff dest: in_set_butlastD)
  have "pending T x root rest seen' (tl s)" by (rule pending_step [OF r(3)]) (auto dest: steps_upE)
  from up.IH [OF r(2) _ p b(2) this] up.prems(2) r(1) srp_up [OF b(1)] show ?case by simp
next
  case (down n s z k cs s')
  from srp_clears [OF down.prems(1,5)] obtain rest seen' where
    r: "srp rl segs root seen acc = srp rl (Seg n # rest) root seen' acc" "seg_names rest = cs"
      "pending T x root (Seg n # rest) seen' s" by blast
  have n: "proper n" using down.prems(2) down.hyps(1,2) by (simp add: proper_def)
  have "link_text T (hd s) n = None" using down.hyps(3,4) by (simp add: link_text_def)
  with reads down.prems(3,4) n have "rl (join2 (join_path (root # acc)) n) = None" by (simp add: reads_tree_def)
  note eq = srp_down [OF n, where rl = rl and root = root and acc = acc, OF this]
  have "pending T x root rest seen' (z # s)"
    by (rule pending_step [OF r(3)]) (use down.hyps(1-4) in \<open>auto dest: steps_downE\<close>)
  from down.IH [OF r(2) _ _ trail_snoc [OF down.prems(4) down.hyps(3,4)] this] down.prems(2,3) n r(1) eq
  show ?case by simp
next
  case (link n s t k cs s')
  from srp_clears [OF link.prems(1,5)] obtain rest seen' where
    r: "srp rl segs root seen acc = srp rl (Seg n # rest) root seen' acc" "seg_names rest = cs"
      "pending T x root (Seg n # rest) seen' s" by blast
  have n: "proper n" using link.prems(2) link.hyps(1,2) by (simp add: proper_def)
  with reads link.prems(3,4) link.hyps(3) have rl: "rl (join2 (join_path (root # acc)) n) = Some t"
    by (simp add: reads_tree_def)
  from steps_split [OF link.hyps(5) refl] obtain i s4 where i: "steps T i s (components t) s4" by blast
  note place = root link.prems(3,4) n link.hyps(3,4) i r(3)
  have names: "seg_names (map Seg (split_path t) @ Clear # rest) = components t @ cs"
    using r(2) link.hyps(4) by (simp add: split_path_def)
  have words: "list_all word (components t @ cs)"
    using link.prems(2) components_words by (auto simp: list_all_iff)
  from link.IH [OF names words link.prems(3,4) link_pending [OF place]]
  show ?case
    using r(1) srp_link [where rl = rl and root = root and acc = acc and seen = seen' and rest = rest,
        OF n rl link_unseen [OF place]]
    by simp
qed

subsection \<open>The property\<close>

text \<open>
  C17. The two backends agree. On a tree that stands still, and whose links' texts have no NUL and fit the
  walk's buffer, whenever the walk of the NIF opens a file the resolver of the fallback backend
  terminates, finds the path safe, and answers a path that leads to the same file by plain names.
\<close>

theorem backends_agree:
  assumes "tree_laws K V T R F" and "good V w" "node_of V w d = Some x" and "0 \<notin> set path" "fl \<in> F"
    and "walk_open K d path fl m ff w = (Inr f, w')"
    and "short_links T" and "root \<noteq> []" and "reads_tree read_link root T x"
  shows "\<exists>acc z s. safe_relative_path read_link path root = Some (Safe (slashed acc)) \<and> list_all proper acc
    \<and> trail T x (rev acc) (z # s) \<and> node_of V w' f = Some z"
proof -
  obtain z where z: "resolve T K x path fl ff = Inr z" "node_of V w' f = Some z"
    using static_tree.walk_open_agrees [OF static_tree.intro, OF assms(1-6)] by auto
  obtain s where s: "expands T K fl [x] (components path) s" "hd s = z" by (rule resolve_expands [OF z(1)])
  have no_link: "refusal T z (component_flags K l fl) \<noteq> None" if "target T z \<noteq> None" for z l
  proof -
    have "component_flags K l fl \<in> F" using assms(1,5) by (simp add: tree_laws_def law_flags_def)
    with assms(1,2) that show ?thesis unfolding tree_laws_def law_tree_def by blast
  qed
  obtain k where k: "steps T k [x] (components path) s" using expands_steps [OF s(1) assms(7) no_link] by blast
  have rel: "\<not> absolute path"
    using z(1) by (auto simp: resolve_def res_path.simps absolute_def split: if_splits)
  have "list_all word (components path)" using components_words by (simp add: list_all_iff)
  then obtain acc where acc: "srp read_link (map Seg (split_path path)) root [] [] = Some (Safe (slashed acc))"
      "list_all proper acc" "trail T x (rev acc) s"
    using srp_finds [OF k assms(9,8), of "map Seg (split_path path)" "[]" "[]"] rel
    by (auto simp: split_path_def)
  moreover from trail_ne [OF acc(3)] s(2) have "s = z # tl s" by (cases s) auto
  ultimately have "safe_relative_path read_link path root = Some (Safe (slashed acc))" "trail T x (rev acc) (z # tl s)"
    using assms(8) by (simp_all add: safe_relative_path_def)
  with acc(2) z(2) show ?thesis by blast
qed

text \<open>A file system made from a tree reads the tree.\<close>

fun along :: "'n files \<Rightarrow> 'n \<Rightarrow> bytes list \<Rightarrow> 'n option" where
  "along T x [] = Some x"
| "along T x (n # ns) = (case entry T x n of Inl e \<Rightarrow> None | Inr z \<Rightarrow> along T z ns)"

definition tree_link :: "'n files \<Rightarrow> 'n \<Rightarrow> bytes \<Rightarrow> bytes \<Rightarrow> bytes option" where
  "tree_link T x root p =
     (let ns = drop (length (components root)) (components p)
      in case along T x (butlast ns) of None \<Rightarrow> None | Some y \<Rightarrow> link_text T y (last ns))"

lemma along_append: "along T x (as @ bs) = (case along T x as of None \<Rightarrow> None | Some y \<Rightarrow> along T y bs)"
  by (induction as arbitrary: x) (auto split: sum.split)

lemma trail_along: "trail T x (rev acc) s \<Longrightarrow> along T x acc = Some (hd s)"
  by (induction acc arbitrary: s rule: rev_induct) (auto simp: along_append split: list.splits)

lemma tree_link_reads: "root \<noteq> [] \<Longrightarrow> reads_tree (tree_link T x root) root T x"
  unfolding reads_tree_def
proof (intro allI impI)
  fix acc s n assume a: "root \<noteq> []" "list_all proper acc" "trail T x (rev acc) s" "proper n"
  then have "\<not> absolute n" "components n = [n]" using absolute_slashed [of "[n]"] by (auto simp: proper_def)
  with a link_place [of root acc n] trail_along [OF a(3)] show
    "tree_link T x root (join2 (join_path (root # acc)) n) = link_text T (hd s) n"
    by (simp add: tree_link_def Let_def butlast_append)
qed

lemma sample_links: "short_links (mem_files sample_tree)"
  by (auto simp: short_links_def mem_files_def sample_simps MAX_PATH_LEN_def split: option.splits mnode.splits if_splits)

theorem backends_agree_witness:
  "\<exists>acc s. safe_relative_path (tree_link (mem_files sample_tree) 1 (bytes_of ''/srv'')) (bytes_of ''a/u'') (bytes_of ''/srv'')
      = Some (Safe (slashed acc)) \<and> trail (mem_files sample_tree) 1 (rev acc) (3 # s)"
proof -
  have "case walk_open mem_kernel 7 (bytes_of ''a/u'') 0 0 True sample of
      (Inr f, w') \<Rightarrow> map_of (fds w') f = Some 3 | (Inl e, w') \<Rightarrow> False" by code_simp
  then obtain f w' where eq: "walk_open mem_kernel 7 (bytes_of ''a/u'') 0 0 True sample = (Inr f, w')"
      "map_of (fds w') f = Some 3" by (auto split: prod.splits sum.splits)
  have n: "(0 :: byte) \<notin> set (bytes_of ''a/u'')" "bytes_of ''/srv'' \<noteq> []" by code_simp+
  from backends_agree [OF mem_tree_laws sample_still n(1) _ eq(1) sample_links n(2) tree_link_reads [OF n(2)]]
  obtain acc z s where "safe_relative_path (tree_link (mem_files sample_tree) 1 (bytes_of ''/srv'')) (bytes_of ''a/u'')
      (bytes_of ''/srv'') = Some (Safe (slashed acc))" "trail (mem_files sample_tree) 1 (rev acc) (z # s)"
      "node_of (still_view sample_entries sample_tree) w' f = Some z" by auto
  with eq(2) show ?thesis by (auto simp: still_view_def mem_view_def)
qed

end
