(* ===== verification/Nif_Handle.thy ===== *)
theory Nif_Handle
  imports Nif_Walk_Rule
begin

text \<open>
  Handles: the resource \<^verbatim>\<open>file_handle\<close>, its constructor and destructor, its lock, and the state every
  NIF call reads and changes. A resource is named by its index in the table \<open>handles\<close>; an index is
  never used again, as a reference to a resource keeps it alive.

  The C field \<^verbatim>\<open>fd\<close> is -1 when closed and \<^verbatim>\<open>dirp\<close> is NULL when no stream is open: both are
  options. A mutex is NULL before it is created and after it is destroyed. In this theory and the ones
  on single calls a call runs alone, so taking a free lock always succeeds; two threads on one handle
  are the subject of \<open>Nif_Lock\<close>.
\<close>

datatype mutex = No_mutex | Unlocked | Locked

record file_handle =
  h_lock :: mutex
  h_fd :: "fd option"
  h_is_dir :: bool
  h_dirp :: "dirp option"

record 'w nif =
  kern :: 'w
  handles :: "file_handle list"

text \<open>A system call in a NIF state.\<close>

definition sys :: "('w \<Rightarrow> 'r \<times> 'w) \<Rightarrow> 'w nif \<Rightarrow> 'r \<times> 'w nif" where
  "sys f s = (case f (kern s) of (r, w) \<Rightarrow> (r, s\<lparr>kern := w\<rparr>))"

definition sys_do :: "('w \<Rightarrow> 'w) \<Rightarrow> 'w nif \<Rightarrow> 'w nif" where
  "sys_do f s = s\<lparr>kern := f (kern s)\<rparr>"

definition handle :: "'w nif \<Rightarrow> nat \<Rightarrow> file_handle" where
  "handle s i = handles s ! i"

definition upd_handle :: "nat \<Rightarrow> (file_handle \<Rightarrow> file_handle) \<Rightarrow> 'w nif \<Rightarrow> 'w nif" where
  "upd_handle i f s = s\<lparr>handles := (handles s)[i := f (handle s i)]\<rparr>"

text \<open>\<^verbatim>\<open>enif_get_resource\<close>: the term is a live handle of this type.\<close>

fun get_resource :: "'w nif \<Rightarrow> eterm \<Rightarrow> nat option" where
  "get_resource s (TRes i) =
     (if i < length (handles s) \<and> h_lock (handles s ! i) \<noteq> No_mutex then Some i else None)"
| "get_resource s _ = None"

subsection \<open>Construction and destruction\<close>

text \<open>
  What the destructor and \<^verbatim>\<open>close\<close> share: close the stream if there is one, close the descriptor if
  there is one. \<^verbatim>\<open>file_dtor\<close> does both and destroys the lock.
\<close>

definition drop_dirp :: "'w kernel \<Rightarrow> nat \<Rightarrow> 'w nif \<Rightarrow> 'w nif" where
  "drop_dirp K i s =
     (case h_dirp (handle s i) of
        None \<Rightarrow> s
      | Some d \<Rightarrow> upd_handle i (\<lambda>h. h\<lparr>h_dirp := None\<rparr>) (sys_do (sys_closedir K d) s))"

definition drop_fd :: "'w kernel \<Rightarrow> nat \<Rightarrow> 'w nif \<Rightarrow> 'w nif" where
  "drop_fd K i s =
     (case h_fd (handle s i) of
        None \<Rightarrow> s
      | Some f \<Rightarrow> upd_handle i (\<lambda>h. h\<lparr>h_fd := None\<rparr>) (sys_do (sys_close K f) s))"

definition file_dtor :: "'w kernel \<Rightarrow> nat \<Rightarrow> 'w nif \<Rightarrow> 'w nif" where
  "file_dtor K i s = upd_handle i (\<lambda>h. h\<lparr>h_lock := No_mutex\<rparr>) (drop_fd K i (drop_dirp K i s))"

text \<open>
  \<^verbatim>\<open>new_handle\<close>: the resource exists, with \<^verbatim>\<open>lock = NULL\<close> and the descriptor in it, before the mutex
  is created; when that fails the resource is released, which runs its destructor.
\<close>

definition new_handle :: "'w kernel \<Rightarrow> fd \<Rightarrow> bool \<Rightarrow> 'w nif \<Rightarrow> nat option \<times> 'w nif" where
  "new_handle K fd is_dir s =
     (case sys (alloc_resource K) s of
        (False, s1) \<Rightarrow> (None, s1)
      | (True, s1) \<Rightarrow>
          (let i = length (handles s1);
               s2 = s1\<lparr>handles := handles s1 @
                      [\<lparr>h_lock = No_mutex, h_fd = Some fd, h_is_dir = is_dir, h_dirp = None\<rparr>]\<rparr>
           in case sys (mutex_create K) s2 of
                (False, s3) \<Rightarrow> (None, file_dtor K i s3)
              | (True, s3) \<Rightarrow> (Some i, upd_handle i (\<lambda>h. h\<lparr>h_lock := Unlocked\<rparr>) s3)))"

subsection \<open>The lock\<close>

definition mutex_lock :: "nat \<Rightarrow> 'w nif \<Rightarrow> 'w nif" where
  "mutex_lock i = upd_handle i (\<lambda>h. h\<lparr>h_lock := Locked\<rparr>)"

definition mutex_unlock :: "nat \<Rightarrow> 'w nif \<Rightarrow> 'w nif" where
  "mutex_unlock i = upd_handle i (\<lambda>h. h\<lparr>h_lock := Unlocked\<rparr>)"

text \<open>
  \<^verbatim>\<open>handle_lock\<close> answers the descriptor, with the lock held, or EBADF with the lock released. (In C
  it answers 0 and the caller reads \<^verbatim>\<open>h->fd\<close>, which nobody else can change meanwhile.)
\<close>

definition handle_lock :: "nat \<Rightarrow> 'w nif \<Rightarrow> (errno + fd) \<times> 'w nif" where
  "handle_lock i s =
     (let s1 = mutex_lock i s
      in case h_fd (handle s1 i) of
           None \<Rightarrow> (Inl EBADF, mutex_unlock i s1)
         | Some f \<Rightarrow> (Inr f, s1))"

definition dir_dup :: "'w kernel \<Rightarrow> nat \<Rightarrow> 'w nif \<Rightarrow> (errno + fd) \<times> 'w nif" where
  "dir_dup K i s =
     (case handle_lock i s of
        (Inl e, s1) \<Rightarrow> (Inl e, s1)
      | (Inr f, s1) \<Rightarrow>
          (case sys (sys_dup K f) s1 of (r, s2) \<Rightarrow> (r, mutex_unlock i s2)))"

text \<open>
  \<^verbatim>\<open>new_handle\<close>, \<^verbatim>\<open>enif_make_resource\<close> and \<^verbatim>\<open>enif_release_resource\<close>, as every opener ends: the term of
  the new handle, or ENOMEM after closing the descriptor.
\<close>

definition finish_open :: "'w kernel \<Rightarrow> fd \<Rightarrow> bool \<Rightarrow> 'w nif \<Rightarrow> nif_result \<times> 'w nif" where
  "finish_open K fd is_dir s =
     (case new_handle K fd is_dir s of
        (None, s1) \<Rightarrow> (err ENOMEM, sys_do (sys_close K fd) s1)
      | (Some i, s1) \<Rightarrow> (Term (mk_ok (TRes i)), s1))"

subsection \<open>The books of a NIF state\<close>

text \<open>
  What the handles own, and the invariant of the NIF. \<open>books L F D s\<close>: every call so far was in
  order; the descriptors the program holds are those of the handles and \<open>F\<close>, its streams those of
  the handles and \<open>D\<close>; and only the lock of the handle \<open>L\<close> is held. Between two calls nothing is
  held beside the handles: \<open>in_order\<close>.
\<close>

definition opt_mset :: "'a option \<Rightarrow> 'a multiset" where
  "opt_mset x = (case x of None \<Rightarrow> {#} | Some y \<Rightarrow> {#y#})"

definition owned_by :: "(file_handle \<Rightarrow> 'a option) \<Rightarrow> file_handle list \<Rightarrow> 'a multiset" where
  "owned_by f hs = sum_list (map (\<lambda>h. opt_mset (f h)) hs)"

definition handles_ok :: "nat option \<Rightarrow> file_handle list \<Rightarrow> bool" where
  "handles_ok L hs \<longleftrightarrow>
     (\<forall>i < length hs. (h_lock (hs ! i) = Locked \<longleftrightarrow> L = Some i)
        \<and> (h_lock (hs ! i) = No_mutex \<longrightarrow> h_fd (hs ! i) = None)
        \<and> (h_fd (hs ! i) = None \<longrightarrow> h_dirp (hs ! i) = None))"

definition books :: "nat option \<Rightarrow> fd multiset \<Rightarrow> dirp multiset \<Rightarrow> 'w audit nif \<Rightarrow> bool" where
  "books L F D s \<longleftrightarrow> ok (kern s) \<and> handles_ok L (handles s) \<and>
     held (kern s) = owned_by h_fd (handles s) + F \<and> strm (kern s) = owned_by h_dirp (handles s) + D"

definition in_order :: "'w audit nif \<Rightarrow> bool" where
  "in_order s \<longleftrightarrow> books None {#} {#} s"

definition live :: "'w nif \<Rightarrow> nat \<Rightarrow> bool" where
  "live s i \<longleftrightarrow> i < length (handles s) \<and> h_lock (handles s ! i) \<noteq> No_mutex"

lemma opt_mset_simps [simp]: "opt_mset None = {#}" "opt_mset (Some x) = {#x#}"
  by (simp_all add: opt_mset_def)

lemma owned_by_simps [simp]:
  "owned_by f [] = {#}" "owned_by f (h # hs) = opt_mset (f h) + owned_by f hs"
  "owned_by f (hs @ hs') = owned_by f hs + owned_by f hs'"
  by (simp_all add: owned_by_def)

lemma owned_by_update:
  "i < length hs \<Longrightarrow> owned_by f (hs[i := h]) + opt_mset (f (hs ! i)) = owned_by f hs + opt_mset (f h)"
proof (induction hs arbitrary: i)
  case (Cons a hs)
  show ?case
  proof (cases i)
    case 0
    then show ?thesis by simp
  next
    case (Suc j)
    with Cons have "owned_by f (hs[j := h]) + opt_mset (f (hs ! j)) = owned_by f hs + opt_mset (f h)"
      by simp
    with Suc show ?thesis by (simp add: add.assoc)
  qed
qed simp

lemma owned_by_same:
  "i < length hs \<Longrightarrow> f h = f (hs ! i) \<Longrightarrow> owned_by f (hs[i := h]) = owned_by f hs"
  using owned_by_update [of i hs f h] by simp

lemma owned_by_member: "i < length hs \<Longrightarrow> f (hs ! i) = Some x \<Longrightarrow> x \<in># owned_by f hs"
  by (induction hs arbitrary: i) (auto simp: nth_Cons split: nat.splits)

lemma owned_by_none: "(\<And>h. h \<in> set hs \<Longrightarrow> f h = None) \<Longrightarrow> owned_by f hs = {#}"
  by (induction hs) simp_all

lemma get_resource_live: "get_resource s t = Some i \<Longrightarrow> live s i"
  by (cases t) (auto simp: live_def split: if_splits)

lemma sys_eq: "sys f s = (r, s') \<longleftrightarrow> f (kern s) = (r, kern s') \<and> handles s' = handles s"
  by (cases s; cases s') (auto simp: sys_def split: prod.splits)

lemma sys_do_simps [simp]: "kern (sys_do f s) = f (kern s)" "handles (sys_do f s) = handles s"
  by (simp_all add: sys_do_def)

lemma upd_handle_simps [simp]:
  "kern (upd_handle i f s) = kern s" "length (handles (upd_handle i f s)) = length (handles s)"
  "handles (upd_handle i f s) = (handles s)[i := f (handles s ! i)]"
  by (simp_all add: upd_handle_def handle_def)

text \<open>A change of the world that accounts for what it opens and closes.\<close>

lemma books_move:
  assumes "books L F D s" and "handles s' = handles s" and "ok (kern s')"
    and "held (kern s') + F = held (kern s) + F'" and "strm (kern s') + D = strm (kern s) + D'"
  shows "books L F' D' s'"
proof -
  from assms have "held (kern s') + F = (owned_by h_fd (handles s) + F') + F"
    and "strm (kern s') + D = (owned_by h_dirp (handles s) + D') + D"
    by (simp_all add: books_def ac_simps)
  with assms show ?thesis by (simp add: books_def)
qed

lemma books_unlock:
  assumes "books (Some i) F D s" and "live s i"
  shows "books None F D (mutex_unlock i s)"
  using assms unfolding books_def live_def mutex_unlock_def handles_ok_def
  by (auto simp: owned_by_same nth_list_update)

lemma books_lock:
  assumes "books None F D s" and "live s i"
  shows "books (Some i) F D (mutex_lock i s)"
  using assms unfolding books_def live_def mutex_lock_def handles_ok_def
  by (auto simp: owned_by_same nth_list_update)

lemma live_mutex [simp]:
  "live (mutex_lock j s) i \<longleftrightarrow> live s i \<or> i = j \<and> i < length (handles s)"
  "live (mutex_unlock j s) i \<longleftrightarrow> live s i \<or> i = j \<and> i < length (handles s)"
  by (cases "i = j"; auto simp: live_def mutex_lock_def mutex_unlock_def)+

lemma kern_mutex [simp]: "kern (mutex_lock i s) = kern s" "kern (mutex_unlock i s) = kern s"
  by (simp_all add: mutex_lock_def mutex_unlock_def)

lemma length_mutex [simp]:
  "length (handles (mutex_lock i s)) = length (handles s)"
  "length (handles (mutex_unlock i s)) = length (handles s)"
  by (simp_all add: mutex_lock_def mutex_unlock_def)

text \<open>What locking and unlocking a live handle leaves alone.\<close>

lemma live_update:
  assumes "\<And>h. h_lock (f h) = No_mutex \<longleftrightarrow> h_lock h = No_mutex"
  shows "live (upd_handle i f s) = live s"
proof
  show "live (upd_handle i f s) j = live s j" for j
    by (cases "i = j") (simp_all add: live_def assms cong: conj_cong)
qed

lemma live_locked: "live s i \<Longrightarrow> live (mutex_lock i s) = live s"
  and live_unlocked: "live s i \<Longrightarrow> live (mutex_unlock i s) = live s"
  by (auto simp: fun_eq_iff)

lemma live_sys: "sys f s = (r, s') \<Longrightarrow> live s' = live s"
  by (simp add: sys_eq live_def fun_eq_iff)

lemma live_sys_do [simp]: "live (sys_do f s) = live s"
  by (simp add: live_def fun_eq_iff)

lemma handle_fields_mutex [simp]:
  "live s i \<Longrightarrow> h_fd (handle (mutex_lock i s) j) = h_fd (handle s j)"
  "live s i \<Longrightarrow> h_fd (handle (mutex_unlock i s) j) = h_fd (handle s j)"
  "live s i \<Longrightarrow> h_dirp (handle (mutex_lock i s) j) = h_dirp (handle s j)"
  "live s i \<Longrightarrow> h_is_dir (handle (mutex_lock i s) j) = h_is_dir (handle s j)"
  by (cases "i = j"; simp add: handle_def mutex_lock_def mutex_unlock_def live_def)+

text \<open>The two outcomes of taking the lock.\<close>

lemma handle_lockE:
  assumes "handle_lock i s = (r, s1)" and "books None F D s" and "live s i"
  obtains (closed) "r = Inl EBADF" "h_fd (handle s i) = None" "books None F D s1" "kern s1 = kern s"
      "live s1 = live s"
  | (opened) f where "r = Inr f" "h_fd (handle s i) = Some f" "books (Some i) F D s1" "kern s1 = kern s"
      "live s1 = live s" "f \<in># held (kern s1)" "s1 = mutex_lock i s"
proof (cases "h_fd (handle s i)")
  case None
  with assms have "r = Inl EBADF" "s1 = mutex_unlock i (mutex_lock i s)"
    by (auto simp: handle_lock_def)
  with assms books_unlock [OF books_lock [OF assms(2,3)]] show thesis
    by (intro closed None) (auto simp: live_locked live_unlocked)
next
  case (Some f)
  have i: "i < length (handles s)" using assms(3) by (simp add: live_def)
  with Some assms have "r = Inr f" and s1: "s1 = mutex_lock i s" by (auto simp: handle_lock_def)
  moreover have "f \<in># held (kern s1)"
    using assms(2) owned_by_member [of i "handles s" h_fd f] Some i s1
    by (auto simp: books_def handle_def)
  ultimately show thesis
    using assms Some books_lock [OF assms(2,3)] by (intro opened) (auto simp: live_locked)
qed

end
