(* ===== verification/Nif_Path_Ops.thy ===== *)
theory Nif_Path_Ops
  imports Nif_Handle
begin

text \<open>
  The NIF functions that take a path: \<^verbatim>\<open>path_op\<close>, \<^verbatim>\<open>path_op2\<close>, \<^verbatim>\<open>open_at\<close> and \<^verbatim>\<open>open_dir\<close>, with the
  encodings they use: the timestamps of a request, \<^verbatim>\<open>decode_times\<close>, and the map of a stat,
  \<^verbatim>\<open>stat_map\<close>. Each takes the list of its argument terms and answers a term, or badarg.
\<close>

subsection \<open>Timestamps\<close>

text \<open>
  33 bytes: a mask, then seconds and nanoseconds of the two stamps as 64-bit little-endian words. A
  stamp the mask does not name becomes \<^verbatim>\<open>UTIME_OMIT\<close>. \<^verbatim>\<open>time_t\<close> and \<^verbatim>\<open>long\<close> are signed and 64 bits wide.
\<close>

definition decode_stamp :: "'w kernel \<Rightarrow> bytes \<Rightarrow> nat \<Rightarrow> timespec" where
  "decode_stamp K a i =
     (if \<not> bit (a ! 0) i then \<lparr>tv_sec = 0, tv_nsec = UTIME_OMIT K\<rparr>
      else \<lparr>tv_sec = sint (get_le (take 8 (drop (1 + i * 16) a)) :: u64),
            tv_nsec = sint (get_le (take 8 (drop (1 + i * 16 + 8) a)) :: u64)\<rparr>)"

definition decode_times :: "'w kernel \<Rightarrow> bytes \<Rightarrow> (timespec \<times> timespec) option" where
  "decode_times K arg =
     (if length arg \<noteq> 33 then None else Some (decode_stamp K arg 0, decode_stamp K arg 1))"

text \<open>
  The Erlang side of the same format, \<^verbatim>\<open>wasi_fs:times_spec/2\<close>: \<open>None\<close> is the atom \<^verbatim>\<open>omit\<close>, a number is
  nanoseconds. An Erlang integer put into a 64-bit field keeps its low 64 bits.
\<close>

definition ts_bytes :: "nat option \<Rightarrow> bytes" where
  "ts_bytes t = (case t of
       None \<Rightarrow> put_le 8 (0 :: u64) @ put_le 8 (0 :: u64)
     | Some n \<Rightarrow> put_le 8 (of_nat (n div 1000000000) :: u64) @ put_le 8 (of_nat (n mod 1000000000) :: u64))"

definition times_spec :: "nat option \<Rightarrow> nat option \<Rightarrow> bytes" where
  "times_spec atime mtime =
     ((case atime of None \<Rightarrow> 0 | Some _ \<Rightarrow> 1) OR (case mtime of None \<Rightarrow> 0 | Some _ \<Rightarrow> 2))
     # ts_bytes atime @ ts_bytes mtime"

subsection \<open>Stat\<close>

definition stat_nsec :: "timespec \<Rightarrow> u64" where
  "stat_nsec t = word_of_int (tv_sec t) * 1000000000 + word_of_int (tv_nsec t)"

definition u64_term :: "u64 \<Rightarrow> eterm" where
  "u64_term v = TInt (uint v)"

fun type_atom :: "ftype \<Rightarrow> string" where
  "type_atom S_IFDIR = ''directory''"
| "type_atom S_IFREG = ''regular''"
| "type_atom S_IFLNK = ''symlink''"
| "type_atom _ = ''other''"

definition stat_map :: "stat \<Rightarrow> eterm" where
  "stat_map st = TMap
    [(Atom ''size'', TInt (st_size st)),
     (Atom ''type'', Atom (type_atom (st_mode st))),
     (Atom ''inode'', u64_term (st_ino st)),
     (Atom ''dev'', u64_term (st_dev st)),
     (Atom ''nlink'', u64_term (st_nlink st)),
     (Atom ''atim'', u64_term (stat_nsec (st_atim st))),
     (Atom ''mtim'', u64_term (stat_nsec (st_mtim st))),
     (Atom ''ctim'', u64_term (stat_nsec (st_ctim st)))]"

subsection \<open>path_op\<close>

abbreviation OP_MKDIR :: int where "OP_MKDIR \<equiv> 1"
abbreviation OP_UNLINK :: int where "OP_UNLINK \<equiv> 2"
abbreviation OP_RMDIR :: int where "OP_RMDIR \<equiv> 3"
abbreviation OP_SYMLINK :: int where "OP_SYMLINK \<equiv> 4"
abbreviation OP_READLINK :: int where "OP_READLINK \<equiv> 5"
abbreviation OP_STAT :: int where "OP_STAT \<equiv> 6"
abbreviation OP_SETTIMES :: int where "OP_SETTIMES \<equiv> 8"
abbreviation OP_STAT_FOLLOW :: int where "OP_STAT_FOLLOW \<equiv> 9"
abbreviation OP_SETTIMES_FOLLOW :: int where "OP_SETTIMES_FOLLOW \<equiv> 10"
abbreviation OP_RENAME :: int where "OP_RENAME \<equiv> 7"
abbreviation OP_LINK :: int where "OP_LINK \<equiv> 8"

text \<open>What a name says when it is read: a pointer into a frame that is gone says anything.\<close>

fun read_name :: "'w kernel \<Rightarrow> name_ref \<Rightarrow> 'w \<Rightarrow> bytes" where
  "read_name K (Local_buf, n) w = cstr (dead_stack K n w)"
| "read_name K (_, n) w = n"

definition answer :: "('a \<Rightarrow> eterm) \<Rightarrow> (errno + 'a) \<times> 'w \<Rightarrow> (errno + eterm) option \<times> 'w" where
  "answer f p = (case p of (r, w) \<Rightarrow> (Some (case r of Inl e \<Rightarrow> Inl e | Inr x \<Rightarrow> Inr (f x)), w))"

text \<open>
  The switch of \<^verbatim>\<open>path_op_nif\<close>: the one call that acts, and what it answers. \<open>None\<close> is badarg. A
  binary given as a symlink's target becomes a C string, so it ends at its first NUL.
\<close>

definition path_act :: "'w kernel \<Rightarrow> int \<Rightarrow> fd \<Rightarrow> bytes \<Rightarrow> bytes \<Rightarrow> 'w \<Rightarrow> (errno + eterm) option \<times> 'w" where
  "path_act K op pfd name arg w =
     (if op = OP_MKDIR then answer (\<lambda>_. atom_ok) (sys_mkdirat K pfd name 493 w)
      else if op = OP_UNLINK then answer (\<lambda>_. atom_ok) (sys_unlinkat K pfd name False w)
      else if op = OP_RMDIR then answer (\<lambda>_. atom_ok) (sys_unlinkat K pfd name True w)
      else if op = OP_SYMLINK then answer (\<lambda>_. atom_ok) (sys_symlinkat K (cstr arg) pfd name w)
      else if op = OP_READLINK then
        answer (\<lambda>l. mk_ok (TBin l)) (sys_readlinkat K pfd name (MAX_PATH_LEN - 1) w)
      else if op = OP_STAT_FOLLOW \<or> op = OP_STAT then
        answer (\<lambda>st. mk_ok (stat_map st)) (sys_fstatat K pfd name w)
      else if op = OP_SETTIMES_FOLLOW \<or> op = OP_SETTIMES then
        (case decode_times K arg of
           None \<Rightarrow> (None, w)
         | Some ts \<Rightarrow> answer (\<lambda>_. atom_ok) (sys_utimensat K pfd name ts w))
      else (None, w))"

fun reply :: "(errno + eterm) option \<Rightarrow> nif_result" where
  "reply None = Badarg"
| "reply (Some (Inl e)) = err e"
| "reply (Some (Inr t)) = Term t"

definition path_op_nif :: "'w kernel \<Rightarrow> eterm list \<Rightarrow> 'w nif \<Rightarrow> nif_result \<times> 'w nif" where
  "path_op_nif K argv s =
    (case argv of
       [a0, a1, a2, a3] \<Rightarrow>
         (case (get_resource s a0, inspect_binary a1, get_int a2, inspect_binary a3) of
            (Some dir, Some rel, Some op, Some arg) \<Rightarrow>
              if length rel \<ge> MAX_PATH_LEN \<or> length arg \<ge> MAX_PATH_LEN then (err ENAMETOOLONG, s)
              else
                (case dir_dup K dir s of
                   (Inl e, s1) \<Rightarrow> (err e, s1)
                 | (Inr b, s1) \<Rightarrow>
                     (case sys (if op = OP_STAT_FOLLOW \<or> op = OP_SETTIMES_FOLLOW
                                then resolve_final K b (cstr rel) Caller_buf MAX_PATH_LEN
                                else walk_parent K b (cstr rel) Caller_buf MAX_PATH_LEN) s1 of
                        (Inl e, s2) \<Rightarrow> (Term (mk_errno e), sys_do (sys_close K b) s2)
                      | (Inr (pfd, owned, name), s2) \<Rightarrow>
                          (case sys (\<lambda>w. path_act K op pfd (read_name K name w) arg w) s2 of
                             (r, s3) \<Rightarrow>
                               (reply r,
                                sys_do (sys_close K b) (if owned then sys_do (sys_close K pfd) s3 else s3)))))
          | _ \<Rightarrow> (Badarg, s))
     | _ \<Rightarrow> (Badarg, s))"

subsection \<open>path_op2\<close>

definition path_act2 :: "'w kernel \<Rightarrow> int \<Rightarrow> fd \<Rightarrow> bytes \<Rightarrow> fd \<Rightarrow> bytes \<Rightarrow> 'w
    \<Rightarrow> (errno + eterm) option \<times> 'w" where
  "path_act2 K op p1 n1 p2 n2 w =
     (if op = OP_RENAME then answer (\<lambda>_. atom_ok) (sys_renameat K p1 n1 p2 n2 w)
      else if op = OP_LINK then answer (\<lambda>_. atom_ok) (sys_linkat K p1 n1 p2 n2 w)
      else (None, w))"

definition path_op2_nif :: "'w kernel \<Rightarrow> eterm list \<Rightarrow> 'w nif \<Rightarrow> nif_result \<times> 'w nif" where
  "path_op2_nif K argv s =
    (case argv of
       [a0, a1, a2, a3, a4] \<Rightarrow>
         (case (get_resource s a0, inspect_binary a1, get_resource s a2, inspect_binary a3, get_int a4) of
            (Some d1, Some r1, Some d2, Some r2, Some op) \<Rightarrow>
              if length r1 \<ge> MAX_PATH_LEN \<or> length r2 \<ge> MAX_PATH_LEN then (err ENAMETOOLONG, s)
              else
                (case dir_dup K d1 s of
                   (Inl e, s1) \<Rightarrow> (err e, s1)
                 | (Inr b1, s1) \<Rightarrow>
                     (case dir_dup K d2 s1 of
                        (Inl e, s2) \<Rightarrow> (err e, sys_do (sys_close K b1) s2)
                      | (Inr b2, s2) \<Rightarrow>
                          (case sys (walk_parent K b1 (cstr r1) Caller_buf MAX_PATH_LEN) s2 of
                             (Inl e, s3) \<Rightarrow>
                               (Term (mk_errno e), sys_do (sys_close K b2) (sys_do (sys_close K b1) s3))
                           | (Inr (pfd1, own1, n1), s3) \<Rightarrow>
                               (case sys (walk_parent K b2 (cstr r2) Caller_buf MAX_PATH_LEN) s3 of
                                  (Inl e, s4) \<Rightarrow>
                                    (Term (mk_errno e),
                                     sys_do (sys_close K b2) (sys_do (sys_close K b1)
                                       (if own1 then sys_do (sys_close K pfd1) s4 else s4)))
                                | (Inr (pfd2, own2, n2), s4) \<Rightarrow>
                                    (case sys (\<lambda>w. path_act2 K op pfd1 (read_name K n1 w)
                                                    pfd2 (read_name K n2 w) w) s4 of
                                       (r, s5) \<Rightarrow>
                                         (let s6 = (if own1 then sys_do (sys_close K pfd1) s5 else s5);
                                              s7 = (if own2 then sys_do (sys_close K pfd2) s6 else s6)
                                          in (reply r, sys_do (sys_close K b2) (sys_do (sys_close K b1) s7))))))))
          | _ \<Rightarrow> (Badarg, s))
     | _ \<Rightarrow> (Badarg, s))"

subsection \<open>open_at and open_dir\<close>

text \<open>
  The directory an \<^verbatim>\<open>open_at\<close> starts from: a duplicate of a handle's descriptor, or a root opened by
  name. The rest of the arguments is looked at only then.
\<close>

definition open_base :: "'w kernel \<Rightarrow> eterm \<Rightarrow> 'w nif \<Rightarrow> (nif_result + fd) \<times> 'w nif" where
  "open_base K a0 s =
     (case get_resource s a0 of
        Some dir \<Rightarrow>
          (case dir_dup K dir s of (Inl e, s1) \<Rightarrow> (Inl (err e), s1) | (Inr d, s1) \<Rightarrow> (Inr d, s1))
      | None \<Rightarrow>
          (case get_string MAX_PATH_LEN a0 of
             None \<Rightarrow> (Inl Badarg, s)
           | Some root \<Rightarrow>
               (case sys (sys_open K (cstr root) (O_RDONLY OR O_DIRECTORY K)) s of
                  (Inl e, s1) \<Rightarrow> (Inl (err e), s1)
                | (Inr d, s1) \<Rightarrow> (Inr d, s1))))"

definition open_at_nif :: "'w kernel \<Rightarrow> eterm list \<Rightarrow> 'w nif \<Rightarrow> nif_result \<times> 'w nif" where
  "open_at_nif K argv s =
    (case argv of
       [a0, a1, a2, a3] \<Rightarrow>
         (case open_base K a0 s of
            (Inl r, s1) \<Rightarrow> (r, s1)
          | (Inr dirfd, s1) \<Rightarrow>
              (case (inspect_binary a1, get_int a2, get_int a3) of
                 (Some rel, Some flags, Some follow) \<Rightarrow>
                   if length rel \<ge> MAX_PATH_LEN then (err ENAMETOOLONG, sys_do (sys_close K dirfd) s1)
                   else
                     (case sys (walk_open K dirfd (cstr rel) (word_of_int flags) 420 (follow \<noteq> 0)) s1 of
                        (Inl e, s2) \<Rightarrow> (Term (mk_errno e), sys_do (sys_close K dirfd) s2)
                      | (Inr fd, s2) \<Rightarrow>
                          (case sys (sys_fstat K fd) (sys_do (sys_close K dirfd) s2) of
                             (r, s3) \<Rightarrow>
                               finish_open K fd
                                 (case r of Inl _ \<Rightarrow> False | Inr st \<Rightarrow> st_mode st = S_IFDIR) s3))
               | _ \<Rightarrow> (Badarg, sys_do (sys_close K dirfd) s1)))
     | _ \<Rightarrow> (Badarg, s))"

definition open_dir_nif :: "'w kernel \<Rightarrow> eterm list \<Rightarrow> 'w nif \<Rightarrow> nif_result \<times> 'w nif" where
  "open_dir_nif K argv s =
    (case argv of
       [a0] \<Rightarrow>
         (case get_string MAX_PATH_LEN a0 of
            None \<Rightarrow> (Badarg, s)
          | Some root \<Rightarrow>
              (case sys (sys_open K (cstr root) (O_RDONLY OR O_DIRECTORY K)) s of
                 (Inl e, s1) \<Rightarrow> (err e, s1)
               | (Inr fd, s1) \<Rightarrow> finish_open K fd True s1))
     | _ \<Rightarrow> (Badarg, s))"

end
