(* ===== verification/Nif_Io.thy ===== *)
theory Nif_Io
  imports Nif_Path_Ops
begin

text \<open>
  The NIF functions on an open file: reading, writing, times, stat, truncation, sync, close and
  duplication. Each takes the handle's lock, makes its one system call on the handle's descriptor,
  and releases the lock before it builds its answer.
\<close>

definition MAX_IO_CHUNK :: nat where "MAX_IO_CHUNK = 1024 * 1024"

text \<open>
  The lock, one call on the descriptor, the unlock: \<^verbatim>\<open>lerr = handle_lock (h)\<close>, the call, its errno
  saved, \<^verbatim>\<open>enif_mutex_unlock\<close>. \<open>Inl\<close> is the error of either.
\<close>

definition locked_call :: "nat \<Rightarrow> (fd \<Rightarrow> 'w \<Rightarrow> (errno + 'a) \<times> 'w) \<Rightarrow> 'w nif \<Rightarrow> (errno + 'a) \<times> 'w nif" where
  "locked_call i f s =
     (case handle_lock i s of
        (Inl e, s1) \<Rightarrow> (Inl e, s1)
      | (Inr fd, s1) \<Rightarrow> (case sys (f fd) s1 of (r, s2) \<Rightarrow> (r, mutex_unlock i s2)))"

definition pread_nif :: "'w kernel \<Rightarrow> eterm list \<Rightarrow> 'w nif \<Rightarrow> nif_result \<times> 'w nif" where
  "pread_nif K argv s =
    (case argv of
       [a0, a1, a2] \<Rightarrow>
         (case (get_resource s a0, get_int64 a1, get_ulong a2) of
            (Some h, Some off, Some len0) \<Rightarrow>
              (let len = (if nat len0 > MAX_IO_CHUNK then MAX_IO_CHUNK else nat len0)
               in case sys (alloc_binary K len) s of
                    (False, s1) \<Rightarrow> (err ENOMEM, s1)
                  | (True, s1) \<Rightarrow>
                      (case locked_call h (\<lambda>fd. sys_pread K fd len off) s1 of
                         (Inl e, s2) \<Rightarrow> (err e, s2)
                       | (Inr bs, s2) \<Rightarrow>
                           if bs = [] then (Term (Atom ''eof''), s2)
                           else (Term (mk_ok (TBin bs)), s2)))
          | _ \<Rightarrow> (Badarg, s))
     | _ \<Rightarrow> (Badarg, s))"

definition pwrite_nif :: "'w kernel \<Rightarrow> eterm list \<Rightarrow> 'w nif \<Rightarrow> nif_result \<times> 'w nif" where
  "pwrite_nif K argv s =
    (case argv of
       [a0, a1, a2] \<Rightarrow>
         (case (get_resource s a0, get_int64 a1, inspect_binary a2) of
            (Some h, Some off, Some data) \<Rightarrow>
              (let len = (if length data > MAX_IO_CHUNK then MAX_IO_CHUNK else length data)
               in case locked_call h (\<lambda>fd. sys_pwrite K fd (take len data) off) s of
                    (Inl e, s1) \<Rightarrow> (err e, s1)
                  | (Inr n, s1) \<Rightarrow> (Term (mk_ok (TInt (int n))), s1))
          | _ \<Rightarrow> (Badarg, s))
     | _ \<Rightarrow> (Badarg, s))"

definition futimes_nif :: "'w kernel \<Rightarrow> eterm list \<Rightarrow> 'w nif \<Rightarrow> nif_result \<times> 'w nif" where
  "futimes_nif K argv s =
    (case argv of
       [a0, a1] \<Rightarrow>
         (case (get_resource s a0, inspect_binary a1) of
            (Some h, Some arg) \<Rightarrow>
              (case decode_times K arg of
                 None \<Rightarrow> (Badarg, s)
               | Some ts \<Rightarrow>
                   (case locked_call h (\<lambda>fd. sys_futimens K fd ts) s of
                      (Inl e, s1) \<Rightarrow> (err e, s1)
                    | (Inr _, s1) \<Rightarrow> (Term atom_ok, s1)))
          | _ \<Rightarrow> (Badarg, s))
     | _ \<Rightarrow> (Badarg, s))"

definition fstat_nif :: "'w kernel \<Rightarrow> eterm list \<Rightarrow> 'w nif \<Rightarrow> nif_result \<times> 'w nif" where
  "fstat_nif K argv s =
    (case argv of
       [a0] \<Rightarrow>
         (case get_resource s a0 of
            None \<Rightarrow> (Badarg, s)
          | Some h \<Rightarrow>
              (case locked_call h (sys_fstat K) s of
                 (Inl e, s1) \<Rightarrow> (err e, s1)
               | (Inr st, s1) \<Rightarrow> (Term (mk_ok (stat_map st)), s1)))
     | _ \<Rightarrow> (Badarg, s))"

definition ftruncate_nif :: "'w kernel \<Rightarrow> eterm list \<Rightarrow> 'w nif \<Rightarrow> nif_result \<times> 'w nif" where
  "ftruncate_nif K argv s =
    (case argv of
       [a0, a1] \<Rightarrow>
         (case (get_resource s a0, get_int64 a1) of
            (Some h, Some len) \<Rightarrow>
              if len < 0 then (Badarg, s)
              else
                (case locked_call h (\<lambda>fd. sys_ftruncate K fd len) s of
                   (Inl e, s1) \<Rightarrow> (err e, s1)
                 | (Inr _, s1) \<Rightarrow> (Term atom_ok, s1))
          | _ \<Rightarrow> (Badarg, s))
     | _ \<Rightarrow> (Badarg, s))"

text \<open>
  \<^verbatim>\<open>fsync\<close>: an EINVAL or ENOTSUP of the call means there is nothing to flush and is not an error. The
  error of a closed handle is always one.
\<close>

definition fsync_nif :: "'w kernel \<Rightarrow> eterm list \<Rightarrow> 'w nif \<Rightarrow> nif_result \<times> 'w nif" where
  "fsync_nif K argv s =
    (case argv of
       [a0] \<Rightarrow>
         (case get_resource s a0 of
            None \<Rightarrow> (Badarg, s)
          | Some h \<Rightarrow>
              (case handle_lock h s of
                 (Inl e, s1) \<Rightarrow> (err e, s1)
               | (Inr fd, s1) \<Rightarrow>
                   (case sys (sys_fsync K fd) s1 of
                      (r, s2) \<Rightarrow>
                        (case r of
                           Inl e \<Rightarrow> if e \<noteq> EINVAL \<and> e \<noteq> ENOTSUP then err e else Term atom_ok
                         | Inr _ \<Rightarrow> Term atom_ok,
                         mutex_unlock h s2))))
     | _ \<Rightarrow> (Badarg, s))"

definition close_nif :: "'w kernel \<Rightarrow> eterm list \<Rightarrow> 'w nif \<Rightarrow> nif_result \<times> 'w nif" where
  "close_nif K argv s =
    (case argv of
       [a0] \<Rightarrow>
         (case get_resource s a0 of
            None \<Rightarrow> (Badarg, s)
          | Some i \<Rightarrow>
              (Term atom_ok, mutex_unlock i (drop_fd K i (drop_dirp K i (mutex_lock i s)))))
     | _ \<Rightarrow> (Badarg, s))"

definition dup_nif :: "'w kernel \<Rightarrow> eterm list \<Rightarrow> 'w nif \<Rightarrow> nif_result \<times> 'w nif" where
  "dup_nif K argv s =
    (case argv of
       [a0] \<Rightarrow>
         (case get_resource s a0 of
            None \<Rightarrow> (Badarg, s)
          | Some i \<Rightarrow>
              (case handle_lock i s of
                 (Inl e, s1) \<Rightarrow> (err e, s1)
               | (Inr f, s1) \<Rightarrow>
                   (case sys (sys_dup K f) s1 of
                      (r, s2) \<Rightarrow>
                        (let is_dir = h_is_dir (handle s2 i); s3 = mutex_unlock i s2
                         in case r of
                              Inl e \<Rightarrow> (err e, s3)
                            | Inr g \<Rightarrow> finish_open K g is_dir s3))))
     | _ \<Rightarrow> (Badarg, s))"

end
