(* ===== verification/Nif_Readdir.thy ===== *)
theory Nif_Readdir
  imports Nif_Io
begin

text \<open>
  Directory listing: \<^verbatim>\<open>readdir_names\<close>, the whole of a directory as a list, and \<^verbatim>\<open>readdir\<close>, one bounded
  batch of entries in the WASI wire format. An entry is a 24-byte header (cookie of the next entry,
  inode, name length, type, padding) and the name.
\<close>

definition DIRENT_HDR :: nat where "DIRENT_HDR = 24"

subsection \<open>All names\<close>

text \<open>
  The loop of \<^verbatim>\<open>readdir_names\<close> runs until the stream ends, which nothing in the code bounds: the
  result is \<open>None\<close> when it never does. A read error ends it like the end of the directory. Each name
  is put in front, so the list is in reverse order of the stream.
\<close>

partial_function (option) names_loop ::
    "'w kernel \<Rightarrow> dirp \<Rightarrow> eterm list \<Rightarrow> 'w \<Rightarrow> (eterm list \<times> 'w) option" where
  "names_loop K d l w =
     (case sys_readdir K d w of
        (Inr (Some de), w1) \<Rightarrow> names_loop K d (TBin (d_name de) # l) w1
      | (Inr None, w1) \<Rightarrow> Some (l, w1)
      | (Inl _, w1) \<Rightarrow> Some (l, w1))"

declare names_loop.simps [code]

definition readdir_names_nif :: "'w kernel \<Rightarrow> eterm list \<Rightarrow> 'w nif \<Rightarrow> (nif_result \<times> 'w nif) option" where
  "readdir_names_nif K argv s =
    (case argv of
       [a0] \<Rightarrow>
         (case get_resource s a0 of
            None \<Rightarrow> Some (Badarg, s)
          | Some i \<Rightarrow>
              (case handle_lock i s of
                 (Inl e, s1) \<Rightarrow> Some (err e, s1)
               | (Inr f, s1) \<Rightarrow>
                   if \<not> h_is_dir (handle s1 i) then Some (err ENOTDIR, mutex_unlock i s1)
                   else
                     (case sys (sys_dup K f) s1 of
                        (Inl e, s2) \<Rightarrow> Some (err e, mutex_unlock i s2)
                      | (Inr dup_fd, s2) \<Rightarrow>
                          (case sys (sys_fdopendir K dup_fd) (mutex_unlock i s2) of
                             (Inl e, s3) \<Rightarrow> Some (err e, sys_do (sys_close K dup_fd) s3)
                           | (Inr d, s3) \<Rightarrow>
                               (let s4 = sys_do (sys_rewinddir K d) s3
                                in case names_loop K d [] (kern s4) of
                                     None \<Rightarrow> None
                                   | Some (l, w) \<Rightarrow>
                                       Some (Term (mk_ok (TList l)),
                                             sys_do (sys_closedir K d) (s4\<lparr>kern := w\<rparr>)))))))
     | _ \<Rightarrow> Some (Badarg, s))"

subsection \<open>One entry on the wire\<close>

abbreviation WT_UNKNOWN :: byte where "WT_UNKNOWN \<equiv> 0"
abbreviation WT_BLOCK :: byte where "WT_BLOCK \<equiv> 1"
abbreviation WT_CHAR :: byte where "WT_CHAR \<equiv> 2"
abbreviation WT_DIR :: byte where "WT_DIR \<equiv> 3"
abbreviation WT_REG :: byte where "WT_REG \<equiv> 4"
abbreviation WT_SOCK_STREAM :: byte where "WT_SOCK_STREAM \<equiv> 6"
abbreviation WT_SYMLINK :: byte where "WT_SYMLINK \<equiv> 7"

fun wt_of_mode :: "ftype \<Rightarrow> byte" where
  "wt_of_mode S_IFDIR = WT_DIR"
| "wt_of_mode S_IFREG = WT_REG"
| "wt_of_mode S_IFLNK = WT_SYMLINK"
| "wt_of_mode S_IFCHR = WT_CHAR"
| "wt_of_mode S_IFBLK = WT_BLOCK"
| "wt_of_mode S_IFSOCK = WT_SOCK_STREAM"
| "wt_of_mode S_IFother = WT_UNKNOWN"

text \<open>
  The switch on \<^verbatim>\<open>d_type\<close>. A platform without \<^verbatim>\<open>d_type\<close> compiles it out, which is a kernel whose
  entries all have \<open>DT_other\<close>.
\<close>

fun wt_of_dtype :: "dtype \<Rightarrow> byte" where
  "wt_of_dtype DT_DIR = WT_DIR"
| "wt_of_dtype DT_REG = WT_REG"
| "wt_of_dtype DT_LNK = WT_SYMLINK"
| "wt_of_dtype DT_CHR = WT_CHAR"
| "wt_of_dtype DT_BLK = WT_BLOCK"
| "wt_of_dtype DT_SOCK = WT_SOCK_STREAM"
| "wt_of_dtype DT_other = WT_UNKNOWN"

definition put_u64 :: "u64 \<Rightarrow> bytes" where
  "put_u64 v = put_le 8 v"

definition put_u32 :: "32 word \<Rightarrow> bytes" where
  "put_u32 v = put_le 4 v"

definition dirent_header :: "u64 \<Rightarrow> u64 \<Rightarrow> nat \<Rightarrow> byte \<Rightarrow> bytes" where
  "dirent_header d_next ino nlen type =
     put_u64 d_next @ put_u64 ino @ put_u32 (of_nat nlen) @ [type, 0, 0, 0]"

text \<open>
  The type and inode of an entry: from the entry, or from a stat of the name when the entry has no
  type; an inode of 0 falls back to the entry's.
\<close>

definition entry_type :: "'w kernel \<Rightarrow> dirp \<Rightarrow> dirent \<Rightarrow> 'w \<Rightarrow> (byte \<times> u64) \<times> 'w" where
  "entry_type K d de w =
     (let t = wt_of_dtype (d_type de)
      in case (if t = WT_UNKNOWN
               then (case sys_dirstat K d (d_name de) w of
                       (Inl _, w1) \<Rightarrow> ((t, 0), w1)
                     | (Inr st, w1) \<Rightarrow> ((wt_of_mode (st_mode st), st_ino st), w1))
               else ((t, 0), w)) of
           ((type, ino), w2) \<Rightarrow> ((type, if ino = 0 then d_ino de else ino), w2))"

text \<open>
  What the truncated last entry adds: as much of its header as there is room for, and, only when the
  whole header fitted, as much of the name.
\<close>

definition partial_entry :: "nat \<Rightarrow> bytes \<Rightarrow> bytes \<Rightarrow> bytes" where
  "partial_entry room hdr name =
     (let take_n = (if room < DIRENT_HDR then room else DIRENT_HDR)
      in take take_n hdr @
         (if take_n = DIRENT_HDR
          then (let nroom = room - DIRENT_HDR
                in take (if nroom < length name then nroom else length name) name)
          else []))"

text \<open>
  The loop of \<^verbatim>\<open>readdir\<close>. \<open>out\<close> is what has been written, so \<^verbatim>\<open>used\<close> is its length. The answer is
  the bytes and the error of a failed read.
\<close>

function readdir_loop :: "'w kernel \<Rightarrow> dirp \<Rightarrow> nat \<Rightarrow> bytes \<Rightarrow> 'w \<Rightarrow> (bytes \<times> errno option) \<times> 'w" where
  "readdir_loop K d buflen out w =
     (case sys_readdir K d w of
        (Inl e, w1) \<Rightarrow> ((out, Some e), w1)
      | (Inr None, w1) \<Rightarrow> ((out, None), w1)
      | (Inr (Some de), w1) \<Rightarrow>
          (let nlen = length (d_name de);
               esz = DIRENT_HDR + nlen
           in case sys_telldir K d w1 of
                (d_next, w2) \<Rightarrow>
                  (case entry_type K d de w2 of
                     ((type, ino), w3) \<Rightarrow>
                       (let hdr = dirent_header d_next ino nlen type
                        in if length out + esz > buflen
                           then ((if length out < buflen
                                  then out @ partial_entry (buflen - length out) hdr (d_name de)
                                  else out, None), w3)
                           else readdir_loop K d buflen (out @ hdr @ d_name de) w3))))"
  by pat_completeness auto
termination
  by (relation "measure (\<lambda>(K, d, buflen, out, w). buflen - length out)")
    (auto simp: DIRENT_HDR_def dirent_header_def put_u64_def put_u32_def)

declare readdir_loop.simps [simp del]

text \<open>Once the stream is open: go to the cookie, fill a buffer, answer it.\<close>

definition readdir_batch :: "'w kernel \<Rightarrow> dirp \<Rightarrow> u64 \<Rightarrow> nat \<Rightarrow> 'w nif \<Rightarrow> nif_result \<times> 'w nif" where
  "readdir_batch K d cookie buflen s =
     (let s1 = sys_do (if cookie = 0 then sys_rewinddir K d else sys_seekdir K d cookie) s
      in case sys (alloc K (if buflen = 0 then 1 else buflen)) s1 of
           (False, s2) \<Rightarrow> (err ENOMEM, s2)
         | (True, s2) \<Rightarrow>
             (case sys (readdir_loop K d buflen []) s2 of
                ((out, e), s3) \<Rightarrow>
                  (case e of
                     Some e' \<Rightarrow> if out = [] then (err e', s3) else (Term (mk_ok (TBin out)), s3)
                   | None \<Rightarrow> (Term (mk_ok (TBin out)), s3))))"

text \<open>The stream of a handle, opened at its first use over a duplicate of the descriptor.\<close>

definition open_stream :: "'w kernel \<Rightarrow> nat \<Rightarrow> fd \<Rightarrow> 'w nif \<Rightarrow> (errno + dirp) \<times> 'w nif" where
  "open_stream K i f s =
     (case h_dirp (handle s i) of
        Some d \<Rightarrow> (Inr d, s)
      | None \<Rightarrow>
          (case sys (sys_dup K f) s of
             (Inl e, s1) \<Rightarrow> (Inl e, s1)
           | (Inr dup_fd, s1) \<Rightarrow>
               (case sys (sys_fdopendir K dup_fd) s1 of
                  (Inl e, s2) \<Rightarrow> (Inl e, sys_do (sys_close K dup_fd) s2)
                | (Inr d, s2) \<Rightarrow> (Inr d, upd_handle i (\<lambda>h. h\<lparr>h_dirp := Some d\<rparr>) s2))))"

definition readdir_nif :: "'w kernel \<Rightarrow> eterm list \<Rightarrow> 'w nif \<Rightarrow> nif_result \<times> 'w nif" where
  "readdir_nif K argv s =
    (case argv of
       [a0, a1, a2] \<Rightarrow>
         (case (get_resource s a0, get_uint64 a1, get_uint a2) of
            (Some i, Some cookie, Some buflen) \<Rightarrow>
              (case handle_lock i s of
                 (Inl e, s1) \<Rightarrow> (err e, s1)
               | (Inr f, s1) \<Rightarrow>
                   if \<not> h_is_dir (handle s1 i) then (err ENOTDIR, mutex_unlock i s1)
                   else
                     (case open_stream K i f s1 of
                        (Inl e, s2) \<Rightarrow> (err e, mutex_unlock i s2)
                      | (Inr d, s2) \<Rightarrow>
                          (case readdir_batch K d (word_of_int cookie) (nat buflen) s2 of
                             (r, s3) \<Rightarrow> (r, mutex_unlock i s3))))
          | _ \<Rightarrow> (Badarg, s))
     | _ \<Rightarrow> (Badarg, s))"

end
