(* ===== verification/Nif_Books.thy ===== *)
theory Nif_Books
  imports Nif_Readdir
begin

text \<open>
  The books of the NIF functions. A state is \<open>in_order\<close> between two calls when everything the
  program holds is in a handle and no lock is taken; each function of \<^verbatim>\<open>wasi_file_nif.c\<close> is shown to
  lead from such a state to such a state, or the exception is named.

  \<open>quiet\<close> is a call that neither gives nor takes a descriptor. The locale \<open>io_call\<close> is the contract of
  the operations that make one quiet call under a handle's lock; \<open>nif_ops\<close> extends \<open>walker\<close> by what
  the path operations ask of the kernel and of the policy.
\<close>

subsection \<open>Quiet calls\<close>

definition quiet :: "('w audit \<Rightarrow> 'r \<times> 'w audit) \<Rightarrow> 'w audit \<Rightarrow> bool" where
  "quiet f a \<longleftrightarrow> ok (snd (f a)) \<and> held (snd (f a)) = held a \<and> strm (snd (f a)) = strm a"

lemma quiet_fd [simp]:
  "quiet (sys_fstat (audited pol K) f) a \<longleftrightarrow> ok a \<and> f \<in># held a \<and> pol (world a) (CFd f)"
  "quiet (sys_futimens (audited pol K) f ts) a \<longleftrightarrow> ok a \<and> f \<in># held a \<and> pol (world a) (CFd f)"
  "quiet (sys_pread (audited pol K) f n off) a \<longleftrightarrow> ok a \<and> f \<in># held a \<and> pol (world a) (CFd f)"
  "quiet (sys_pwrite (audited pol K) f bs off) a \<longleftrightarrow> ok a \<and> f \<in># held a \<and> pol (world a) (CFd f)"
  "quiet (sys_ftruncate (audited pol K) f len) a \<longleftrightarrow> ok a \<and> f \<in># held a \<and> pol (world a) (CFd f)"
  "quiet (sys_fsync (audited pol K) f) a \<longleftrightarrow> ok a \<and> f \<in># held a \<and> pol (world a) (CFd f)"
  by (simp_all add: quiet_def audited_def on_base_eq)

lemma quiet_named [simp]:
  "quiet (sys_mkdirat (audited pol K) d n m) a \<longleftrightarrow> ok a \<and> d \<in># held a \<and> pol (world a) (CMkdirat d n)"
  "quiet (sys_unlinkat (audited pol K) d n r) a \<longleftrightarrow> ok a \<and> d \<in># held a \<and> pol (world a) (CUnlinkat d n)"
  "quiet (sys_symlinkat (audited pol K) t d n) a \<longleftrightarrow> ok a \<and> d \<in># held a \<and> pol (world a) (CSymlinkat d n)"
  "quiet (sys_readlinkat (audited pol K) d n k) a \<longleftrightarrow> ok a \<and> d \<in># held a \<and> pol (world a) (CReadlinkat d n)"
  "quiet (sys_fstatat (audited pol K) d n) a \<longleftrightarrow> ok a \<and> d \<in># held a \<and> pol (world a) (CFstatat d n)"
  "quiet (sys_utimensat (audited pol K) d n ts) a \<longleftrightarrow> ok a \<and> d \<in># held a \<and> pol (world a) (CUtimensat d n)"
  "quiet (sys_renameat (audited pol K) d n d' n') a \<longleftrightarrow>
     ok a \<and> d \<in># held a \<and> d' \<in># held a \<and> pol (world a) (CRenameat d n d' n')"
  "quiet (sys_linkat (audited pol K) d n d' n') a \<longleftrightarrow>
     ok a \<and> d \<in># held a \<and> d' \<in># held a \<and> pol (world a) (CLinkat d n d' n')"
  by (auto simp: quiet_def audited_def on_base_eq)

lemma quiet_dir [simp]:
  "quiet (sys_readdir (audited pol K) s) a \<longleftrightarrow> ok a \<and> s \<in># strm a \<and> pol (world a) (CDir s)"
  "quiet (sys_telldir (audited pol K) s) a \<longleftrightarrow> ok a \<and> s \<in># strm a \<and> pol (world a) (CDir s)"
  "quiet (sys_dirstat (audited pol K) s n) a \<longleftrightarrow> ok a \<and> s \<in># strm a \<and> pol (world a) (CDir s)"
  by (simp_all add: quiet_def audited_def on_base_eq)

lemma quiet_alloc [simp]:
  "quiet (alloc_resource (audited pol K)) a \<longleftrightarrow> ok a" "quiet (mutex_create (audited pol K)) a \<longleftrightarrow> ok a"
  "quiet (alloc_binary (audited pol K) n) a \<longleftrightarrow> ok a" "quiet (alloc (audited pol K) n) a \<longleftrightarrow> ok a"
  by (simp_all add: quiet_def audited_def on_base_eq)

lemma quiet_answer [simp]: "quiet (\<lambda>a. answer g (f a)) a \<longleftrightarrow> quiet f a"
  by (simp add: quiet_def answer_def split: prod.splits)

lemma audited_rewind [simp]:
  "held (sys_rewinddir (audited pol K) s a) = held a" "strm (sys_rewinddir (audited pol K) s a) = strm a"
  "ok (sys_rewinddir (audited pol K) s a) \<longleftrightarrow> ok a \<and> s \<in># strm a \<and> pol (world a) (CDir s)"
  "held (sys_seekdir (audited pol K) s c a) = held a" "strm (sys_seekdir (audited pol K) s c a) = strm a"
  "ok (sys_seekdir (audited pol K) s c a) \<longleftrightarrow> ok a \<and> s \<in># strm a \<and> pol (world a) (CDir s)"
  by (simp_all add: audited_def)

lemma audited_closedir [simp]:
  "held (sys_closedir (audited pol K) s a) = held a"
  "strm (sys_closedir (audited pol K) s a) = strm a - {#s#}"
  "ok (sys_closedir (audited pol K) s a) \<longleftrightarrow> ok a \<and> s \<in># strm a \<and> pol (world a) (CClosedir s)"
  by (simp_all add: audited_def)

lemma audited_dupE:
  assumes "sys_dup (audited pol K) f a = (r, a')"
  obtains (fail) e where "r = Inl e" "held a' = held a" "strm a' = strm a"
      "sys_dup K f (world a) = (Inl e, world a')"
      "ok a' \<longleftrightarrow> ok a \<and> f \<in># held a \<and> pol (world a) (CDup f)"
  | (opened) g where "r = Inr g" "held a' = add_mset g (held a)" "strm a' = strm a"
      "sys_dup K f (world a) = (Inr g, world a')"
      "ok a' \<longleftrightarrow> ok a \<and> f \<in># held a \<and> pol (world a) (CDup f)"
proof -
  obtain r0 w0 where "sys_dup K f (world a) = (r0, w0)" by (cases "sys_dup K f (world a)")
  with assms show thesis by (cases r0) (auto simp: audited_def on_base_eq intro: that)
qed

lemma audited_openE:
  assumes "sys_open (audited pol K) p fl a = (r, a')"
  obtains (fail) e where "r = Inl e" "held a' = held a" "strm a' = strm a"
      "ok a' \<longleftrightarrow> ok a \<and> pol (world a) (COpen p fl)"
  | (opened) g where "r = Inr g" "held a' = add_mset g (held a)" "strm a' = strm a"
      "sys_open K p fl (world a) = (Inr g, world a')"
      "ok a' \<longleftrightarrow> ok a \<and> pol (world a) (COpen p fl)"
proof -
  obtain r0 w0 where "sys_open K p fl (world a) = (r0, w0)" by (cases "sys_open K p fl (world a)")
  with assms show thesis by (cases r0) (auto simp: audited_def on_base_eq intro: that)
qed

lemma audited_fdopendirE:
  assumes "sys_fdopendir (audited pol K) f a = (r, a')"
  obtains (fail) e where "r = Inl e" "held a' = held a" "strm a' = strm a"
      "ok a' \<longleftrightarrow> ok a \<and> f \<in># held a \<and> pol (world a) (CFdopendir f)"
  | (opened) d where "r = Inr d" "held a' = held a - {#f#}" "strm a' = add_mset d (strm a)"
      "ok a' \<longleftrightarrow> ok a \<and> f \<in># held a \<and> pol (world a) (CFdopendir f)"
proof -
  obtain r0 w0 where "sys_fdopendir K f (world a) = (r0, w0)" by (cases "sys_fdopendir K f (world a)")
  with assms show thesis by (cases r0) (auto simp: audited_def on_base_eq intro: that)
qed

subsection \<open>The books through one call\<close>

lemma books_ok: "books L F D s \<Longrightarrow> ok (kern s)"
  by (simp add: books_def)

lemma books_held: "books L F D s \<Longrightarrow> f \<in># F \<Longrightarrow> f \<in># held (kern s)"
  by (simp add: books_def)

lemma books_strm: "books L F D s \<Longrightarrow> d \<in># D \<Longrightarrow> d \<in># strm (kern s)"
  by (simp add: books_def)

lemma books_dirp: "books L F D s \<Longrightarrow> i < length (handles s) \<Longrightarrow> h_dirp (handle s i) = Some d \<Longrightarrow>
  d \<in># strm (kern s)"
  by (auto simp: books_def handle_def dest: owned_by_member)

lemma books_fd: "books L F D s \<Longrightarrow> i < length (handles s) \<Longrightarrow> h_fd (handle s i) = Some f \<Longrightarrow>
  f \<in># held (kern s)"
  by (auto simp: books_def handle_def dest: owned_by_member)

lemma books_quiet:
  assumes "books L F D s" and "sys f s = (r, s')" and "quiet f (kern s)"
  shows "books L F D s'" and "handles s' = handles s"
  using assms by (auto simp: sys_eq quiet_def intro: books_move)

text \<open>A policy that restricts only what is named.\<close>

locale owner =
  fixes K :: "'w kernel" and pol :: "'w policy"
  assumes free: "pol w (CClose f)" "pol w (CDup f)" "pol w (CFd f)" "pol w (CFdopendir f)"
      "pol w (CClosedir d)" "pol w (CDir d)"
begin

abbreviation "A \<equiv> audited pol K"

lemma close_books: "books L (add_mset f F) D s \<Longrightarrow> books L F D (sys_do (sys_close A f) s)"
  by (rule books_move) (auto simp: free books_ok dest: books_held [where f = f] simp: multiset_eq_iff)

lemma dup_books:
  assumes "books L F D s" and "f \<in># held (kern s)" and "sys (sys_dup A f) s = (r, s')"
  shows "handles s' = handles s \<and> books L (case r of Inl _ \<Rightarrow> F | Inr g \<Rightarrow> add_mset g F) D s'"
proof -
  from assms(3) have "sys_dup A f (kern s) = (r, kern s')" and h: "handles s' = handles s"
    by (simp_all add: sys_eq)
  from this(1) show ?thesis
    by (cases rule: audited_dupE)
      (use assms(1,2) h in \<open>auto simp: free books_ok intro: books_move\<close>)
qed

lemma drop_dirp_books:
  assumes "books L F D s" and "i < length (handles s)"
  shows "books L F D (drop_dirp A i s)"
proof (cases "h_dirp (handle s i)")
  case (Some d)
  let ?h = "(handle s i)\<lparr>h_dirp := None\<rparr>"
  have "owned_by h_dirp (handles s) = add_mset d (owned_by h_dirp ((handles s)[i := ?h]))"
    using owned_by_update [OF assms(2), of h_dirp ?h] Some by (simp add: handle_def)
  moreover have "owned_by h_fd ((handles s)[i := ?h]) = owned_by h_fd (handles s)"
    using assms(2) by (simp add: owned_by_same handle_def)
  moreover have "handles_ok L ((handles s)[i := ?h])"
    using assms by (auto simp: books_def handles_ok_def nth_list_update handle_def)
  ultimately show ?thesis
    using assms Some books_dirp [OF assms Some]
    by (simp add: drop_dirp_def books_def free) (simp add: handle_def)
qed (simp add: drop_dirp_def assms)

lemma drop_fd_books:
  assumes "books L F D s" and "i < length (handles s)" and "h_dirp (handle s i) = None"
  shows "books L F D (drop_fd A i s)"
proof (cases "h_fd (handle s i)")
  case (Some f)
  let ?h = "(handle s i)\<lparr>h_fd := None\<rparr>"
  have "owned_by h_fd (handles s) = add_mset f (owned_by h_fd ((handles s)[i := ?h]))"
    using owned_by_update [OF assms(2), of h_fd ?h] Some by (simp add: handle_def)
  moreover have "owned_by h_dirp ((handles s)[i := ?h]) = owned_by h_dirp (handles s)"
    using assms(2) by (simp add: owned_by_same handle_def)
  moreover have "handles_ok L ((handles s)[i := ?h])"
    using assms by (auto simp: books_def handles_ok_def nth_list_update handle_def)
  ultimately show ?thesis
    using assms Some books_fd [OF assms(1,2) Some]
    by (simp add: drop_fd_def books_def free) (simp add: handle_def)
qed (simp add: drop_fd_def assms)

text \<open>The destructor and \<^verbatim>\<open>close\<close>.\<close>

lemma drop_shape [simp]:
  "length (handles (drop_dirp A i s)) = length (handles s)" "length (handles (drop_fd A i s)) = length (handles s)"
  "i < length (handles s) \<Longrightarrow> h_dirp (handle (drop_dirp A i s) i) = None"
  "i < length (handles s) \<Longrightarrow> h_fd (handle (drop_fd A i s) i) = None"
  "h_dirp (handle (drop_fd A i s) i) = h_dirp (handle s i) \<or> \<not> i < length (handles s)"
  "live (drop_dirp A i s) = live s" "live (drop_fd A i s) = live s"
  by (auto simp: drop_dirp_def drop_fd_def live_update split: option.splits)
    (auto simp: handle_def)

lemma drop_both_books:
  assumes "books L F D s" and "i < length (handles s)"
  shows "books L F D (drop_fd A i (drop_dirp A i s))"
  using assms by (intro drop_fd_books drop_dirp_books) auto

lemma drop_both_empty:
  assumes "i < length (handles s)"
  shows "h_fd (handle (drop_fd A i (drop_dirp A i s)) i) = None"
    and "h_dirp (handle (drop_fd A i (drop_dirp A i s)) i) = None"
  using assms drop_shape(5) [of i "drop_dirp A i s"] by simp_all

lemma file_dtor_books:
  assumes "books None F D s" and "i < length (handles s)"
  shows "books None F D (file_dtor A i s)"
proof -
  let ?s = "drop_fd A i (drop_dirp A i s)"
  have "books None F D ?s" and i: "i < length (handles ?s)"
    and "h_fd (handle ?s i) = None" "h_dirp (handle ?s i) = None"
    using drop_both_books [OF assms] drop_both_empty [OF assms(2)] assms(2) by auto
  then show ?thesis
    by (auto simp: file_dtor_def books_def owned_by_same [OF i] handle_def handles_ok_def nth_list_update)
qed

lemma close_nif_books:
  assumes "books None F D s" and "close_nif A argv s = (r, s')"
  shows "books None F D s'"
proof (cases "\<exists>a i. argv = [a] \<and> get_resource s a = Some i")
  case True
  then obtain a i where argv: "argv = [a]" "get_resource s a = Some i" by blast
  note i = get_resource_live [OF argv(2)]
  have "books (Some i) F D (drop_fd A i (drop_dirp A i (mutex_lock i s)))"
    using books_lock [OF assms(1) i] i by (intro drop_both_books) (auto simp: live_def)
  moreover have "live (drop_fd A i (drop_dirp A i (mutex_lock i s))) i" using i by (simp add: live_locked)
  ultimately show ?thesis using assms(2) argv by (auto simp: close_nif_def intro: books_unlock)
qed (use assms in \<open>auto simp: close_nif_def split: list.splits option.splits\<close>)

text \<open>A duplicate of a directory descriptor; a new handle.\<close>

lemma dir_dup_books:
  assumes "dir_dup A i s = (r, s')" and "books None F D s" and "live s i"
  shows "books None (case r of Inl _ \<Rightarrow> F | Inr g \<Rightarrow> add_mset g F) D s' \<and> live s' = live s"
proof -
  obtain r1 s1 where hl: "handle_lock i s = (r1, s1)" by (cases "handle_lock i s")
  from hl assms(2,3) show ?thesis
  proof (cases rule: handle_lockE)
    case closed
    with hl assms(1) show ?thesis by (auto simp: dir_dup_def)
  next
    case (opened f)
    obtain s2 where s2: "sys (sys_dup A f) s1 = (r, s2)" "s' = mutex_unlock i s2"
      using assms(1) hl opened(1) by (auto simp: dir_dup_def split: prod.splits)
    from dup_books [OF opened(3,6) s2(1)] live_sys [OF s2(1)] opened(5) s2(2) assms(3) show ?thesis
      by (auto simp: live_unlocked intro!: books_unlock split: sum.splits)
  qed
qed

lemma new_handle_books:
  assumes "new_handle A f is_dir s = (r, s')" and "books None (add_mset f F) D s"
    and mutex: "\<And>w. fst (mutex_create K w)"
  shows "case r of None \<Rightarrow> books None (add_mset f F) D s' | Some i \<Rightarrow> books None F D s' \<and> live s' i"
proof -
  obtain q s1 where al: "sys (alloc_resource A) s = (q, s1)" by (cases "sys (alloc_resource A) s")
  note b1 = books_quiet [OF assms(2) al] books_ok [OF assms(2)]
  show ?thesis
  proof (cases q)
    case False
    with assms(1) al b1 show ?thesis by (auto simp: new_handle_def)
  next
    case True
    let ?h = "\<lparr>h_lock = No_mutex, h_fd = Some f, h_is_dir = is_dir, h_dirp = None\<rparr>"
    let ?i = "length (handles s1)"
    define s2 where "s2 = s1\<lparr>handles := handles s1 @ [?h]\<rparr>"
    obtain q' s3 where mc: "sys (mutex_create A) s2 = (q', s3)" by (cases "sys (mutex_create A) s2")
    then have m: "mutex_create A (kern s2) = (q', kern s3)" and h3: "handles s3 = handles s2"
      by (simp_all add: sys_eq)
    have ok1: "ok (kern s1)" using b1 by (auto simp: books_ok)
    then have k3: "held (kern s3) = held (kern s1)" "strm (kern s3) = strm (kern s1)" "ok (kern s3)"
      using quiet_alloc(2) [of pol K "kern s2"] m by (auto simp: quiet_def s2_def)
    have q': "q'"
      using arg_cong [OF m, of fst] mutex [of "world (kern s2)"] by (simp add: audited_def on_base_eq)
    from assms(1) al True mc q' have r: "r = Some ?i" "s' = upd_handle ?i (\<lambda>h. h\<lparr>h_lock := Unlocked\<rparr>) s3"
      by (auto simp: new_handle_def s2_def [symmetric] Let_def)
    have hs: "handles s' = handles s1 @ [?h\<lparr>h_lock := Unlocked\<rparr>]" "kern s' = kern s3"
      using h3 by (simp_all add: r s2_def)
    have "books None (add_mset f F) D s1" using b1 by simp
    then have "books None F D s'"
      by (auto simp: books_def hs k3 handles_ok_def nth_append less_Suc_eq)
    moreover have "live s' ?i" by (simp add: live_def hs)
    ultimately show ?thesis by (simp add: r)
  qed
qed

lemma finish_open_books:
  assumes "finish_open A f is_dir s = (r, s')" and "books None (add_mset f F) D s"
    and "\<And>w. fst (mutex_create K w)"
  shows "books None F D s'"
proof -
  obtain q s1 where nh: "new_handle A f is_dir s = (q, s1)" by (cases "new_handle A f is_dir s")
  with new_handle_books [OF nh assms(2,3)] assms(1) show ?thesis
    by (cases q) (auto simp: finish_open_def intro: close_books)
qed

lemma dup_nif_books:
  assumes "dup_nif A argv s = (r, s')" and "books None F D s" and "\<And>w. fst (mutex_create K w)"
  shows "books None F D s'"
proof (cases "\<exists>a i. argv = [a] \<and> get_resource s a = Some i")
  case True
  then obtain a i where argv: "argv = [a]" "get_resource s a = Some i" by blast
  note i = get_resource_live [OF argv(2)]
  obtain r1 s1 where hl: "handle_lock i s = (r1, s1)" by (cases "handle_lock i s")
  from hl assms(2) i show ?thesis
  proof (cases rule: handle_lockE)
    case closed
    with hl assms(1) argv show ?thesis by (auto simp: dup_nif_def)
  next
    case (opened f)
    obtain r2 s2 where s2: "sys (sys_dup A f) s1 = (r2, s2)" by (cases "sys (sys_dup A f) s1")
    have "books None (case r2 of Inl _ \<Rightarrow> F | Inr g \<Rightarrow> add_mset g F) D (mutex_unlock i s2)"
      using dup_books [OF opened(3,6) s2] live_sys [OF s2] opened(5) i by (auto intro: books_unlock)
    with assms(1,3) argv hl opened(1) s2 show ?thesis
      by (cases r2) (auto simp: dup_nif_def intro: finish_open_books)
  qed
qed (use assms in \<open>auto simp: dup_nif_def split: list.splits option.splits\<close>)

lemma open_root_books:
  assumes "books None F D s" and "sys (sys_open A p fl) s = (r, s')" and "\<And>w. pol w (COpen p fl)"
  shows "handles s' = handles s \<and> books None (case r of Inl _ \<Rightarrow> F | Inr g \<Rightarrow> add_mset g F) D s'"
proof -
  from assms(2) have "sys_open A p fl (kern s) = (r, kern s')" and h: "handles s' = handles s"
    by (simp_all add: sys_eq)
  from this(1) show ?thesis
    by (cases rule: audited_openE) (use assms(1,3) h in \<open>auto simp: books_ok intro: books_move\<close>)
qed

lemma open_dir_nif_books:
  assumes "open_dir_nif A argv s = (r, s')" and "books None F D s" and "\<And>w. fst (mutex_create K w)"
    and "\<And>w p fl. pol w (COpen p fl)"
  shows "books None F D s'"
proof (cases "\<exists>a p. argv = [a] \<and> get_string MAX_PATH_LEN a = Some p")
  case True
  then obtain a p where argv: "argv = [a]" "get_string MAX_PATH_LEN a = Some p" by blast
  obtain r1 s1 where s1: "sys (sys_open A (cstr p) (O_DIRECTORY K)) s = (r1, s1)"
    by (cases "sys (sys_open A (cstr p) (O_DIRECTORY K)) s")
  from open_root_books [OF assms(2) s1 assms(4)] assms(1,3) argv s1 show ?thesis
    by (cases r1) (auto simp: open_dir_nif_def intro: finish_open_books)
qed (use assms in \<open>auto simp: open_dir_nif_def split: list.splits option.splits\<close>)

text \<open>Listing: the stream of a handle, and the loops over a stream.\<close>

lemma open_stream_books:
  assumes "open_stream A i f s = (r, s')" and "books (Some i) F D s" and "live s i"
    and fd: "h_fd (handle s i) = Some f"
  shows "books (Some i) F D s' \<and> live s' = live s \<and> (\<forall>d. r = Inr d \<longrightarrow> d \<in># strm (kern s'))"
proof (cases "h_dirp (handle s i)")
  case (Some d)
  with assms books_dirp [OF assms(2) _ Some] show ?thesis by (auto simp: open_stream_def live_def)
next
  case None
  have i: "i < length (handles s)" using assms(3) by (simp add: live_def)
  obtain r1 s1 where s1: "sys (sys_dup A f) s = (r1, s1)" by (cases "sys (sys_dup A f) s")
  note b1 = dup_books [OF assms(2) books_fd [OF assms(2) i fd] s1]
  show ?thesis
  proof (cases r1)
    case (Inl e)
    with None assms(1) s1 b1 live_sys [OF s1] show ?thesis by (auto simp: open_stream_def)
  next
    case (Inr g)
    obtain r2 s2 where s2: "sys (sys_fdopendir A g) s1 = (r2, s2)" by (cases "sys (sys_fdopendir A g) s1")
    then have fo: "sys_fdopendir A g (kern s1) = (r2, kern s2)" and h2: "handles s2 = handles s"
      using b1 by (simp_all add: sys_eq)
    have b: "books (Some i) (add_mset g F) D s1" using b1 Inr by simp
    from fo show ?thesis
    proof (cases rule: audited_fdopendirE)
      case (fail e)
      then have "books (Some i) (add_mset g F) D s2"
        using b h2 b1 by (auto simp: free books_ok books_held intro: books_move)
      with fail None assms(1) s1 s2 Inr h2 show ?thesis
        by (auto simp: open_stream_def live_def intro: close_books)
    next
      case (opened d)
      have "g \<in># held (kern s1)" using b by (simp add: books_held)
      then have b2: "books (Some i) F (add_mset d D) s2"
        using opened b h2 b1 by (intro books_move [OF b]) (auto simp: free books_ok)
      let ?h = "(handle s2 i)\<lparr>h_dirp := Some d\<rparr>"
      have i2: "i < length (handles s2)" and same: "handle s2 i = handle s i" using i h2 by (simp_all add: handle_def)
      have "owned_by h_dirp ((handles s2)[i := ?h]) = add_mset d (owned_by h_dirp (handles s2))"
        using owned_by_update [OF i2, of h_dirp ?h] None same by (simp add: handle_def)
      moreover have "owned_by h_fd ((handles s2)[i := ?h]) = owned_by h_fd (handles s2)"
        using i2 by (simp add: owned_by_same handle_def)
      moreover have "handles_ok (Some i) ((handles s2)[i := ?h])"
        using b2 fd same by (auto simp: books_def handles_ok_def nth_list_update handle_def)
      moreover have s': "s' = upd_handle i (\<lambda>h. h\<lparr>h_dirp := Some d\<rparr>) s2" "r = Inr d"
        using None assms(1) s1 s2 Inr opened by (auto simp: open_stream_def)
      ultimately have "books (Some i) F D s'"
        using b2 by (simp add: books_def) (simp add: handle_def)
      with s' opened live_sys [OF s1] live_sys [OF s2] show ?thesis by (auto simp: live_update)
    qed
  qed
qed

lemma quiet_trans:
  "quiet f a \<Longrightarrow> f a = (x, a1) \<Longrightarrow> ok b \<and> held b = held a1 \<and> strm b = strm a1 \<Longrightarrow>
   ok b \<and> held b = held a \<and> strm b = strm a"
  by (auto simp: quiet_def)

lemma entry_type_quiet: "ok a \<Longrightarrow> d \<in># strm a \<Longrightarrow> quiet (entry_type A d de) a"
  using quiet_dir(3) [of pol K d "d_name de" a]
  by (auto simp: quiet_def entry_type_def Let_def free split: prod.splits sum.splits)

lemma readdir_loop_quiet: "ok a \<Longrightarrow> d \<in># strm a \<Longrightarrow> quiet (readdir_loop A d cap out) a"
proof (induction "cap - length out" arbitrary: out a rule: less_induct)
  case less
  obtain r a1 where rd: "sys_readdir A d a = (r, a1)" by (cases "sys_readdir A d a")
  have q1: "ok a1 \<and> held a1 = held a \<and> strm a1 = strm a"
    using quiet_dir(1) [of pol K d a] less.prems rd by (simp add: quiet_def free)
  consider e where "r = Inl e" | "r = Inr None" | de where "r = Inr (Some de)" by (cases r) auto
  then show ?case
  proof cases
    case (3 de)
    obtain c a2 where td: "sys_telldir A d a1 = (c, a2)" by (cases "sys_telldir A d a1")
    have q2: "ok a2 \<and> held a2 = held a \<and> strm a2 = strm a"
      using quiet_dir(2) [of pol K d a1] q1 less.prems td by (simp add: quiet_def free)
    obtain t ino a3 where et: "entry_type A d de a2 = ((t, ino), a3)" by (cases "entry_type A d de a2") auto
    have q3: "ok a3 \<and> held a3 = held a \<and> strm a3 = strm a"
      using entry_type_quiet [of a2 d de] q2 less.prems et by (simp add: quiet_def)
    let ?out = "out @ dirent_header c ino (length (d_name de)) t @ d_name de"
    show ?thesis
    proof (cases "length out + (DIRENT_HDR + length (d_name de)) > cap")
      case True
      with rd 3 td et q3 show ?thesis by (simp add: quiet_def readdir_loop.simps Let_def)
    next
      case False
      then have "cap - length ?out < cap - length out"
        by (simp add: DIRENT_HDR_def dirent_header_def put_u64_def put_u32_def)
      from less.hyps [OF this, of a3] q3 less.prems have "quiet (readdir_loop A d cap ?out) a3" by simp
      with rd 3 td et q3 False show ?thesis
        by (simp add: quiet_def readdir_loop.simps [of _ _ _ out] Let_def)
    qed
  qed (use rd q1 in \<open>simp_all add: quiet_def readdir_loop.simps\<close>)
qed

lemma readdir_batch_books:
  assumes "readdir_batch A d c cap s = (r, s')" and "books L F D s" and "d \<in># strm (kern s)"
  shows "books L F D s' \<and> live s' = live s"
proof -
  define s1 where "s1 = sys_do (if c = 0 then sys_rewinddir A d else sys_seekdir A d c) s"
  have b1: "books L F D s1" "strm (kern s1) = strm (kern s)" "live s1 = live s"
    using assms(2,3) by (auto simp: s1_def free books_ok intro: books_move)
  obtain q s2 where al: "sys (alloc A (if cap = 0 then 1 else cap)) s1 = (q, s2)"
    by (cases "sys (alloc A (if cap = 0 then 1 else cap)) s1")
  then have q2: "quiet (alloc A (if cap = 0 then 1 else cap)) (kern s1)" using b1 by (simp add: books_ok)
  note b2 = books_quiet [OF b1(1) al q2] live_sys [OF al]
  have d2: "d \<in># strm (kern s2)" using q2 al b1 assms(3) by (simp add: sys_eq quiet_def)
  obtain out e s3 where lp: "sys (readdir_loop A d cap []) s2 = ((out, e), s3)"
    by (cases "sys (readdir_loop A d cap []) s2") auto
  note b3 = books_quiet [OF b2(1) lp readdir_loop_quiet [OF books_ok [OF b2(1)] d2]] live_sys [OF lp]
  show ?thesis
  proof (cases q)
    case False
    with assms(1) al b2 b1(3) show ?thesis by (auto simp: readdir_batch_def s1_def [symmetric] Let_def)
  next
    case True
    with assms(1) al lp have "s' = s3"
      by (cases e) (auto simp: readdir_batch_def s1_def [symmetric] Let_def split: if_splits)
    with b3 b2 b1 show ?thesis by simp
  qed
qed

lemma readdir_nif_books:
  assumes "readdir_nif A argv s = (r, s')" and "books None F D s"
  shows "books None F D s'"
proof (cases "\<exists>a b c i k n. argv = [a, b, c] \<and> get_resource s a = Some i \<and> get_uint64 b = Some k
    \<and> get_uint c = Some n")
  case True
  then obtain a b c i k n where argv: "argv = [a, b, c]" "get_resource s a = Some i"
      "get_uint64 b = Some k" "get_uint c = Some n" by blast
  note i = get_resource_live [OF argv(2)]
  obtain r1 s1 where hl: "handle_lock i s = (r1, s1)" by (cases "handle_lock i s")
  from hl assms(2) i show ?thesis
  proof (cases rule: handle_lockE)
    case closed
    with hl assms(1) argv show ?thesis by (auto simp: readdir_nif_def)
  next
    case (opened f)
    have i1: "live s1 i" using opened(5) i by simp
    have f1: "h_fd (handle s1 i) = Some f" using opened(2,7) i by simp
    obtain r2 s2 where os: "open_stream A i f s1 = (r2, s2)" by (cases "open_stream A i f s1")
    note b2 = open_stream_books [OF os opened(3) i1 f1]
    show ?thesis
    proof (cases "h_is_dir (handle s1 i)")
      case False
      with hl assms(1) argv opened i1 show ?thesis by (auto simp: readdir_nif_def intro: books_unlock)
    next
      case dir: True
      show ?thesis
      proof (cases r2)
        case (Inl e)
        with hl assms(1) argv opened(1) os b2 i1 dir show ?thesis
          by (auto simp: readdir_nif_def intro: books_unlock)
      next
        case (Inr d)
        obtain r3 s3 where bt: "readdir_batch A d (word_of_int k) (nat n) s2 = (r3, s3)"
          by (cases "readdir_batch A d (word_of_int k) (nat n) s2")
        from readdir_batch_books [OF bt] b2 Inr i1
        have "books (Some i) F D s3" "live s3 i" by auto
        with hl assms(1) argv opened(1) os bt Inr dir show ?thesis
          by (auto simp: readdir_nif_def intro: books_unlock)
      qed
    qed
  qed
qed (use assms in \<open>auto simp: readdir_nif_def split: list.splits option.splits\<close>)

lemma names_loop_quiet:
  assumes "names_loop A d l a = Some y" and "ok a" "d \<in># strm a"
  shows "ok (snd y) \<and> held (snd y) = held a \<and> strm (snd y) = strm a"
proof -
  have "K' = A \<longrightarrow> ok a \<longrightarrow> d \<in># strm a \<longrightarrow>
      ok (snd y) \<and> held (snd y) = held a \<and> strm (snd y) = strm a"
    if "names_loop K' d l a = Some y" for K' :: "'w audit kernel" and d l a y
    using that
  proof (induction K' d l a y rule: names_loop.raw_induct [rotated, consumes 1])
    case (1 loop K' d l a y)
    obtain r a1 where rd: "sys_readdir K' d a = (r, a1)" by (cases "sys_readdir K' d a")
    have "ok a1 \<and> held a1 = held a \<and> strm a1 = strm a" if "K' = A" "ok a" "d \<in># strm a"
      using quiet_dir(1) [of pol K d a] that rd by (simp add: quiet_def free)
    with 1 rd show ?case by (cases r) (auto split: option.splits)
  qed
  with assms show ?thesis by simp
qed

lemma readdir_names_nif_books:
  assumes "readdir_names_nif A argv s = Some (r, s')" and "books None F D s"
  shows "books None F D s'"
proof (cases "\<exists>a i. argv = [a] \<and> get_resource s a = Some i")
  case True
  then obtain a i where argv: "argv = [a]" "get_resource s a = Some i" by blast
  note i = get_resource_live [OF argv(2)]
  obtain r1 s1 where hl: "handle_lock i s = (r1, s1)" by (cases "handle_lock i s")
  from hl assms(2) i show ?thesis
  proof (cases rule: handle_lockE)
    case closed
    with hl assms(1) argv show ?thesis by (auto simp: readdir_names_nif_def)
  next
    case (opened f)
    obtain r2 s2 where s2: "sys (sys_dup A f) s1 = (r2, s2)" by (cases "sys (sys_dup A f) s1")
    have b2: "books None (case r2 of Inl _ \<Rightarrow> F | Inr g \<Rightarrow> add_mset g F) D (mutex_unlock i s2)"
      using dup_books [OF opened(3,6) s2] live_sys [OF s2] opened(5) i by (auto intro: books_unlock)
    show ?thesis
    proof (cases "h_is_dir (handle s1 i)")
      case False
      with hl assms(1) argv opened i show ?thesis by (auto simp: readdir_names_nif_def intro: books_unlock)
    next
      case dir: True
      show ?thesis
      proof (cases r2)
        case (Inl e)
        with hl assms(1) argv opened(1) s2 b2 dir show ?thesis by (auto simp: readdir_names_nif_def)
      next
        case (Inr g)
        then have b2: "books None (add_mset g F) D (mutex_unlock i s2)" using b2 by simp
        obtain r3 s3 where s3: "sys (sys_fdopendir A g) (mutex_unlock i s2) = (r3, s3)"
          by (cases "sys (sys_fdopendir A g) (mutex_unlock i s2)")
        then have fo: "sys_fdopendir A g (kern (mutex_unlock i s2)) = (r3, kern s3)"
            and h3: "handles s3 = handles (mutex_unlock i s2)" by (simp_all add: sys_eq)
        from fo show ?thesis
        proof (cases rule: audited_fdopendirE)
          case (fail e)
          then have "books None (add_mset g F) D s3"
            using b2 h3 books_held [OF b2] books_ok [OF b2] by (intro books_move [OF b2]) (auto simp: free)
          with fail hl assms(1) argv opened(1) s2 s3 dir Inr show ?thesis
            by (auto simp: readdir_names_nif_def intro: close_books)
        next
          case (opened d)
          have b3: "books None F (add_mset d D) s3"
            using opened b2 h3 books_held [OF b2] books_ok [OF b2]
            by (intro books_move [OF b2]) (auto simp: free)
          have b4: "books None F (add_mset d D) (sys_do (sys_rewinddir A d) s3)"
            using books_ok [OF b3] books_strm [OF b3, of d] by (intro books_move [OF b3]) (auto simp: free)
          obtain l w where lp: "names_loop A d [] (kern (sys_do (sys_rewinddir A d) s3)) = Some (l, w)"
              and s': "s' = sys_do (sys_closedir A d) ((sys_do (sys_rewinddir A d) s3)\<lparr>kern := w\<rparr>)"
            using opened hl assms(1) argv \<open>r1 = Inr f\<close> s2 s3 dir Inr
            by (auto simp: readdir_names_nif_def Let_def split: option.splits)
          have "ok w \<and> held w = held (kern (sys_do (sys_rewinddir A d) s3))
              \<and> strm w = strm (kern (sys_do (sys_rewinddir A d) s3))"
            using names_loop_quiet [OF lp] books_ok [OF b4] books_strm [OF b4] by simp
          then show ?thesis
            unfolding s' using books_strm [OF b4, of d]
            by (intro books_move [OF b4]) (auto simp: free)
        qed
      qed
    qed
  qed
qed (use assms in \<open>auto simp: readdir_names_nif_def split: list.splits option.splits\<close>)

end

end
