(* ===== verification/Nif_Ops.thy ===== *)
theory Nif_Ops
  imports Nif_Books Nif_Sandbox
begin

text \<open>
  The books of the functions that read and write under a lock, and of the functions that walk a
  path: they leave a state in order. For the second group the contract of the walk is extended by
  what the final call of an operation asks of the policy; one instance is every kernel (\<open>free\<close>), the
  other the sandbox (\<open>guest\<close>).
\<close>

subsection \<open>One call under the lock\<close>

locale io_call =
  fixes g :: "fd \<Rightarrow> 'w audit \<Rightarrow> (errno + 'a) \<times> 'w audit"
  assumes quiet: "ok a \<Longrightarrow> f \<in># held a \<Longrightarrow> quiet (g f) a"
begin

lemma keeps_books:
  assumes "locked_call i g s = (r, s')" and "books None F D s" and "live s i"
  shows "books None F D s' \<and> live s' = live s"
proof -
  obtain r1 s1 where hl: "handle_lock i s = (r1, s1)" by (cases "handle_lock i s")
  from hl assms(2,3) show ?thesis
  proof (cases rule: handle_lockE)
    case closed
    with hl assms(1) show ?thesis by (auto simp: locked_call_def)
  next
    case (opened f)
    obtain r2 s2 where s2: "sys (g f) s1 = (r2, s2)" by (cases "sys (g f) s1")
    from books_quiet [OF opened(3) s2 quiet [OF books_ok [OF opened(3)] opened(6)]] live_sys [OF s2]
      opened(1,5) hl assms(1,3) s2 show ?thesis
      by (auto simp: locked_call_def live_unlocked intro: books_unlock)
  qed
qed

text \<open>On a closed handle the call is not made.\<close>

lemma on_closed:
  assumes "live s i" and "h_fd (handle s i) = None"
  shows "locked_call i g s = (Inl EBADF, mutex_unlock i (mutex_lock i s))"
  using assms by (simp add: locked_call_def handle_lock_def)

end

sublocale owner \<subseteq> io_pread: io_call "\<lambda>f. sys_pread A f n off" for n off
  by unfold_locales (simp add: free)

sublocale owner \<subseteq> io_pwrite: io_call "\<lambda>f. sys_pwrite A f bs off" for bs off
  by unfold_locales (simp add: free)

sublocale owner \<subseteq> io_futimens: io_call "\<lambda>f. sys_futimens A f ts" for ts
  by unfold_locales (simp add: free)

sublocale owner \<subseteq> io_fstat: io_call "sys_fstat A"
  by unfold_locales (simp add: free)

sublocale owner \<subseteq> io_ftruncate: io_call "\<lambda>f. sys_ftruncate A f len" for len
  by unfold_locales (simp add: free)

context owner begin

lemma pread_nif_books:
  assumes "pread_nif A argv s = (r, s')" and "books None F D s"
  shows "books None F D s'"
proof (cases "\<exists>a b c i off len. argv = [a, b, c] \<and> get_resource s a = Some i \<and> get_int64 b = Some off \<and> get_ulong c = Some len")
  case True
  then obtain a b c i off len where argv: "argv = [a, b, c]" "get_resource s a = Some i"
      "get_int64 b = Some off" "get_ulong c = Some len" by blast
  note i = get_resource_live [OF argv(2)]
  let ?n = "if nat len > MAX_IO_CHUNK then MAX_IO_CHUNK else nat len"
  obtain q s1 where s1: "sys (alloc_binary A ?n) s = (q, s1)"
    by (cases "sys (alloc_binary A ?n) s")
  have b1: "books None F D s1" "live s1 i"
    using books_quiet [OF assms(2) s1] live_sys [OF s1] i books_ok [OF assms(2)] by auto
  obtain r2 s2 where s2: "locked_call i (\<lambda>f. sys_pread A f ?n off) s1 = (r2, s2)"
    by (cases "locked_call i (\<lambda>f. sys_pread A f ?n off) s1")
  from io_pread.keeps_books [OF s2 b1] b1 assms(1) argv s1 s2 show ?thesis
    by (cases q; cases r2) (auto simp: pread_nif_def Let_def split: if_splits)
qed (use assms in \<open>auto simp: pread_nif_def split: list.splits option.splits\<close>)

lemma pwrite_nif_books:
  assumes "pwrite_nif A argv s = (r, s')" and "books None F D s"
  shows "books None F D s'"
  using assms io_pwrite.keeps_books [OF _ assms(2) get_resource_live]
  by (auto simp: pwrite_nif_def Let_def split: list.splits option.splits prod.splits sum.splits)

lemma futimes_nif_books:
  assumes "futimes_nif A argv s = (r, s')" and "books None F D s"
  shows "books None F D s'"
  using assms io_futimens.keeps_books [OF _ assms(2) get_resource_live]
  by (auto simp: futimes_nif_def split: list.splits option.splits prod.splits sum.splits)

lemma fstat_nif_books:
  assumes "fstat_nif A argv s = (r, s')" and "books None F D s"
  shows "books None F D s'"
  using assms io_fstat.keeps_books [OF _ assms(2) get_resource_live]
  by (auto simp: fstat_nif_def split: list.splits option.splits prod.splits sum.splits)

lemma ftruncate_nif_books:
  assumes "ftruncate_nif A argv s = (r, s')" and "books None F D s"
  shows "books None F D s'"
  using assms io_ftruncate.keeps_books [OF _ assms(2) get_resource_live]
  by (auto simp: ftruncate_nif_def split: list.splits option.splits prod.splits sum.splits if_splits)

lemma fsync_nif_books:
  assumes "fsync_nif A argv s = (r, s')" and "books None F D s"
  shows "books None F D s'"
proof (cases "\<exists>a i. argv = [a] \<and> get_resource s a = Some i")
  case True
  then obtain a i where argv: "argv = [a]" "get_resource s a = Some i" by blast
  note i = get_resource_live [OF argv(2)]
  obtain r1 s1 where hl: "handle_lock i s = (r1, s1)" by (cases "handle_lock i s")
  from hl assms(2) i show ?thesis
  proof (cases rule: handle_lockE)
    case closed
    with hl assms(1) argv show ?thesis by (auto simp: fsync_nif_def)
  next
    case (opened f)
    obtain r2 s2 where s2: "sys (sys_fsync A f) s1 = (r2, s2)"
      by (cases "sys (sys_fsync A f) s1")
    have "books (Some i) F D s2" using books_quiet [OF opened(3) s2] opened(6) books_ok [OF opened(3)] by (simp add: free)
    with opened(1,5) hl assms(1) argv i s2 live_sys [OF s2] show ?thesis
      by (auto simp: fsync_nif_def intro: books_unlock)
  qed
qed (use assms in \<open>auto simp: fsync_nif_def split: list.splits option.splits\<close>)

end

text \<open>On any kernel, with no policy.\<close>

interpretation unbound: owner K "\<lambda>_ _. True" for K :: "'w kernel"
  by unfold_locales auto

subsection \<open>Operations on a path\<close>

text \<open>The name \<^verbatim>\<open>walk_parent\<close> answers is in the buffer it was given, or the static \<^verbatim>\<open>"."\<close>.\<close>

lemma parent_finish_storage:
  "parent_finish K c owned (st, n) w = (Inr (g, o', nm), w') \<Longrightarrow> nm = (st, n)"
  by (auto split: if_splits)

lemma parent_loop_storage:
  "parent_loop K st c owned cs k w = (Inr (g, o', nm), w') \<Longrightarrow> fst nm = st \<or> fst nm = Static_dot"
proof (induction cs arbitrary: c owned k w)
  case Nil
  then show ?case by (auto dest: parent_finish_storage simp del: parent_finish.simps)
next
  case (Cons n cs)
  then show ?case
    by (auto dest: parent_finish_storage simp del: parent_finish.simps
        split: if_splits prod.splits sum.splits)
qed

lemma walk_parent_storage:
  "walk_parent K d p st sz w = (Inr (g, owned, nm), w') \<Longrightarrow> fst nm = st \<or> fst nm = Static_dot"
  by (auto simp: walk_parent_def dest: parent_loop_storage split: if_splits)

lemma read_name_here: "fst nm \<noteq> Local_buf \<Longrightarrow> read_name K nm w = snd nm"
  by (cases "(K, nm, w)" rule: read_name.cases) auto

lemma snd_answer [simp]: "snd (answer g p) = snd p"
  by (simp add: answer_def split: prod.splits)

text \<open>A request of \<^verbatim>\<open>path_op\<close> that does not follow its last component.\<close>

definition no_follow :: "eterm list \<Rightarrow> bool" where
  "no_follow argv \<longleftrightarrow> (case argv of [a, b, c, d] \<Rightarrow>
     get_int c \<noteq> Some OP_STAT_FOLLOW \<and> get_int c \<noteq> Some OP_SETTIMES_FOLLOW | _ \<Rightarrow> True)"

locale nif_ops = walker K pol at apart + owner K pol
  for K :: "'w kernel" and pol :: "'w policy" and at :: "fd \<Rightarrow> nat \<Rightarrow> 'w \<Rightarrow> bool"
    and apart :: "fd \<Rightarrow> fd \<Rightarrow> bool" +
  assumes act_allowed: "at d k w \<Longrightarrow> one_component n \<Longrightarrow> n \<noteq> DOTDOT \<Longrightarrow>
      pol w (CMkdirat d n) \<and> pol w (CUnlinkat d n) \<and> pol w (CSymlinkat d n) \<and> pol w (CFstatat d n)
        \<and> pol w (CUtimensat d n)"
    and act2_allowed: "at d k w \<Longrightarrow> one_component n \<Longrightarrow> n \<noteq> DOTDOT \<Longrightarrow>
      at d' k' w \<Longrightarrow> one_component n' \<Longrightarrow> n' \<noteq> DOTDOT \<Longrightarrow>
      pol w (CRenameat d n d' n') \<and> pol w (CLinkat d n d' n')"
    and dup_at: "at g k w \<Longrightarrow> sys_dup K g w = (Inr f, w') \<Longrightarrow> at f k w'"
    and dup_keeps: "sys_dup K g w = (r, w') \<Longrightarrow> at f k w \<Longrightarrow> at f k w'"
begin

text \<open>A state in which every handle may be walked from.\<close>

definition placed :: "'w audit nif \<Rightarrow> bool" where
  "placed s \<longleftrightarrow> (\<forall>i f. live s i \<longrightarrow> h_fd (handle s i) = Some f \<longrightarrow> at f 0 (world (kern s)))"

definition keeps :: "'w audit nif \<Rightarrow> 'w audit nif \<Rightarrow> bool" where
  "keeps s s' \<longleftrightarrow> live s' = live s \<and> (\<forall>i. h_fd (handle s' i) = h_fd (handle s i))
     \<and> (\<forall>f k. at f k (world (kern s)) \<longrightarrow> at f k (world (kern s')))"

lemma keeps_placed: "keeps s s' \<Longrightarrow> placed s \<Longrightarrow> placed s'"
  by (auto simp: keeps_def placed_def)

lemma keeps_at: "keeps s s' \<Longrightarrow> at f k (world (kern s)) \<Longrightarrow> at f k (world (kern s'))"
  by (auto simp: keeps_def)

lemma keeps_world: "handles s' = handles s \<Longrightarrow> (\<And>f k. at f k (world (kern s)) \<Longrightarrow> at f k (world (kern s')))
  \<Longrightarrow> keeps s s'"
  by (auto simp: keeps_def live_def handle_def fun_eq_iff)

lemma dir_dup_at:
  assumes "dir_dup A i s = (r, s')" and "books None F D s" and "live s i" and "placed s"
  shows "keeps s s' \<and> (\<forall>g. r = Inr g \<longrightarrow> at g 0 (world (kern s')))"
proof -
  obtain r1 s1 where hl: "handle_lock i s = (r1, s1)" by (cases "handle_lock i s")
  from hl assms(2,3) show ?thesis
  proof (cases rule: handle_lockE)
    case closed
    then have "s1 = mutex_unlock i (mutex_lock i s)" using hl assms(3) by (auto simp: handle_lock_def)
    with closed hl assms(1,3) show ?thesis by (auto simp: dir_dup_def keeps_def live_locked live_unlocked)
  next
    case (opened f)
    obtain s2 where s2: "sys (sys_dup A f) s1 = (r, s2)" "s' = mutex_unlock i s2"
      using assms(1) hl opened(1) by (auto simp: dir_dup_def split: prod.splits)
    then have du: "sys_dup A f (kern s1) = (r, kern s2)" and h2: "handles s2 = handles s1"
      by (simp_all add: sys_eq)
    have f: "at f 0 (world (kern s))" using assms(3,4) opened(2) by (auto simp: placed_def)
    have base: "sys_dup K f (world (kern s1)) = (r, world (kern s2))"
      using du by (cases rule: audited_dupE) auto
    have lv: "live s2 i" using live_sys [OF s2(1)] opened(5) assms(3) by simp
    have "handle s2 j = handle s1 j" for j using h2 by (simp add: handle_def)
    then have "keeps s s'"
      using dup_keeps [OF base] opened(4,5,7) live_sys [OF s2(1)] s2(2) lv assms(3)
      by (auto simp: keeps_def live_unlocked)
    with dup_at [OF f [folded opened(4)], of _ "world (kern s2)"] base s2(2) show ?thesis by auto
  qed
qed

text \<open>The walks, in a NIF state.\<close>

lemma walk_state:
  assumes "still (kern s) (kern s')" and "handles s' = handles s"
  shows "keeps s s'"
  using assms by (intro keeps_world) (auto simp: still_def)

lemma parent_books:
  assumes "sys (walk_parent A d (cstr p) Caller_buf sz) s = (r, s')" and "books L F D s"
    and "d \<in># F" and "at d 0 (world (kern s))"
  shows "keeps s s' \<and> (case r of Inl e \<Rightarrow> books L F D s'
    | Inr (g, owned, nm) \<Rightarrow> books L (if owned then add_mset g F else F) D s' \<and> g \<in># held (kern s')
        \<and> fst nm \<noteq> Local_buf \<and> one_component (snd nm) \<and> snd nm \<noteq> DOTDOT \<and> (\<exists>k. at g k (world (kern s')))
        \<and> (owned \<or> g = d))"
proof -
  from assms(1) have wp: "walk_parent A d (cstr p) Caller_buf sz (kern s) = (r, kern s')"
      and h: "handles s' = handles s" by (simp_all add: sys_eq)
  have "ready d 0 (kern s)" using assms(2-4) by (auto simp: ready_def books_ok books_held)
  note pk = walk_parent_kept [OF this cstr_no_nul wp]
  have move: "books L F' D s'" if "still (kern s) (kern s')" "held (kern s') + F = held (kern s) + F'" for F'
    using that assms(2) h by (intro books_move [OF assms(2)]) (auto simp: still_def)
  have d: "d \<in># held (kern s)" using assms(2,3) by (rule books_held)
  show ?thesis
  proof (cases r)
    case (Inl e)
    with pk have "still (kern s) (kern s')" "held (kern s') = held (kern s)" by (simp_all add: parent_kept_def)
    with Inl move walk_state h show ?thesis by simp
  next
    case (Inr q)
    obtain g owned st n where q: "q = (g, owned, st, n)" by (cases q)
    have st: "st \<noteq> Local_buf" using walk_parent_storage [OF wp [unfolded Inr q]] by auto
    from pk Inr q have n: "one_component n" "n \<noteq> DOTDOT"
      and k: "\<exists>k. if owned then got (kern s) g k (kern s')
        else g = d \<and> ready d k (kern s') \<and> still (kern s) (kern s') \<and> held (kern s') = held (kern s)"
      by (simp_all add: parent_kept_def)
    from k have "still (kern s) (kern s')" "\<exists>k. at g k (world (kern s'))"
        "held (kern s') = (if owned then add_mset g (held (kern s)) else held (kern s))" "owned \<or> g = d"
      by (auto simp: got_def ready_def split: if_splits)
    with Inr q n st move walk_state h d show ?thesis by auto
  qed
qed

lemma open_books:
  assumes "sys (walk_open A d (cstr p) fl m ff) s = (r, s')" and "books L F D s"
    and "d \<in># F" and "at d 0 (world (kern s))"
  shows "keeps s s' \<and> books L (case r of Inl _ \<Rightarrow> F | Inr f \<Rightarrow> add_mset f F) D s'
    \<and> (\<forall>f. r = Inr f \<longrightarrow> (\<exists>k. at f k (world (kern s'))))"
proof -
  from assms(1) have wo: "walk_open A d (cstr p) fl m ff (kern s) = (r, kern s')"
      and h: "handles s' = handles s" by (simp_all add: sys_eq)
  have "ready d 0 (kern s)" using assms(2-4) by (auto simp: ready_def books_ok books_held)
  note wk = walk_open_kept [OF this cstr_no_nul wo]
  have move: "books L F' D s'" if "still (kern s) (kern s')" "held (kern s') + F = held (kern s) + F'" for F'
    using that assms(2) h by (intro books_move [OF assms(2)]) (auto simp: still_def)
  from wk show ?thesis using move walk_state [OF _ h]
    by (cases r) (auto simp: got_def)
qed

text \<open>The call that acts.\<close>

lemma path_act_quiet:
  assumes "ok a" and "d \<in># held a" and at: "at d k (world a)" and n: "one_component n" "n \<noteq> DOTDOT"
  shows "quiet (path_act A op d n arg) a"
proof -
  note allowed = act_allowed [OF at n] readlink_allowed [OF at n]
  have q: "quiet (sys_mkdirat A d n m) a" "quiet (sys_unlinkat A d n rm) a" "quiet (sys_symlinkat A t d n) a"
      "quiet (sys_readlinkat A d n sz) a" "quiet (sys_fstatat A d n) a" "quiet (sys_utimensat A d n ts) a"
    for m rm t sz ts using assms allowed by simp_all
  then show ?thesis
    using assms(1) by (simp add: quiet_def path_act_def split: option.splits)
qed

lemma path_act2_quiet:
  assumes "ok a" and "d \<in># held a" "at d k (world a)" "one_component n" "n \<noteq> DOTDOT"
    and "d' \<in># held a" "at d' k' (world a)" "one_component n'" "n' \<noteq> DOTDOT"
  shows "quiet (path_act2 A op d n d' n') a"
proof -
  have "quiet (sys_renameat A d n d' n') a" "quiet (sys_linkat A d n d' n') a"
    using assms act2_allowed by auto
  then show ?thesis using assms(1) by (simp add: quiet_def path_act2_def)
qed

lemma path_op_nif_books:
  assumes "path_op_nif A argv s = (r, s')" and "books None F D s" and "placed s" and "no_follow argv"
  shows "books None F D s'"
proof (cases "\<exists>a b c d i p op arg. argv = [a, b, c, d] \<and> get_resource s a = Some i
    \<and> inspect_binary b = Some p \<and> get_int c = Some op \<and> inspect_binary d = Some arg
    \<and> length p < MAX_PATH_LEN \<and> length arg < MAX_PATH_LEN")
  case True
  then obtain a b c d i p op arg where argv: "argv = [a, b, c, d]" "get_resource s a = Some i"
      "inspect_binary b = Some p" "get_int c = Some op" "inspect_binary d = Some arg"
      "length p < MAX_PATH_LEN" "length arg < MAX_PATH_LEN" by blast
  have op: "op \<noteq> OP_STAT_FOLLOW" "op \<noteq> OP_SETTIMES_FOLLOW"
    using assms(4) argv(1,4) by (auto simp: no_follow_def)
  note i = get_resource_live [OF argv(2)]
  obtain r1 s1 where s1: "dir_dup A i s = (r1, s1)" by (cases "dir_dup A i s")
  note b1 = dir_dup_books [OF s1 assms(2) i] dir_dup_at [OF s1 assms(2) i assms(3)]
  show ?thesis
  proof (cases r1)
    case (Inl e)
    with assms(1) argv s1 b1 show ?thesis by (auto simp: path_op_nif_def)
  next
    case (Inr base)
    let ?walk = "walk_parent A base (cstr p) Caller_buf MAX_PATH_LEN"
    obtain r2 s2 where s2: "sys ?walk s1 = (r2, s2)" by (cases "sys ?walk s1")
    have "books None (add_mset base F) D s1" using b1 Inr by simp
    note b2 = parent_books [OF s2 this]
    show ?thesis
    proof (cases r2)
      case (Inl e)
      with assms(1) argv s1 s2 b1 b2 op \<open>r1 = Inr base\<close> show ?thesis
        by (auto simp: path_op_nif_def intro: close_books)
    next
      case (Inr q)
      obtain g owned nm where q: "q = (g, owned, nm)" by (cases q)
      with b2 b1 Inr \<open>r1 = Inr base\<close> obtain k where
          b3: "books None (if owned then add_mset g (add_mset base F) else add_mset base F) D s2"
        and g: "g \<in># held (kern s2)" "at g k (world (kern s2))" "fst nm \<noteq> Local_buf"
          "one_component (snd nm)" "snd nm \<noteq> DOTDOT" by auto
      let ?act = "\<lambda>w. path_act A op g (read_name A nm w) arg w"
      obtain r3 s3 where s3: "sys ?act s2 = (r3, s3)" by (cases "sys ?act s2")
      have "quiet ?act (kern s2)"
        using path_act_quiet [OF books_ok [OF b3] g(1,2,4,5), of op arg] by (simp add: read_name_here g(3))
      note b4 = books_quiet(1) [OF b3 s3 this]
      have "books None F D (sys_do (sys_close A base) (if owned then sys_do (sys_close A g) s3 else s3))"
        using b4 by (auto intro!: close_books)
      with assms(1) argv s1 s2 s3 op \<open>r1 = Inr base\<close> Inr q show ?thesis
        by (auto simp: path_op_nif_def)
    qed
  qed
qed (use assms in \<open>auto simp: path_op_nif_def split: list.splits option.splits if_splits\<close>)

lemma path_op2_nif_books:
  assumes "path_op2_nif A argv s = (r, s')" and "books None F D s" and "placed s"
  shows "books None F D s'"
proof (cases "\<exists>a b c d e i j p q op. argv = [a, b, c, d, e] \<and> get_resource s a = Some i
    \<and> inspect_binary b = Some p \<and> get_resource s c = Some j \<and> inspect_binary d = Some q
    \<and> get_int e = Some op \<and> length p < MAX_PATH_LEN \<and> length q < MAX_PATH_LEN")
  case True
  then obtain a b c d e i j p q op where argv: "argv = [a, b, c, d, e]" "get_resource s a = Some i"
      "inspect_binary b = Some p" "get_resource s c = Some j" "inspect_binary d = Some q"
      "get_int e = Some op" "length p < MAX_PATH_LEN" "length q < MAX_PATH_LEN" by blast
  note i = get_resource_live [OF argv(2)] and j = get_resource_live [OF argv(4)]
  obtain r1 s1 where s1: "dir_dup A i s = (r1, s1)" by (cases "dir_dup A i s")
  note b1 = dir_dup_books [OF s1 assms(2) i] dir_dup_at [OF s1 assms(2) i assms(3)]
  show ?thesis
  proof (cases r1)
    case (Inl x)
    with assms(1) argv s1 b1 show ?thesis by (auto simp: path_op2_nif_def)
  next
    case one: (Inr d1)
    have k1: "books None (add_mset d1 F) D s1" "placed s1" "live s1 j" "at d1 0 (world (kern s1))"
      using b1 one keeps_placed [of s s1] assms(3) j by auto
    obtain r2 s2 where s2: "dir_dup A j s1 = (r2, s2)" by (cases "dir_dup A j s1")
    note b2 = dir_dup_books [OF s2 k1(1,3)] dir_dup_at [OF s2 k1(1,3,2)]
    show ?thesis
    proof (cases r2)
      case (Inl x)
      with assms(1) argv s1 s2 b2 one show ?thesis by (auto simp: path_op2_nif_def intro: close_books)
    next
      case two: (Inr d2)
      have k2: "books None (add_mset d2 (add_mset d1 F)) D s2" "at d2 0 (world (kern s2))" "at d1 0 (world (kern s2))"
        using b2 two k1(4) keeps_at by auto
      let ?w1 = "walk_parent A d1 (cstr p) Caller_buf MAX_PATH_LEN"
      obtain r3 s3 where s3: "sys ?w1 s2 = (r3, s3)" by (cases "sys ?w1 s2")
      note b3 = parent_books [OF s3 k2(1) _ k2(3)]
      show ?thesis
      proof (cases r3)
        case (Inl x)
        with b3 have "books None F D (sys_do (sys_close A d2) (sys_do (sys_close A d1) s3))"
          by (auto intro!: close_books simp: add_mset_commute)
        with assms(1) argv s1 s2 s3 one two Inl show ?thesis by (auto simp: path_op2_nif_def)
      next
        case three: (Inr q3)
        obtain g1 o1 n1 where q3: "q3 = (g1, o1, n1)" by (cases q3)
        let ?F1 = "if o1 then add_mset g1 (add_mset d2 (add_mset d1 F)) else add_mset d2 (add_mset d1 F)"
        obtain k1 where k3: "books None ?F1 D s3" "at g1 k1 (world (kern s3))" "g1 \<in># ?F1" "d2 \<in># ?F1"
            "fst n1 \<noteq> Local_buf" "one_component (snd n1)" "snd n1 \<noteq> DOTDOT" "at d2 0 (world (kern s3))"
          using b3 three q3 k2(2) keeps_at [of s2 s3 d2 0] by auto
        let ?w2 = "walk_parent A d2 (cstr q) Caller_buf MAX_PATH_LEN"
        obtain r4 s4 where s4: "sys ?w2 s3 = (r4, s4)" by (cases "sys ?w2 s3")
        note b4 = parent_books [OF s4 k3(1,4,8)]
        have done1: "books None F D (sys_do (sys_close A d2) (sys_do (sys_close A d1)
            (if o1 then sys_do (sys_close A g1) t else t)))" if "books None ?F1 D t" for t
          using that by (auto intro!: close_books simp: add_mset_commute)
        show ?thesis
        proof (cases r4)
          case (Inl x)
          with b4 done1 [of s4] assms(1) argv s1 s2 s3 s4 one two three q3 show ?thesis
            by (auto simp: path_op2_nif_def)
        next
          case four: (Inr q4)
          obtain g2 o2 n2 where q4: "q4 = (g2, o2, n2)" by (cases q4)
          let ?F2 = "if o2 then add_mset g2 ?F1 else ?F1"
          obtain k2' where k4: "books None ?F2 D s4" "at g2 k2' (world (kern s4))" "g2 \<in># held (kern s4)"
              "fst n2 \<noteq> Local_buf" "one_component (snd n2)" "snd n2 \<noteq> DOTDOT"
              "at g1 k1 (world (kern s4))" "g1 \<in># ?F2"
            using b4 four q4 k3(2,3) keeps_at [of s3 s4 g1 k1] by auto
          let ?act = "\<lambda>w. path_act2 A op g1 (read_name A n1 w) g2 (read_name A n2 w) w"
          obtain r5 s5 where s5: "sys ?act s4 = (r5, s5)" by (cases "sys ?act s4")
          have "quiet ?act (kern s4)"
            using path_act2_quiet [OF books_ok [OF k4(1)] books_held [OF k4(1,8)] k4(7) k3(6,7) k4(3,2,5,6)]
            by (simp add: read_name_here k3(5) k4(4))
          note b5 = books_quiet(1) [OF k4(1) s5 this]
          define s6 where "s6 = (if o1 then sys_do (sys_close A g1) s5 else s5)"
          define s7 where "s7 = (if o2 then sys_do (sys_close A g2) s6 else s6)"
          have "books None (if o2 then add_mset g2 (add_mset d2 (add_mset d1 F)) else add_mset d2 (add_mset d1 F)) D s6"
            using b5 by (auto simp: s6_def intro!: close_books simp: add_mset_commute split: if_splits)
          then have "books None (add_mset d1 (add_mset d2 F)) D s7"
            by (auto simp: s7_def intro!: close_books simp: add_mset_commute split: if_splits)
          then have "books None F D (sys_do (sys_close A d2) (sys_do (sys_close A d1) s7))"
            by (intro close_books)
          moreover have "s' = sys_do (sys_close A d2) (sys_do (sys_close A d1) s7)"
            using assms(1) argv s1 s2 s3 s4 s5 one two three four q3 q4
            by (cases o1; cases o2) (simp_all add: path_op2_nif_def s6_def s7_def Let_def)
          ultimately show ?thesis by simp
        qed
      qed
    qed
  qed
qed (use assms in \<open>auto simp: path_op2_nif_def split: list.splits option.splits if_splits\<close>)

text \<open>Opening a path; a root named by its path is the one place where the policy may say no.\<close>

definition roots_allowed :: bool where
  "roots_allowed \<longleftrightarrow> (\<forall>w p fl. pol w (COpen p fl)) \<and>
     (\<forall>w p fl f w'. sys_open K p fl w = (Inr f, w') \<longrightarrow> at f 0 w')"

lemma open_base_books:
  assumes "open_base A a s = (r, s')" and "books None F D s" and "placed s"
    and "get_resource s a \<noteq> None \<or> roots_allowed"
  shows "case r of Inl _ \<Rightarrow> books None F D s'
    | Inr d \<Rightarrow> books None (add_mset d F) D s' \<and> at d 0 (world (kern s'))"
proof (cases "get_resource s a")
  case (Some i)
  obtain r1 s1 where s1: "dir_dup A i s = (r1, s1)" by (cases "dir_dup A i s")
  from dir_dup_books [OF s1 assms(2) get_resource_live [OF Some]]
    dir_dup_at [OF s1 assms(2) get_resource_live [OF Some] assms(3)] s1 assms(1) Some
  show ?thesis by (cases r1) (auto simp: open_base_def)
next
  case None
  then have roots: "roots_allowed" using assms(4) by simp
  show ?thesis
  proof (cases "get_string MAX_PATH_LEN a")
    case None
    with \<open>get_resource s a = None\<close> assms(1,2) show ?thesis by (auto simp: open_base_def)
  next
    case (Some p)
    obtain r1 s1 where s1: "sys (sys_open A (cstr p) (O_DIRECTORY K)) s = (r1, s1)"
      by (cases "sys (sys_open A (cstr p) (O_DIRECTORY K)) s")
    note b1 = open_root_books [OF assms(2) s1]
    have pol: "pol w (COpen q fl)" for w q fl using roots by (auto simp: roots_allowed_def)
    have "sys_open A (cstr p) (O_DIRECTORY K) (kern s) = (r1, kern s1)" using s1 by (simp add: sys_eq)
    then have "at d 0 (world (kern s1))" if "r1 = Inr d" for d
      using that roots by (cases rule: audited_openE) (auto simp: roots_allowed_def)
    with b1 pol s1 assms(1) None Some show ?thesis by (cases r1) (auto simp: open_base_def)
  qed
qed

lemma open_at_nif_books:
  assumes "open_at_nif A argv s = (r, s')" and "books None F D s" and "placed s"
    and mutex: "\<And>w. fst (mutex_create K w)"
    and root: "\<And>a b c d. argv = [a, b, c, d] \<Longrightarrow> get_resource s a \<noteq> None \<or> roots_allowed"
  shows "books None F D s'"
proof (cases "\<exists>a b c d. argv = [a, b, c, d]")
  case True
  then obtain a b c d where argv: "argv = [a, b, c, d]" by blast
  obtain r1 s1 where s1: "open_base A a s = (r1, s1)" by (cases "open_base A a s")
  note b1 = open_base_books [OF s1 assms(2,3) root [OF argv]]
  show ?thesis
  proof (cases r1)
    case (Inl e)
    with assms(1) argv s1 b1 show ?thesis by (auto simp: open_at_nif_def)
  next
    case one: (Inr dirfd)
    then have k1: "books None (add_mset dirfd F) D s1" "at dirfd 0 (world (kern s1))" using b1 by auto
    note stop = close_books [OF k1(1)]
    show ?thesis
    proof (cases "\<exists>p fl ff. inspect_binary b = Some p \<and> get_int c = Some fl \<and> get_int d = Some ff
        \<and> length p < MAX_PATH_LEN")
      case False
      with assms(1) argv s1 one stop show ?thesis
        by (auto simp: open_at_nif_def split: option.splits if_splits)
    next
      case True
      then obtain p fl ff where a: "inspect_binary b = Some p" "get_int c = Some fl" "get_int d = Some ff"
          "length p < MAX_PATH_LEN" by blast
      let ?walk = "walk_open A dirfd (cstr p) (word_of_int fl) 420 (ff \<noteq> 0)"
      obtain r2 s2 where s2: "sys ?walk s1 = (r2, s2)" by (cases "sys ?walk s1")
      note b2 = open_books [OF s2 k1(1) _ k1(2)]
      show ?thesis
      proof (cases r2)
        case (Inl e)
        with assms(1) argv s1 one a s2 b2 show ?thesis
          by (auto simp: open_at_nif_def intro: close_books)
      next
        case two: (Inr fd)
        let ?t = "sys_do (sys_close A dirfd) s2"
        have b3: "books None (add_mset fd F) D ?t"
          using b2 two by (auto intro!: close_books simp: add_mset_commute)
        obtain r3 s3 where s3: "sys (sys_fstat A fd) ?t = (r3, s3)" by (cases "sys (sys_fstat A fd) ?t")
        have "quiet (sys_fstat A fd) (kern ?t)"
          using books_ok [OF b3] books_held [OF b3, of fd] by (simp add: free del: sys_do_simps)
        note b4 = books_quiet(1) [OF b3 s3 this]
        show ?thesis
          using assms(1) argv s1 one a s2 two s3 finish_open_books [OF _ b4 mutex]
          by (auto simp: open_at_nif_def)
      qed
    qed
  qed
qed (use assms in \<open>auto simp: open_at_nif_def split: list.splits\<close>)

end

subsection \<open>The two instances\<close>

interpretation free: nif_ops K "\<lambda>_ _. True" "\<lambda>_ _ _. True" "\<lambda>_ _. True" for K :: "'w kernel"
  by unfold_locales auto

sublocale directories \<subseteq> guest: nif_ops K "sandbox K V R" "inside V R" "(\<noteq>)" for R
proof
  show "inside V R f k w'" if "sys_dup K g w = (r, w')" "inside V R f k w" for g w r w' f k
    using dup_persists [OF laws _ that(1)] that(2) inside_persists by (metis inside_def)
  show "inside V R f k w'" if "inside V R g k w" "sys_dup K g w = (Inr f, w')" for g k w f w'
    using that dup_persists [OF laws _ that(2)] laws
    unfolding inside_def dir_laws_def law_dup_def persists_def by metis
qed (auto simp: acts_inside_def)

end
