(* ===== verification/Nif_Calls.thy ===== *)
theory Nif_Calls
  imports Nif_Ops Nif_Mem
begin

text \<open>
  The whole NIF: the table of its functions, a call as the emulator makes it, and runs of calls and
  of garbage collections. The properties of a state that survive every run: the books.
\<close>

datatype nif_fun =
    Open_at | Open_dir | Dup | Pread | Pwrite | Fstat | Futimes | Readdir | Readdir_names | Close
  | Ftruncate | Fsync | Path_op | Path_op2

text \<open>The array \<^verbatim>\<open>funcs\<close>: name, arity, function.\<close>

definition funcs :: "(string \<times> nat \<times> nif_fun) list" where
  "funcs =
    [(''open_at'', 4, Open_at), (''open_dir'', 1, Open_dir), (''dup'', 1, Dup), (''pread'', 3, Pread),
     (''pwrite'', 3, Pwrite), (''fstat'', 1, Fstat), (''futimes'', 2, Futimes), (''readdir'', 3, Readdir),
     (''readdir_names'', 1, Readdir_names), (''close'', 1, Close), (''ftruncate'', 2, Ftruncate),
     (''fsync'', 1, Fsync), (''path_op'', 4, Path_op), (''path_op2'', 5, Path_op2)]"

text \<open>A call of one of them. Only the unbounded listing may fail to return.\<close>

fun run_fun :: "'w kernel \<Rightarrow> nif_fun \<Rightarrow> eterm list \<Rightarrow> 'w nif \<Rightarrow> (nif_result \<times> 'w nif) option" where
  "run_fun K Open_at argv s = Some (open_at_nif K argv s)"
| "run_fun K Open_dir argv s = Some (open_dir_nif K argv s)"
| "run_fun K Dup argv s = Some (dup_nif K argv s)"
| "run_fun K Pread argv s = Some (pread_nif K argv s)"
| "run_fun K Pwrite argv s = Some (pwrite_nif K argv s)"
| "run_fun K Fstat argv s = Some (fstat_nif K argv s)"
| "run_fun K Futimes argv s = Some (futimes_nif K argv s)"
| "run_fun K Readdir argv s = Some (readdir_nif K argv s)"
| "run_fun K Readdir_names argv s = readdir_names_nif K argv s"
| "run_fun K Close argv s = Some (close_nif K argv s)"
| "run_fun K Ftruncate argv s = Some (ftruncate_nif K argv s)"
| "run_fun K Fsync argv s = Some (fsync_nif K argv s)"
| "run_fun K Path_op argv s = Some (path_op_nif K argv s)"
| "run_fun K Path_op2 argv s = Some (path_op2_nif K argv s)"

text \<open>
  What happens to the state: a call, or the collection of a handle nobody refers to, which runs its
  destructor. A run is \<open>None\<close> when one of its calls does not return.
\<close>

datatype event = Call nif_fun "eterm list" | Collect nat

fun event_step :: "'w kernel \<Rightarrow> event \<Rightarrow> 'w nif \<Rightarrow> 'w nif option" where
  "event_step K (Call f argv) s = map_option snd (run_fun K f argv s)"
| "event_step K (Collect i) s = Some (if live s i then file_dtor K i s else s)"

fun run :: "'w kernel \<Rightarrow> event list \<Rightarrow> 'w nif \<Rightarrow> 'w nif option" where
  "run K [] s = Some s"
| "run K (e # es) s = (case event_step K e s of None \<Rightarrow> None | Some s' \<Rightarrow> run K es s')"

definition loaded :: "'w \<Rightarrow> 'w audit nif" where
  "loaded w = \<lparr>kern = fresh_audit w, handles = []\<rparr>"

subsection \<open>The books survive every call\<close>

text \<open>The exception: a \<^verbatim>\<open>path_op\<close> that follows its last component, which \<open>Nif_Defects\<close> looks at.\<close>

fun harmless :: "nif_fun \<Rightarrow> eterm list \<Rightarrow> bool" where
  "harmless Path_op argv = no_follow argv"
| "harmless f argv = True"

context nif_ops begin

lemma run_fun_books:
  assumes "run_fun A f argv s = Some (r, s')" and "books None F D s" and "placed s"
    and "harmless f argv" and "\<And>w. fst (mutex_create K w)"
    and "f = Open_dir \<Longrightarrow> roots_allowed"
    and "\<And>a b c d. f = Open_at \<Longrightarrow> argv = [a, b, c, d] \<Longrightarrow> get_resource s a \<noteq> None \<or> roots_allowed"
  shows "books None F D s'"
proof (cases f)
  case Open_at
  with assms show ?thesis by (auto intro: open_at_nif_books)
next
  case Open_dir
  with assms show ?thesis by (auto intro: open_dir_nif_books simp: roots_allowed_def)
next
  case Path_op
  with assms show ?thesis by (auto intro: path_op_nif_books)
next
  case Path_op2
  with assms show ?thesis by (auto intro: path_op2_nif_books)
qed (use assms in \<open>auto intro: dup_nif_books pread_nif_books pwrite_nif_books fstat_nif_books
      futimes_nif_books readdir_nif_books readdir_names_nif_books close_nif_books ftruncate_nif_books
      fsync_nif_books\<close>)

end

context directories begin

lemma guest_run_fun:
  assumes "run_fun (audited (sandbox K V R) K) f argv s = Some (r, s')" and "in_order s"
    and "\<And>i g. live s i \<Longrightarrow> h_fd (handle s i) = Some g \<Longrightarrow> inside V R g 0 (world (kern s))"
    and "harmless f argv" and "f \<noteq> Open_dir"
    and "\<And>a b c d. f = Open_at \<Longrightarrow> argv = [a, b, c, d] \<Longrightarrow> get_resource s a \<noteq> None"
    and "\<And>w. fst (mutex_create K w)"
  shows "in_order s'"
  using guest.run_fun_books [OF assms(1) assms(2) [unfolded in_order_def] _ assms(4,7)] assms(3,5,6)
  by (auto simp: in_order_def guest.placed_def)

end

lemma free_run_fun_books:
  assumes "run_fun (audited (\<lambda>_ _. True) K) f argv s = Some (r, s')" and "in_order s"
    and "harmless f argv" and "\<And>w. fst (mutex_create K w)"
  shows "in_order s'"
  using free.run_fun_books [OF assms(1) assms(2) [unfolded in_order_def] _ assms(3,4)]
  by (simp add: in_order_def free.placed_def free.roots_allowed_def)

fun harmless_event :: "event \<Rightarrow> bool" where
  "harmless_event (Call f argv) = harmless f argv"
| "harmless_event (Collect i) = True"

lemma event_step_in_order:
  assumes "event_step (audited (\<lambda>_ _. True) K) e s = Some s'" and "in_order s"
    and "harmless_event e" and "\<And>w. fst (mutex_create K w)"
  shows "in_order s'"
proof (cases e)
  case (Call f argv)
  with assms show ?thesis by (auto intro: free_run_fun_books)
next
  case (Collect i)
  with assms show ?thesis
    by (auto simp: in_order_def live_def intro: unbound.file_dtor_books split: if_splits)
qed

lemma loaded_in_order: "in_order (loaded w)"
  by (simp add: in_order_def books_def loaded_def fresh_audit_def handles_ok_def)

lemma run_in_order:
  assumes "run (audited (\<lambda>_ _. True) K) es t = Some s" and "in_order t"
    and "list_all harmless_event es" and "\<And>w. fst (mutex_create K w)"
  shows "in_order s"
  using assms(1-3)
  by (induction es arbitrary: t)
    (auto split: option.splits intro: event_step_in_order [OF _ _ _ assms(4)])

subsection \<open>Returning\<close>

lemma run_fun_returns: "f \<noteq> Readdir_names \<Longrightarrow> \<exists>r s'. run_fun K f argv s = Some (r, s')"
  by (cases f) (auto simp: prod_eq_iff intro: prod.collapse)

lemma run_returns:
  "(\<And>argv. Call Readdir_names argv \<notin> set es) \<Longrightarrow> \<exists>s'. run K es s = Some s'"
proof (induction es arbitrary: s)
  case (Cons e es)
  have "\<exists>s1. event_step K e s = Some s1"
  proof (cases e)
    case (Call f argv)
    with Cons.prems [of argv] have "f \<noteq> Readdir_names" by auto
    with Call run_fun_returns [of f K argv s] show ?thesis by auto
  qed simp
  with Cons show ?case by auto
qed simp

text \<open>A run to look at: grant the root, open a file, read it, list the root, duplicate, close, collect.\<close>

definition text_arg :: "string \<Rightarrow> eterm" where
  "text_arg s = TList (map (\<lambda>c. TInt (of_char c)) s)"

definition demo :: "event list" where
  "demo =
    [Call Open_dir [text_arg ''/''],
     Call Open_at [TRes 0, TBin (bytes_of ''a/u''), TInt 0, TInt 1],
     Call Pread [TRes 1, TInt 1, TInt 3],
     Call Readdir [TRes 0, TInt 0, TInt 64],
     Call Dup [TRes 0],
     Call Path_op [TRes 0, TBin (bytes_of ''a/b''), TInt OP_STAT, TBin []],
     Call Close [TRes 1], Collect 2]"

lemma demo_harmless: "list_all harmless_event demo"
  by (simp add: demo_def no_follow_def)

lemma demo_returns: "\<exists>s. run K demo s0 = Some s"
  by (rule run_returns) (simp add: demo_def)

subsection \<open>The properties\<close>



text \<open>
  When every handle of such a run has been closed or collected, the NIF holds no descriptor and
  no directory stream: closing a handle also closes the stream that listing it opened.
\<close>

lemma all_closed_holds_nothing:
  assumes "run (audited (\<lambda>_ _. True) K) es (loaded w) = Some s"
    and "list_all harmless_event es" and "\<And>w. fst (mutex_create K w)"
    and "\<And>i. i < length (handles s) \<Longrightarrow> h_fd (handles s ! i) = None"
  shows "held (kern s) = {#} \<and> strm (kern s) = {#}"
proof -
  have inv: "in_order s" by (rule run_in_order [OF assms(1) loaded_in_order assms(2,3)])
  have "h_fd h = None \<and> h_dirp h = None" if "h \<in> set (handles s)" for h
    using that inv assms(4) by (auto simp: in_order_def books_def handles_ok_def in_set_conv_nth)
  then have "owned_by h_fd (handles s) = {#}" "owned_by h_dirp (handles s) = {#}"
    by (auto intro: owned_by_none)
  with inv show ?thesis by (simp add: in_order_def books_def)
qed

lemma all_closed_holds_nothing_witness:
  "\<exists>s. run (audited (\<lambda>_ _. True) mem_kernel) [Call Open_dir [text_arg ''/''], Call Close [TRes 0]]
       (loaded (mem_world sample_tree [] [(6, 9)])) = Some s \<and> held (kern s) = {#}"
proof -
  let ?es = "[Call Open_dir [text_arg ''/''], Call Close [TRes 0]]"
  let ?w = "mem_world sample_tree [] [(6, 9)]"
  have "map_option handles (run (audited (\<lambda>_ _. True) mem_kernel) ?es (loaded ?w))
      = Some [\<lparr>h_lock = Unlocked, h_fd = None, h_is_dir = True, h_dirp = None\<rparr>]"
    by (simp add: loaded_def open_dir_nif_def close_nif_def audited_def mem_kernel_def text_arg_def MAX_PATH_LEN_def
        cstr_def sys_def on_base_eq give_fd_def mem_world_def fresh_audit_def finish_open_def new_handle_def
        Let_def upd_handle_def handle_def sys_do_def mutex_lock_def mutex_unlock_def drop_fd_def drop_dirp_def)
  then obtain s where s: "run (audited (\<lambda>_ _. True) mem_kernel) ?es (loaded ?w) = Some s"
      "handles s = [\<lparr>h_lock = Unlocked, h_fd = None, h_is_dir = True, h_dirp = None\<rparr>]" by auto
  with all_closed_holds_nothing [OF s(1)] show ?thesis by (simp add: mem_kernel_def)
qed



text \<open>
  \<^verbatim>\<open>close\<close> gives up the stream and then the descriptor, whichever there is, and keeps the handle; a
  second \<^verbatim>\<open>close\<close> of the handle makes no system call and answers \<^verbatim>\<open>ok\<close> as well.
\<close>

lemma close_idempotent:
  assumes "live s i" and "close_nif K [TRes i] s = (r, s1)"
  shows "r = Term atom_ok \<and> live s1 i \<and> h_fd (handle s1 i) = None \<and> h_dirp (handle s1 i) = None
    \<and> fst (close_nif K [TRes i] s1) = Term atom_ok \<and> kern (snd (close_nif K [TRes i] s1)) = kern s1"
proof -
  have i: "i < length (handles s)" using assms(1) by (simp add: live_def)
  have res: "get_resource t (TRes i) = Some i" if "live t i" for t :: "'a nif" using that by (simp add: live_def)
  have again: "close_nif K [TRes i] t = (Term atom_ok, mutex_unlock i (mutex_lock i t))"
    if "live t i" "h_fd (handle t i) = None" "h_dirp (handle t i) = None" for t :: "'a nif"
    using that res [of t] by (simp add: close_nif_def drop_fd_def drop_dirp_def del: get_resource.simps)
  have r: "r = Term atom_ok" "s1 = mutex_unlock i (drop_fd K i (drop_dirp K i (mutex_lock i s)))"
    using assms(2) res [OF assms(1)] by (simp_all add: close_nif_def del: get_resource.simps)
  have closed: "h_fd (handle s1 i) = None" "h_dirp (handle s1 i) = None" "live s1 i"
    using i unfolding r
    by (auto simp: live_def handle_def drop_fd_def drop_dirp_def mutex_lock_def mutex_unlock_def
        split: option.splits)
  with again [of s1] r show ?thesis by simp
qed

lemma close_idempotent_witness:
  "fst (close_nif mem_kernel [TRes 0] (snd (close_nif mem_kernel [TRes 0]
     \<lparr>kern = sample, handles = [\<lparr>h_lock = Unlocked, h_fd = Some 7, h_is_dir = True, h_dirp = None\<rparr>]\<rparr>)))
   = Term atom_ok"
  using close_idempotent [OF _ prod.collapse [symmetric], of
      "\<lparr>kern = sample, handles = [\<lparr>h_lock = Unlocked, h_fd = Some 7, h_is_dir = True, h_dirp = None\<rparr>]\<rparr>" 0 mem_kernel]
  by (simp add: live_def)



end
