(* ===== verification/Nif_Formats.thy ===== *)
theory Nif_Formats
  imports Nif_Io Nif_Mem
begin

text \<open>
  The formats the NIF shares with \<^verbatim>\<open>wasi_fs\<close>, and what single functions answer: the error names and the
  codes the guest sees, the timestamps on their way down and up, the chunk limit of reads and writes,
  and the errors of \<^verbatim>\<open>fsync\<close> that are none.
\<close>

subsection \<open>Errors\<close>

text \<open>The table read backwards; \<open>named\<close> are the errors that have a name.\<close>

definition code_errno :: "(nat \<times> walk_err) list" where
  "code_errno =
    [(76, E_REFUSED), (44, Errno ENOENT), (20, Errno EEXIST), (2, Errno EACCES), (31, Errno EISDIR),
     (54, Errno ENOTDIR), (55, Errno ENOTEMPTY), (32, Errno ELOOP), (63, Errno EPERM), (8, Errno EBADF),
     (70, Errno ESPIPE), (28, Errno EINVAL), (6, Errno EAGAIN), (21, Errno EFAULT), (33, Errno EMFILE),
     (41, Errno ENFILE), (10, Errno EBUSY), (22, Errno EFBIG), (60, Errno ENXIO), (48, Errno ENOMEM),
     (51, Errno ENOSPC), (52, Errno ENOSYS), (58, Errno ENOTSUP), (64, Errno EPIPE), (69, Errno EROFS),
     (75, Errno EXDEV), (37, Errno ENAMETOOLONG), (29, Errno EIO)]"

fun named :: "walk_err \<Rightarrow> bool" where
  "named (Errno (Eother n)) = False"
| "named e = True"

lemma code_errno_inverse: "named e \<Longrightarrow> map_of code_errno (the (wasi_code (mk_errno e))) = Some e"
  by (cases e rule: named.cases) (simp_all add: map_posix_table_def code_errno_def)

lemma wasi_code_some: "\<exists>c. wasi_code (mk_errno e) = Some c"
  by (cases e) auto



subsection \<open>Timestamps\<close>

text \<open>What a request asks for a stamp: leave it alone, or a time in nanoseconds.\<close>

definition stamp :: "'w kernel \<Rightarrow> nat option \<Rightarrow> timespec" where
  "stamp K t = (case t of
       None \<Rightarrow> \<lparr>tv_sec = 0, tv_nsec = UTIME_OMIT K\<rparr>
     | Some n \<Rightarrow> \<lparr>tv_sec = int (n div 1000000000), tv_nsec = int (n mod 1000000000)\<rparr>)"

lemma sint_small: "n < 2 ^ 63 \<Longrightarrow> sint (of_nat n :: u64) = int n"
  by (simp add: sint_uint unsigned_of_nat take_bit_nat_eq_self signed_take_bit_int_eq_self)

lemma length_ts_bytes [simp]: "length (ts_bytes t) = 16"
  by (simp add: ts_bytes_def split: option.splits)

lemma ts_bytes_fields:
  "get_le (take 8 (ts_bytes t @ x)) = (case t of None \<Rightarrow> 0 :: u64 | Some n \<Rightarrow> of_nat (n div 1000000000))"
  "get_le (take 8 (drop 8 (ts_bytes t @ x))) = (case t of None \<Rightarrow> 0 :: u64 | Some n \<Rightarrow> of_nat (n mod 1000000000))"
  by (simp_all add: ts_bytes_def get_put_le split: option.splits)

lemma stamp_parts:
  assumes "\<And>n. t = Some n \<Longrightarrow> n < 2 ^ 64"
  shows "(if t = None then \<lparr>tv_sec = 0, tv_nsec = UTIME_OMIT K\<rparr>
     else \<lparr>tv_sec = sint (get_le (take 8 (ts_bytes t @ x)) :: u64),
           tv_nsec = sint (get_le (take 8 (drop 8 (ts_bytes t @ x))) :: u64)\<rparr>) = stamp K t"
proof (cases t)
  case (Some n)
  have "n div 1000000000 < 2 ^ 63" using assms [OF Some] by simp
  moreover have "n mod 1000000000 < 2 ^ 63" by (rule less_trans [of _ 1000000000]) simp_all
  ultimately show ?thesis
    using sint_small [of "n div 1000000000"] sint_small [of "n mod 1000000000"] Some
      ts_bytes_fields [of t x]
    by (simp add: stamp_def)
qed (simp add: stamp_def)

lemma decode_times_spec:
  assumes "\<And>n. a = Some n \<Longrightarrow> n < 2 ^ 64" and "\<And>n. m = Some n \<Longrightarrow> n < 2 ^ 64"
  shows "decode_times K (times_spec a m) = Some (stamp K a, stamp K m)"
proof -
  let ?mask = "(case a of None \<Rightarrow> 0 | Some _ \<Rightarrow> 1) OR (case m of None \<Rightarrow> 0 | Some _ \<Rightarrow> 2) :: byte"
  have bits: "bit ?mask 0 \<longleftrightarrow> a \<noteq> None" "bit ?mask (Suc 0) \<longleftrightarrow> m \<noteq> None"
    by (simp_all add: bit_simps split: option.splits)
  have d: "drop 17 (?mask # ts_bytes a @ ts_bytes m) = ts_bytes m @ []"
    "drop 25 (?mask # ts_bytes a @ ts_bytes m) = drop 8 (ts_bytes m @ [])"
    by simp_all
  have "decode_stamp K (times_spec a m) 0 = stamp K a"
    using stamp_parts [of a K "ts_bytes m", OF assms(1)]
    by (auto simp: decode_stamp_def times_spec_def bits split: if_splits)
  moreover have "decode_stamp K (times_spec a m) 1 = stamp K m"
    using stamp_parts [of m K "[]", OF assms(2)] d
    by (auto simp: decode_stamp_def times_spec_def bits split: if_splits)
  ultimately show ?thesis by (simp add: decode_times_def times_spec_def)
qed

text \<open>
  C36. The timestamps a guest asks for are the ones the kernel gets: \<^verbatim>\<open>decode_times\<close> reads back what
  \<^verbatim>\<open>wasi_fs:times_spec\<close> wrote, and a stamp that was left out is \<^verbatim>\<open>UTIME_OMIT\<close>.
\<close>

theorem times_roundtrip:
  assumes "\<And>n. a = Some n \<Longrightarrow> n < 2 ^ 64" and "\<And>n. m = Some n \<Longrightarrow> n < 2 ^ 64"
  shows "decode_times K (times_spec a m) = Some (stamp K a, stamp K m)"
  by (rule decode_times_spec [OF assms])

theorem times_roundtrip_witness:
  "decode_times mem_kernel (times_spec (Some 1700000000123456789) None)
    = Some (\<lparr>tv_sec = 1700000000, tv_nsec = 123456789\<rparr>, \<lparr>tv_sec = 0, tv_nsec = 1073741822\<rparr>)"
  using times_roundtrip [of "Some 1700000000123456789" None mem_kernel]
  by (simp add: stamp_def mem_kernel_def)

text \<open>
  A stat reports times as 64-bit nanoseconds: the sum of seconds and nanoseconds modulo $2^{64}$,
  so exactly the time when it is not before 1970 and fits.
\<close>

lemma stat_nsec_value:
  "uint (stat_nsec t) = (tv_sec t * 1000000000 + tv_nsec t) mod 2 ^ 64"
proof -
  have "stat_nsec t = word_of_int (tv_sec t * 1000000000 + tv_nsec t)" by (simp add: stat_nsec_def)
  then show ?thesis by (simp only: uint_word_of_int) simp
qed

text \<open>
  A timestamp survives the trip down and up: what a guest sets in nanoseconds is what it reads back
  from a file system that keeps nanoseconds.
\<close>

lemma times_read_back:
  assumes "n < 2 ^ 64" and "decode_times K (times_spec (Some n) m) = Some (a, b)"
    and "\<And>n. m = Some n \<Longrightarrow> n < 2 ^ 64"
  shows "uint (stat_nsec a) = int n"
proof -
  have "decode_times K (times_spec (Some n) m) = Some (stamp K (Some n), stamp K m)"
    using assms(1,3) by (intro times_roundtrip) auto
  with assms(2) have a: "a = stamp K (Some n)" by simp
  have "int (n div 1000000000) * 1000000000 + int (n mod 1000000000) = int n"
    by (metis div_mult_mod_eq of_nat_add of_nat_mult of_nat_numeral)
  with assms(1) show ?thesis by (simp add: a stamp_def stat_nsec_value)
qed

lemma times_read_back_witness:
  "uint (stat_nsec (fst (the (decode_times mem_kernel (times_spec (Some 1700000000123456789) None)))))
    = 1700000000123456789"
proof -
  obtain a b where "decode_times mem_kernel (times_spec (Some 1700000000123456789) None) = Some (a, b)"
    using times_roundtrip [of "Some 1700000000123456789" None mem_kernel] by simp
  with times_read_back [OF _ this] show ?thesis by simp
qed

subsection \<open>Reading, writing, syncing\<close>

text \<open>
  A read answers at most what was asked for and at most 1 MiB, on a kernel whose \<^verbatim>\<open>pread\<close> does not
  write past the buffer; an empty read is \<^verbatim>\<open>eof\<close> and never an empty binary.
\<close>

lemma pread_bounded:
  assumes "\<And>f n off w bs w'. sys_pread K f n off w = (Inr bs, w') \<Longrightarrow> length bs \<le> n"
    and "pread_nif K [a, b, TInt n] s = (Term (mk_ok (TBin bs)), s')"
  shows "bs \<noteq> [] \<and> length bs \<le> nat n \<and> length bs \<le> MAX_IO_CHUNK"
proof -
  let ?n = "if nat n > MAX_IO_CHUNK then MAX_IO_CHUNK else nat n"
  obtain i off where args: "get_resource s a = Some i" "get_int64 b = Some off" "0 \<le> n" "n < 2 ^ 64"
    using assms(2) by (auto simp: pread_nif_def split: option.splits if_splits)
  obtain q s1 where al: "sys (alloc_binary K ?n) s = (q, s1)" by (cases "sys (alloc_binary K ?n) s")
  obtain r s2 where lc: "locked_call i (\<lambda>fd. sys_pread K fd ?n off) s1 = (r, s2)"
    by (cases "locked_call i (\<lambda>fd. sys_pread K fd ?n off) s1")
  have r: "r = Inr bs" "bs \<noteq> []"
    using assms(2) args al lc
    by (cases q; cases r; auto simp: pread_nif_def Let_def mk_ok_def split: if_splits)+
  obtain fd t where "sys (sys_pread K fd ?n off) t = (Inr bs, snd (sys (sys_pread K fd ?n off) t))"
    using lc r(1) by (auto simp: locked_call_def prod_eq_iff split: prod.splits sum.splits) 
  then have "length bs \<le> ?n" using assms(1) by (auto simp: sys_eq)
  with r(2) show ?thesis by (auto split: if_splits)
qed

text \<open>A state with one handle on descriptor 7, over a file or a directory.\<close>

definition one_handle :: "mem \<Rightarrow> mem nif" where
  "one_handle w = \<lparr>kern = w, handles = [\<lparr>h_lock = Unlocked, h_fd = Some 7, h_is_dir = True, h_dirp = None\<rparr>]\<rparr>"

definition sample_file :: mem where
  "sample_file = mem_world sample_tree [] [(7, 3)]"

lemmas io_eval = one_handle_def sample_file_def sample_simps
  MAX_IO_CHUNK_def locked_call_def handle_lock_def mutex_lock_def mutex_unlock_def upd_handle_def
  handle_def sys_def

lemma pread_bounded_witness:
  "fst (pread_nif mem_kernel [TRes 0, TInt 1, TInt 3] (one_handle sample_file)) = Term (mk_ok (TBin (bytes_of ''ell'')))
    \<and> length (bytes_of ''ell'') \<le> MAX_IO_CHUNK"
proof
  show eq: "fst (pread_nif mem_kernel [TRes 0, TInt 1, TInt 3] (one_handle sample_file))
      = Term (mk_ok (TBin (bytes_of ''ell'')))"
    by (simp add: pread_nif_def io_eval mem_pread_def mem_node_def)
  have "length bs \<le> n" if "sys_pread mem_kernel f n off w = (Inr bs, w')" for f n off w bs w'
    using that by (auto simp: mem_kernel_def mem_pread_def split: sum.splits mnode.splits if_splits)
  from pread_bounded [of mem_kernel "TRes 0" "TInt 1" 3 "one_handle sample_file" "bytes_of ''ell''"
      "snd (pread_nif mem_kernel [TRes 0, TInt 1, TInt 3] (one_handle sample_file))", OF this] eq
  show "length (bytes_of ''ell'') \<le> MAX_IO_CHUNK" by (simp add: prod_eq_iff)
qed

text \<open>
  A write hands the kernel at most the first 1 MiB of the data, so it answers that many bytes at
  most, and never more than the data has, on a kernel whose \<^verbatim>\<open>pwrite\<close> counts what it was given.
\<close>

lemma pwrite_bounded:
  assumes "\<And>f bs off w n w'. sys_pwrite K f bs off w = (Inr n, w') \<Longrightarrow> n \<le> length bs"
    and "pwrite_nif K [a, b, TBin data] s = (Term (mk_ok (TInt n)), s')"
  shows "0 \<le> n \<and> n \<le> int (length data) \<and> n \<le> int MAX_IO_CHUNK"
proof -
  let ?n = "if length data > MAX_IO_CHUNK then MAX_IO_CHUNK else length data"
  obtain i off where args: "get_resource s a = Some i" "get_int64 b = Some off"
    using assms(2) by (auto simp: pwrite_nif_def split: option.splits)
  obtain r s2 where lc: "locked_call i (\<lambda>fd. sys_pwrite K fd (take ?n data) off) s = (r, s2)"
    by (cases "locked_call i (\<lambda>fd. sys_pwrite K fd (take ?n data) off) s")
  obtain k where r: "r = Inr k" "n = int k"
    using assms(2) args lc by (cases r; auto simp: pwrite_nif_def Let_def mk_ok_def split: if_splits)+
  obtain fd t where "sys (sys_pwrite K fd (take ?n data) off) t
      = (Inr k, snd (sys (sys_pwrite K fd (take ?n data) off) t))"
    using lc r(1) by (auto simp: locked_call_def prod_eq_iff split: prod.splits sum.splits)
  then have "k \<le> length (take ?n data)" unfolding sys_eq by (blast intro: assms(1))
  with r(2) show ?thesis by (auto split: if_splits)
qed

lemma pwrite_bounded_witness:
  "fst (pwrite_nif (mem_kernel\<lparr>sys_pwrite := \<lambda>f bs off w. (Inr (length bs), w)\<rparr>) [TRes 0, TInt 0, TBin (bytes_of ''abc'')]
      (one_handle sample_file)) = Term (mk_ok (TInt 3)) \<and> (3 :: int) \<le> int MAX_IO_CHUNK"
proof
  let ?K = "mem_kernel\<lparr>sys_pwrite := \<lambda>f bs off w. (Inr (length bs), w)\<rparr>"
  show eq: "fst (pwrite_nif ?K [TRes 0, TInt 0, TBin (bytes_of ''abc'')] (one_handle sample_file))
      = Term (mk_ok (TInt 3))"
    by (simp add: pwrite_nif_def io_eval)
  from pwrite_bounded [of ?K "TRes 0" "TInt 0" "bytes_of ''abc''" "one_handle sample_file" 3
      "snd (pwrite_nif ?K [TRes 0, TInt 0, TBin (bytes_of ''abc'')] (one_handle sample_file))"] eq
  show "(3 :: int) \<le> int MAX_IO_CHUNK" by (simp add: prod_eq_iff)
qed

text \<open>
  \<^verbatim>\<open>fsync\<close> of an open handle fails exactly when the kernel has something to flush and could not:
  an EINVAL or ENOTSUP of the call (a pipe, a socket) is \<^verbatim>\<open>ok\<close>, any other error is answered as it is, and
  the handle is unlocked either way.
\<close>

lemma fsync_answers:
  assumes "live s i" and "h_fd (handle s i) = Some f"
    and "sys_fsync K f (kern s) = (r, w)"
  shows "fst (fsync_nif K [TRes i] s) = (case r of
      Inr _ \<Rightarrow> Term atom_ok | Inl e \<Rightarrow> if e \<in> {EINVAL, ENOTSUP} then Term atom_ok else err e)
    \<and> kern (snd (fsync_nif K [TRes i] s)) = w
    \<and> h_lock (handle (snd (fsync_nif K [TRes i] s)) i) = Unlocked"
proof -
  have i: "i < length (handles s)" "get_resource s (TRes i) = Some i" using assms(1) by (auto simp: live_def)
  have "handle_lock i s = (Inr f, mutex_lock i s)" using assms(1,2) by (simp add: handle_lock_def)
  moreover have "sys (sys_fsync K f) (mutex_lock i s) = (r, (mutex_lock i s)\<lparr>kern := w\<rparr>)"
    using assms(3) by (simp add: sys_def)
  ultimately have "fsync_nif K [TRes i] s = ((case r of
      Inr _ \<Rightarrow> Term atom_ok | Inl e \<Rightarrow> if e \<in> {EINVAL, ENOTSUP} then Term atom_ok else err e),
      mutex_unlock i ((mutex_lock i s)\<lparr>kern := w\<rparr>))"
    using i by (cases r) (auto simp: fsync_nif_def simp del: get_resource.simps)
  with i(1) show ?thesis by (simp add: handle_def mutex_unlock_def mutex_lock_def)
qed

lemma fsync_answers_witness:
  "fst (fsync_nif mem_kernel [TRes 0] (one_handle sample_file)) = Term atom_ok"
proof -
  have "live (one_handle sample_file) 0" "h_fd (handle (one_handle sample_file) 0) = Some 7"
    "sys_fsync mem_kernel 7 (kern (one_handle sample_file)) = (Inl EINVAL, sample_file)"
    by (simp_all add: live_def handle_def one_handle_def mem_kernel_def)
  from fsync_answers [OF this] show ?thesis by simp
qed

end
