(* ===== verification/Nif_Types.thy ===== *)
theory Nif_Types
  imports Nif_Calls Nif_Formats
begin

text \<open>
  The types of the NIF's functions: \<open>answers f s t\<close> says that \<open>t\<close> is a result that the callers of \<open>f\<close>
  in \<^verbatim>\<open>wasi_fs\<close> know how to take apart, in the state \<open>s\<close> after the call, and \<open>accepts s f argv\<close> that
  the arguments are what \<open>f\<close> is made for. Every result is of its function's type, and a call with
  arguments of their types is never \<^verbatim>\<open>badarg\<close>.
\<close>

subsection \<open>Results\<close>

text \<open>\<^verbatim>\<open>{error, Name}\<close> or \<^verbatim>\<open>{error, {unknown_errno, N}}\<close>.\<close>

fun is_reason :: "eterm \<Rightarrow> bool" where
  "is_reason (Atom a) = (a \<in> fst ` set map_posix_table \<or> a = ''eio'')"
| "is_reason (TTuple [Atom a, TInt n]) = (a = ''unknown_errno'')"
| "is_reason _ = False"

fun is_error :: "eterm \<Rightarrow> bool" where
  "is_error (TTuple [Atom a, e]) = (a = ''error'' \<and> is_reason e)"
| "is_error _ = False"

text \<open>\<^verbatim>\<open>{ok, V}\<close> with a \<open>V\<close> of some kind.\<close>

fun is_ok_of :: "(eterm \<Rightarrow> bool) \<Rightarrow> eterm \<Rightarrow> bool" where
  "is_ok_of P (TTuple [Atom a, v]) = (a = ''ok'' \<and> P v)"
| "is_ok_of P _ = False"

fun is_bin :: "eterm \<Rightarrow> bool" where
  "is_bin (TBin b) = True"
| "is_bin _ = False"

fun is_handle :: "'w nif \<Rightarrow> eterm \<Rightarrow> bool" where
  "is_handle s (TRes i) = (live s i \<and> h_fd (handle s i) \<noteq> None)"
| "is_handle s _ = False"

fun is_stat :: "eterm \<Rightarrow> bool" where
  "is_stat (TMap kvs) =
     (map fst kvs = map Atom [''size'', ''type'', ''inode'', ''dev'', ''nlink'', ''atim'', ''mtim'', ''ctim'']
      \<and> (\<forall>(k, v) \<in> set kvs. case v of
           Atom a \<Rightarrow> k = Atom ''type'' \<and> a \<in> {''directory'', ''regular'', ''symlink'', ''other''}
         | TInt n \<Rightarrow> k \<noteq> Atom ''type'' \<and> (k = Atom ''size'' \<or> 0 \<le> n \<and> n < 2 ^ 64)
         | _ \<Rightarrow> False))"
| "is_stat _ = False"

fun answers :: "nif_fun \<Rightarrow> 'w nif \<Rightarrow> eterm \<Rightarrow> bool" where
  "answers Open_at s t = (is_ok_of (is_handle s) t \<or> is_error t)"
| "answers Open_dir s t = (is_ok_of (is_handle s) t \<or> is_error t)"
| "answers Dup s t = (is_ok_of (is_handle s) t \<or> is_error t)"
| "answers Pread s t = (is_ok_of (\<lambda>v. is_bin v \<and> v \<noteq> TBin []) t \<or> t = Atom ''eof'' \<or> is_error t)"
| "answers Pwrite s t = (is_ok_of (\<lambda>v. \<exists>n. v = TInt n \<and> n \<ge> 0) t \<or> is_error t)"
| "answers Fstat s t = (is_ok_of is_stat t \<or> is_error t)"
| "answers Readdir s t = (is_ok_of is_bin t \<or> is_error t)"
| "answers Readdir_names s t = (is_ok_of (\<lambda>v. \<exists>l. v = TList l \<and> list_all is_bin l) t \<or> is_error t)"
| "answers Close s t = (t = atom_ok)"
| "answers Path_op s t = (t = atom_ok \<or> is_ok_of (\<lambda>v. is_bin v \<or> is_stat v) t \<or> is_error t)"
| "answers Futimes s t = (t = atom_ok \<or> is_error t)"
| "answers Ftruncate s t = (t = atom_ok \<or> is_error t)"
| "answers Fsync s t = (t = atom_ok \<or> is_error t)"
| "answers Path_op2 s t = (t = atom_ok \<or> is_error t)"

fun result_ok :: "nif_fun \<Rightarrow> 'w nif \<Rightarrow> nif_result \<Rightarrow> bool" where
  "result_ok f s Badarg = True"
| "result_ok f s (Term t) = answers f s t"

declare mk_errno.simps [simp del]

lemma error_shape [simp]: "is_error (mk_errno e)"
proof (cases e)
  case (Errno n)
  then show ?thesis by (cases n) (simp_all add: map_posix_table_def mk_errno.simps)
qed (simp add: map_posix_table_def mk_errno.simps)

lemma error_answers [simp]: "f \<noteq> Close \<Longrightarrow> answers f s (mk_errno e)"
  by (cases f) auto

lemma ok_shape [simp]: "is_ok_of P (mk_ok v) \<longleftrightarrow> P v"
  by (simp add: mk_ok_def)

lemma stat_shape [simp]: "is_stat (stat_map st)"
proof -
  have u: "0 \<le> uint v \<and> uint v < 2 ^ 64" for v :: u64
    using uint_lt2p [of v] by simp
  show ?thesis using u by (cases "st_mode st") (auto simp: stat_map_def u64_term_def)
qed

lemma finish_open_shape:
  assumes "finish_open K g d s = (r, s')" and "f = Open_at \<or> f = Open_dir \<or> f = Dup"
  shows "result_ok f s' r \<and> r \<noteq> Badarg"
proof -
  obtain o1 s1 where new: "new_handle K g d s = (o1, s1)" by (cases "new_handle K g d s")
  show ?thesis
  proof (cases o1)
    case None
    with assms new show ?thesis by (auto simp: finish_open_def)
  next
    case (Some i)
    with new have "is_handle s1 (TRes i)"
      by (auto simp: new_handle_def Let_def live_def handle_def upd_handle_def sys_eq split: prod.splits bool.splits)
    with assms new Some show ?thesis by (auto simp: finish_open_def)
  qed
qed

lemma names_loop_shape:
  assumes "names_loop K d l w = Some y" and "list_all is_bin l"
  shows "list_all is_bin (fst y)"
  using assms
proof (induction K d l w y rule: names_loop.raw_induct [rotated, consumes 1])
  case (1 loop K d l w y)
  obtain r w1 where rd: "sys_readdir K d w = (r, w1)" by (cases "sys_readdir K d w")
  with 1 show ?case by (cases r) (auto split: option.splits)
qed

text \<open>The functions one by one. The openers and the two listings are the ones with a case of their own.\<close>

lemma open_base_shape: "open_base K a0 s = (Inl r, s') \<Longrightarrow> r = Badarg \<or> (\<exists>e. r = err e)"
  by (auto simp: open_base_def split: option.splits prod.splits sum.splits)

lemma open_at_shape: "open_at_nif K argv s = (r, s') \<Longrightarrow> result_ok Open_at s' r"
proof (cases "\<exists>a b c d. argv = [a, b, c, d]")
  case True
  assume eq: "open_at_nif K argv s = (r, s')"
  from True obtain a b c d where argv: "argv = [a, b, c, d]" by blast
  obtain q s1 where "open_base K a s = (q, s1)" by (cases "open_base K a s")
  with eq argv show ?thesis
    by (cases q)
      (auto simp: open_at_nif_def dest: open_base_shape finish_open_shape [of _ _ _ _ _ _ Open_at]
        split: option.splits prod.splits sum.splits if_splits)
qed (auto simp: open_at_nif_def split: list.splits)

lemma open_dir_shape: "open_dir_nif K argv s = (r, s') \<Longrightarrow> result_ok Open_dir s' r"
  by (auto simp: open_dir_nif_def dest: finish_open_shape [of _ _ _ _ _ _ Open_dir]
      split: list.splits option.splits prod.splits sum.splits)

lemma dup_shape: "dup_nif K argv s = (r, s') \<Longrightarrow> result_ok Dup s' r"
  by (auto simp: dup_nif_def Let_def dest: finish_open_shape [of _ _ _ _ _ _ Dup]
      split: list.splits option.splits prod.splits sum.splits)

lemma io_shapes:
  "pread_nif K argv s = (r, s') \<Longrightarrow> result_ok Pread s' r"
  "pwrite_nif K argv s = (r, s') \<Longrightarrow> result_ok Pwrite s' r"
  "fstat_nif K argv s = (r, s') \<Longrightarrow> result_ok Fstat s' r"
  "futimes_nif K argv s = (r, s') \<Longrightarrow> result_ok Futimes s' r"
  "ftruncate_nif K argv s = (r, s') \<Longrightarrow> result_ok Ftruncate s' r"
  "close_nif K argv s = (r, s') \<Longrightarrow> result_ok Close s' r"
  by (auto simp: pread_nif_def pwrite_nif_def fstat_nif_def futimes_nif_def ftruncate_nif_def close_nif_def Let_def
      split: list.splits option.splits prod.splits sum.splits bool.splits if_splits)

lemma fsync_shape: "fsync_nif K argv s = (r, s') \<Longrightarrow> result_ok Fsync s' r"
  by (auto simp: fsync_nif_def split: list.splits option.splits prod.splits sum.splits if_splits)

lemma readdir_shape: "readdir_nif K argv s = (r, s') \<Longrightarrow> result_ok Readdir s' r"
  by (auto simp: readdir_nif_def readdir_batch_def Let_def
      split: list.splits option.splits prod.splits sum.splits bool.splits if_splits)

lemma readdir_names_shape: "readdir_names_nif K argv s = Some (r, s') \<Longrightarrow> result_ok Readdir_names s' r"
  by (auto simp: readdir_names_nif_def Let_def dest!: names_loop_shape
      split: list.splits option.splits prod.splits sum.splits if_splits)

lemma path_act_shape: "path_act K op p n arg w = (q, w') \<Longrightarrow> result_ok Path_op s (reply q)"
  by (auto simp: path_act_def answer_def split: if_splits prod.splits sum.splits option.splits)

lemma path_act2_shape: "path_act2 K op p1 n1 p2 n2 w = (q, w') \<Longrightarrow> result_ok Path_op2 s (reply q)"
  by (auto simp: path_act2_def answer_def split: if_splits prod.splits sum.splits option.splits)

lemma path_op_shape: "path_op_nif K argv s = (r, s') \<Longrightarrow> result_ok Path_op s' r"
  by (auto simp: path_op_nif_def sys_def dest: path_act_shape
      split: list.splits option.splits prod.splits sum.splits if_splits)

lemma path_op2_shape: "path_op2_nif K argv s = (r, s') \<Longrightarrow> result_ok Path_op2 s' r"
  by (auto simp: path_op2_nif_def sys_def Let_def dest: path_act2_shape
      split: list.splits option.splits prod.splits sum.splits if_splits)

lemmas shapes = open_at_shape open_dir_shape dup_shape io_shapes fsync_shape readdir_shape
  readdir_names_shape path_op_shape path_op2_shape

lemma run_fun_shape: "run_fun K f argv s = Some (r, s') \<Longrightarrow> result_ok f s' r"
  by (cases f) (auto dest: shapes simp del: result_ok.simps)

subsection \<open>Arguments\<close>

text \<open>
  A path may be as long as it likes and a descriptor may have been closed: those are errors, not
  \<^verbatim>\<open>badarg\<close>. The operation of a \<^verbatim>\<open>path_op\<close> must be one of the table, and timestamps must be 33 bytes.
\<close>

abbreviation is_int32 :: "int \<Rightarrow> bool" where "is_int32 n \<equiv> - (2 ^ 31) \<le> n \<and> n < 2 ^ 31"
abbreviation is_int64 :: "int \<Rightarrow> bool" where "is_int64 n \<equiv> - (2 ^ 63) \<le> n \<and> n < 2 ^ 63"

definition known_op :: "int \<Rightarrow> bytes \<Rightarrow> bool" where
  "known_op opn arg \<longleftrightarrow>
     opn \<in> {OP_MKDIR, OP_UNLINK, OP_RMDIR, OP_SYMLINK, OP_READLINK, OP_STAT, OP_SETTIMES, OP_STAT_FOLLOW,
       OP_SETTIMES_FOLLOW} \<and> (opn \<in> {OP_SETTIMES, OP_SETTIMES_FOLLOW} \<longrightarrow> length arg = 33)"

inductive accepts :: "'w nif \<Rightarrow> nif_fun \<Rightarrow> eterm list \<Rightarrow> bool" for s :: "'w nif" where
  open_handle: "live s i \<Longrightarrow> is_int32 fl \<Longrightarrow> is_int32 fo \<Longrightarrow> accepts s Open_at [TRes i, TBin rel, TInt fl, TInt fo]"
| open_root: "get_string MAX_PATH_LEN d = Some root \<Longrightarrow> is_int32 fl \<Longrightarrow> is_int32 fo \<Longrightarrow>
    accepts s Open_at [d, TBin rel, TInt fl, TInt fo]"
| open_dir: "get_string MAX_PATH_LEN d = Some root \<Longrightarrow> accepts s Open_dir [d]"
| pread: "live s i \<Longrightarrow> is_int64 off \<Longrightarrow> 0 \<le> n \<Longrightarrow> n < 2 ^ 64 \<Longrightarrow> accepts s Pread [TRes i, TInt off, TInt n]"
| pwrite: "live s i \<Longrightarrow> is_int64 off \<Longrightarrow> accepts s Pwrite [TRes i, TInt off, TBin bs]"
| futimes: "live s i \<Longrightarrow> length ts = 33 \<Longrightarrow> accepts s Futimes [TRes i, TBin ts]"
| readdir: "live s i \<Longrightarrow> 0 \<le> cookie \<Longrightarrow> cookie < 2 ^ 64 \<Longrightarrow> 0 \<le> len \<Longrightarrow> len < 2 ^ 32 \<Longrightarrow>
    accepts s Readdir [TRes i, TInt cookie, TInt len]"
| ftruncate: "live s i \<Longrightarrow> 0 \<le> n \<Longrightarrow> n < 2 ^ 63 \<Longrightarrow> accepts s Ftruncate [TRes i, TInt n]"
| path_op: "live s i \<Longrightarrow> known_op opn arg \<Longrightarrow> accepts s Path_op [TRes i, TBin rel, TInt opn, TBin arg]"
| path_op2: "live s i \<Longrightarrow> live s j \<Longrightarrow> opn \<in> {OP_RENAME, OP_LINK} \<Longrightarrow>
    accepts s Path_op2 [TRes i, TBin r1, TRes j, TBin r2, TInt opn]"
| handle_only: "live s i \<Longrightarrow> f \<in> {Dup, Fstat, Readdir_names, Close, Fsync} \<Longrightarrow> accepts s f [TRes i]"

lemma live_resource: "live s i \<Longrightarrow> get_resource s (TRes i) = Some i"
  by (simp add: live_def)

lemma path_act_known:
  "path_act K opn p n arg w = (q, w') \<Longrightarrow>
known_op opn arg \<Longrightarrow> reply q \<noteq> Badarg"
  by (auto simp: path_act_def known_op_def answer_def decode_times_def split: prod.splits sum.splits)

lemma path_act2_known:
  "path_act2 K opn p1 n1 p2 n2 w = (q, w') \<Longrightarrow> opn \<in> {OP_RENAME, OP_LINK} \<Longrightarrow> reply q \<noteq> Badarg"
  by (auto simp: path_act2_def answer_def split: prod.splits sum.splits)

lemma open_base_known:
  "get_resource s d = Some i \<Longrightarrow> open_base K d s \<noteq> (Inl Badarg, s')"
  "get_string MAX_PATH_LEN d = Some root \<Longrightarrow> open_base K d s \<noteq> (Inl Badarg, s')"
  by (auto simp: open_base_def split: option.splits prod.splits sum.splits)

lemma known_op_int: "known_op opn arg \<Longrightarrow> is_int32 opn"
  by (auto simp: known_op_def)

lemma finish_open_term: "finish_open K g d s \<noteq> (Badarg, s')"
  using finish_open_shape [of K g d s Badarg s' Dup] by blast

lemma accepted_no_badarg:
  assumes "accepts s f argv" and "run_fun K f argv s = Some (r, s')"
  shows "r \<noteq> Badarg"
  using assms
proof (induction rule: accepts.induct)
  case (path_op i opn arg rel)
  then show ?case
    using known_op_int [OF path_op(2)]
    by (auto simp: path_op_nif_def live_resource sys_def simp del: get_resource.simps
        dest: path_act_known split: prod.splits sum.splits if_splits)
next
  case (path_op2 i j opn r1 r2)
  then show ?case
    by (auto simp: path_op2_nif_def live_resource sys_def Let_def simp del: get_resource.simps
        dest: path_act2_known split: prod.splits sum.splits if_splits)
next
  case (readdir i cookie len)
  then show ?case
    by (auto simp: readdir_nif_def readdir_batch_def live_resource Let_def simp del: get_resource.simps
        split: option.splits prod.splits sum.splits bool.splits if_splits)
next
  case (handle_only i f)
  then show ?case
    by (auto simp: dup_nif_def fstat_nif_def readdir_names_nif_def close_nif_def fsync_nif_def finish_open_term
        live_resource Let_def simp del: get_resource.simps
        split: option.splits prod.splits sum.splits if_splits)
qed (auto simp: open_at_nif_def open_dir_nif_def pread_nif_def pwrite_nif_def futimes_nif_def decode_times_def
    ftruncate_nif_def finish_open_term open_base_known live_resource Let_def simp del: get_resource.simps
    split: option.splits prod.splits sum.splits bool.splits if_splits)

subsection \<open>The properties\<close>

text \<open>
  C21. Every function answers a term of its type, on every kernel and for all arguments: a live handle with
  a descriptor, data, a stat map with its eight keys, a list of names, \<^verbatim>\<open>ok\<close>, \<^verbatim>\<open>eof\<close>, or an error whose
  reason is a name that \<^verbatim>\<open>wasi_fs\<close> maps or an unnamed number; or it raises \<^verbatim>\<open>badarg\<close>.
\<close>

theorem results_typed:
  assumes "run_fun K f argv s = Some (r, s')"
  shows "result_ok f s' r"
  by (rule run_fun_shape [OF assms])

theorem results_typed_witness:
  "result_ok Fstat (snd (fstat_nif mem_kernel [TRes 0] (one_handle sample_file)))
     (fst (fstat_nif mem_kernel [TRes 0] (one_handle sample_file)))"
  using results_typed [of mem_kernel Fstat "[TRes 0]" "one_handle sample_file"] by simp

text \<open>
  A call with arguments of the types of its function is never \<^verbatim>\<open>badarg\<close>: whatever the kernel does,
  and whether or not the handle was closed meanwhile, a call that returns answers a term.
\<close>

lemma typed_calls_answer:
  assumes "accepts s f argv" and "run_fun K f argv s = Some (r, s')"
  shows "\<exists>t. r = Term t"
  using accepted_no_badarg [OF assms] by (cases r) auto

lemma typed_calls_answer_witness:
  "\<exists>t. fst (path_op_nif mem_kernel [TRes 0, TBin (bytes_of ''a/b''), TInt OP_STAT, TBin []]
     (one_handle sample_file)) = Term t"
proof -
  have "accepts (one_handle sample_file) Path_op [TRes 0, TBin (bytes_of ''a/b''), TInt OP_STAT, TBin []]"
    by (rule accepts.path_op) (simp_all add: live_def one_handle_def known_op_def)
  from typed_calls_answer [OF this, of mem_kernel] show ?thesis by (simp add: prod_eq_iff)
qed

end
