(* ===== verification/Nif_Frame.thy ===== *)
theory Nif_Frame
  imports Nif_Calls
begin

text \<open>
  The NIF changes the world by its calls and in no other way. A property of the world that every call
  of the kernel keeps is kept by every function of the NIF, for all arguments and in all states. The
  locale \<open>framed\<close> is that contract; \<open>Nif_Runs\<close> gives it the property that makes whole runs safe.
\<close>

definition keeps :: "('w \<Rightarrow> bool) \<Rightarrow> ('w \<Rightarrow> 'r \<times> 'w) \<Rightarrow> bool" where
  "keeps P f \<longleftrightarrow> (\<forall>w. P w \<longrightarrow> P (snd (f w)))"

definition keeps_do :: "('w \<Rightarrow> bool) \<Rightarrow> ('w \<Rightarrow> 'w) \<Rightarrow> bool" where
  "keeps_do P f \<longleftrightarrow> (\<forall>w. P w \<longrightarrow> P (f w))"

locale framed =
  fixes K :: "'w kernel" and P :: "'w \<Rightarrow> bool"
  assumes opens: "keeps P (sys_open K p fl)" "keeps P (sys_openat K d n fl m)" "keeps P (sys_dup K f)"
      "keeps P (sys_fdopendir K f)"
    and closes: "keeps_do P (sys_close K f)" "keeps_do P (sys_closedir K ds)"
    and names: "keeps P (sys_readlinkat K d n k)" "keeps P (sys_mkdirat K d n m)"
      "keeps P (sys_unlinkat K d n rm)" "keeps P (sys_symlinkat K t d n)" "keeps P (sys_renameat K d n d' n')"
      "keeps P (sys_linkat K d n d' n')" "keeps P (sys_fstatat K d n)" "keeps P (sys_utimensat K d n ts)"
    and files: "keeps P (sys_fstat K f)" "keeps P (sys_futimens K f ts)" "keeps P (sys_pread K f len off)"
      "keeps P (sys_pwrite K f bs off)" "keeps P (sys_ftruncate K f newlen)" "keeps P (sys_fsync K f)"
    and streams: "keeps_do P (sys_rewinddir K ds)" "keeps_do P (sys_seekdir K ds c)" "keeps P (sys_telldir K ds)"
      "keeps P (sys_readdir K ds)" "keeps P (sys_dirstat K ds n)"
    and memory: "keeps P (alloc_resource K)" "keeps P (mutex_create K)" "keeps P (alloc_binary K len)"
      "keeps P (alloc K len)"
begin

lemmas calls = opens closes names files streams memory

lemmas kept [simp] = calls [unfolded keeps_def keeps_do_def, rule_format]

subsection \<open>The walk\<close>

definition walk_kept :: "nat \<Rightarrow> bool" where
  "walk_kept b \<longleftrightarrow> (\<forall>d path fl m k ff w. P w \<longrightarrow> P (snd (walk_from K d path fl m k b ff w)))"

lemma step_kept:
  assumes "\<And>b'. b' < b \<Longrightarrow> walk_kept b'" and "P w"
  shows "P (snd (step K d n fl m k b mf w))"
proof -
  have "b \<noteq> 0 \<Longrightarrow> P w' \<Longrightarrow> P (snd (walk_from K d path fl m k (b - 1) True w'))" for path w'
    using assms(1) [of "b - 1"] by (simp add: walk_kept_def)
  with assms(2) show ?thesis by (auto simp: step.simps split_beta split: sum.split)
qed

lemma loop_kept:
  assumes "\<And>b'. b' < b \<Longrightarrow> walk_kept b'" and "P w"
  shows "P (snd (walk_loop K d owned cs fl m k b ff w))"
  using assms(2)
proof (induction cs arbitrary: d owned k w)
  case (Cons n cs)
  then show ?case
    using step_kept [OF assms(1)] by (auto simp: walk_loop_Cons split_beta split: sum.split)
qed (simp add: walk_loop.simps)

lemma walk_kept: "walk_kept b"
proof (induction b rule: less_induct)
  case (less b)
  then show ?case using loop_kept [of b] by (simp add: walk_kept_def walk_from.simps)
qed

lemma walk_from_kept [simp]: "P w \<Longrightarrow> P (snd (walk_from K d path fl m k b ff w))"
  using walk_kept by (simp add: walk_kept_def)

lemma walk_open_kept [simp]: "P w \<Longrightarrow> P (snd (walk_open K d path fl m ff w))"
  by (simp add: walk_open_def split_beta split: sum.split)

lemma parent_loop_kept [simp]: "P w \<Longrightarrow> P (snd (parent_loop K st d owned cs k w))"
proof (induction cs arbitrary: d owned k w)
  case (Cons n cs)
  then show ?case using step_kept [OF walk_kept] by (simp add: split_beta split: sum.split)
qed simp

lemma walk_parent_kept [simp]: "P w \<Longrightarrow> P (snd (walk_parent K d path st sz w))"
  by (simp add: walk_parent_def)

lemma resolve_loop_kept [simp]: "P w \<Longrightarrow> P (snd (resolve_loop K b d owned n w))"
proof (induction b arbitrary: d owned n w)
  case (Suc b)
  then show ?case by (simp add: split_beta split: sum.split)
qed simp

lemma resolve_final_kept [simp]: "P w \<Longrightarrow> P (snd (resolve_final K d path st sz w))"
  by (simp add: resolve_final_def split_beta split: sum.split)

subsection \<open>The functions\<close>

text \<open>In a state of the NIF: the world of the state keeps \<open>P\<close>.\<close>

abbreviation "Q s \<equiv> P (kern s)"

lemma sys_parts [simp]: "fst (sys f s) = fst (f (kern s))" "kern (snd (sys f s)) = snd (f (kern s))"
  by (simp_all add: sys_def split_beta)

lemma drop_kept [simp]: "Q s \<Longrightarrow> Q (drop_dirp K i s)" "Q s \<Longrightarrow> Q (drop_fd K i s)" "Q s \<Longrightarrow> Q (file_dtor K i s)"
  by (simp_all add: drop_dirp_def drop_fd_def file_dtor_def split: option.split)

lemma handle_lock_kept [simp]: "kern (snd (handle_lock i s)) = kern s"
  by (simp add: handle_lock_def Let_def split: option.split)

lemma locked_call_kept:
  "(\<And>f w. P w \<Longrightarrow> P (snd (g f w))) \<Longrightarrow> Q s \<Longrightarrow> Q (snd (locked_call i g s))"
  by (simp add: locked_call_def split_beta split: sum.split)

lemma opener_kept [simp]:
  "Q s \<Longrightarrow> Q (snd (new_handle K fd d s))" "Q s \<Longrightarrow> Q (snd (dir_dup K i s))"
  by (simp_all add: new_handle_def dir_dup_def Let_def split_beta split: sum.split bool.split)

lemma finish_open_kept [simp]: "Q s \<Longrightarrow> Q (snd (finish_open K fd d s))"
  by (simp add: finish_open_def split_beta split: option.split)

lemma open_base_kept [simp]: "Q s \<Longrightarrow> Q (snd (open_base K a s))"
  by (simp add: open_base_def split_beta split: option.split sum.split)

lemma path_act_kept [simp]: "P w \<Longrightarrow> P (snd (path_act K opn d n arg w))"
  "P w \<Longrightarrow> P (snd (path_act2 K opn d n d' n' w))"
  by (simp_all add: path_act_def path_act2_def split: option.split)

lemma path_op_nif_kept: "Q s \<Longrightarrow> Q (snd (path_op_nif K argv s))"
  by (simp add: path_op_nif_def split_beta split: list.split option.split sum.split)

lemma path_op2_nif_kept: "Q s \<Longrightarrow> Q (snd (path_op2_nif K argv s))"
  by (simp add: path_op2_nif_def Let_def split_beta split: list.split option.split sum.split)

lemma open_at_nif_kept: "Q s \<Longrightarrow> Q (snd (open_at_nif K argv s))"
  by (simp add: open_at_nif_def split_beta split: list.split option.split sum.split)

lemma open_dir_nif_kept: "Q s \<Longrightarrow> Q (snd (open_dir_nif K argv s))"
  by (simp add: open_dir_nif_def split_beta split: list.split option.split sum.split)

lemma io_kept:
  "Q s \<Longrightarrow> Q (snd (pread_nif K argv s))" "Q s \<Longrightarrow> Q (snd (pwrite_nif K argv s))"
  "Q s \<Longrightarrow> Q (snd (futimes_nif K argv s))" "Q s \<Longrightarrow> Q (snd (fstat_nif K argv s))"
  "Q s \<Longrightarrow> Q (snd (ftruncate_nif K argv s))" "Q s \<Longrightarrow> Q (snd (fsync_nif K argv s))"
  "Q s \<Longrightarrow> Q (snd (close_nif K argv s))" "Q s \<Longrightarrow> Q (snd (dup_nif K argv s))"
  by (simp_all add: pread_nif_def pwrite_nif_def futimes_nif_def fstat_nif_def ftruncate_nif_def fsync_nif_def
      close_nif_def dup_nif_def locked_call_kept Let_def split_beta
      split: list.split option.split sum.split bool.split)

subsection \<open>The listings\<close>

lemma names_loop_kept:
  assumes "names_loop K d l w = Some y" and "P w"
  shows "P (snd y)"
proof -
  have "K' = K \<longrightarrow> P w \<longrightarrow> P (snd y)" if "names_loop K' d l w = Some y" for K' :: "'w kernel" and d l w y
    using that
  proof (induction K' d l w y rule: names_loop.raw_induct [rotated, consumes 1])
    case (1 loop K' d l w y)
    obtain r w1 where rd: "sys_readdir K' d w = (r, w1)" by (cases "sys_readdir K' d w")
    have "K' = K \<Longrightarrow> P w \<Longrightarrow> P w1" using streams(4) [of d] rd unfolding keeps_def by (metis snd_conv)
    with 1 rd show ?case by (cases r) (auto split: option.splits)
  qed
  with assms show ?thesis by blast
qed

lemma readdir_names_nif_kept: "readdir_names_nif K argv s = Some y \<Longrightarrow> Q s \<Longrightarrow> Q (snd y)"
  by (auto simp: readdir_names_nif_def Let_def split_beta dest!: names_loop_kept
      split: list.splits option.splits sum.splits if_splits)

lemma entry_type_kept [simp]: "P w \<Longrightarrow> P (snd (entry_type K d de w))"
  by (simp add: entry_type_def Let_def split_beta split: sum.split)

lemma readdir_loop_kept [simp]: "P w \<Longrightarrow> P (snd (readdir_loop K d buflen out w))"
proof (induction "buflen - length out" arbitrary: out w rule: less_induct)
  case less
  have "length (dirent_header c ino n t) = 24" for c ino n t
    by (simp add: dirent_header_def put_u64_def put_u32_def)
  with less show ?case
    by (auto simp: readdir_loop.simps [of _ _ _ out] Let_def split_beta DIRENT_HDR_def split: sum.split option.split)
qed

lemma readdir_nif_kept: "Q s \<Longrightarrow> Q (snd (readdir_nif K argv s))"
  by (simp add: readdir_nif_def readdir_batch_def open_stream_def Let_def split_beta
      split: list.split option.split sum.split bool.split)

text \<open>So every event keeps the property.\<close>

lemma run_fun_kept: "run_fun K f argv s = Some y \<Longrightarrow> Q s \<Longrightarrow> Q (snd y)"
  by (cases f) (auto simp: path_op_nif_kept path_op2_nif_kept open_at_nif_kept open_dir_nif_kept io_kept
      readdir_nif_kept dest: readdir_names_nif_kept)

lemma event_step_kept: "event_step K e s = Some s' \<Longrightarrow> Q s \<Longrightarrow> Q s'"
  by (cases e) (auto dest: run_fun_kept split: if_splits)

end

end
