(* ===== verification/Nif_Contained.thy ===== *)
theory Nif_Contained
  imports Nif_Mem
begin

text \<open>
  What the walk promises: the properties of \<^verbatim>\<open>step\<close>, \<^verbatim>\<open>walk_from\<close>, \<^verbatim>\<open>walk_open\<close> and \<^verbatim>\<open>walk_parent\<close>
  that rest on the contract \<open>walker\<close>. The descriptor discipline holds on every kernel; containment
  holds on every kernel whose directories behave as documented (\<open>dir_laws\<close>). The audit itself is
  shown not to disturb what it watches, so that results on an audited kernel are results on the
  kernel.
\<close>

subsection \<open>The audit is transparent\<close>

text \<open>A call on an audited kernel answers what the call answers, and leaves the same world.\<close>

lemma audited_openat_base:
  "sys_openat (audited pol K) d n fl m a = (r, a') \<Longrightarrow> sys_openat K d n fl m (world a) = (r, world a')"
  by (erule audited_openatE) auto

lemma audited_readlinkat_base:
  "sys_readlinkat (audited pol K) d n s a = (r, a') \<Longrightarrow> sys_readlinkat K d n s (world a) = (r, world a')"
  by (erule audited_readlinkatE) auto

definition same_run :: "('r \<times> 'w audit) \<Rightarrow> ('r \<times> 'w) \<Rightarrow> bool" where
  "same_run p q \<longleftrightarrow> q = (fst p, world (snd p))"

lemma same_run_openat: "same_run (sys_openat (audited pol K) d n fl m a) (sys_openat K d n fl m (world a))"
  by (cases "sys_openat (audited pol K) d n fl m a") (simp add: same_run_def audited_openat_base)

lemma same_run_readlinkat:
  "same_run (sys_readlinkat (audited pol K) d n s a) (sys_readlinkat K d n s (world a))"
  by (cases "sys_readlinkat (audited pol K) d n s a") (simp add: same_run_def audited_readlinkat_base)

lemma same_runE:
  assumes "same_run p q"
  obtains r a where "p = (r, a)" "q = (r, world a)"
  using assms by (cases p) (auto simp: same_run_def)

lemma same_run_pair [simp]: "same_run (r, a) (r', w) \<longleftrightarrow> r' = r \<and> w = world a"
  by (auto simp: same_run_def)

text \<open>The same for the three mutually recursive functions of the walk.\<close>

lemma same_run_walk:
  fixes K :: "'w kernel"
  defines "K' pol \<equiv> audited pol K"
  shows "same_run (step (K' pol) cur cmp fl m k b mf a) (step K cur cmp fl m k b mf (world a))"
    and "same_run (walk_from (K' pol) d path fl m k b ff a) (walk_from K d path fl m k b ff (world a))"
    and "same_run (walk_loop (K' pol) c owned cs fl m k b ff a) (walk_loop K c owned cs fl m k b ff (world a))"
proof (induction "K' pol" cur cmp fl m k b mf a and "K' pol" d path fl m k b ff a
      and "K' pol" c owned cs fl m k b ff a rule: step_walk_from_walk_loop.induct)
  case (1 cur cmp fl m k b mf a)
  obtain r a1 where A: "sys_openat (K' pol) cur cmp fl m a = (r, a1)"
      "sys_openat K cur cmp fl m (world a) = (r, world a1)"
    unfolding K'_def by (rule same_runE [OF same_run_openat])
  obtain r' a2 where L: "sys_readlinkat (K' pol) cur cmp (MAX_PATH_LEN - 1) a1 = (r', a2)"
      "sys_readlinkat K cur cmp (MAX_PATH_LEN - 1) (world a1) = (r', world a2)"
    unfolding K'_def by (rule same_runE [OF same_run_readlinkat])
  obtain q b1 where D: "sys_openat (K' pol) cur DOT (O_DIRECTORY K) 0 a = (q, b1)"
      "sys_openat K cur DOT (O_DIRECTORY K) 0 (world a) = (q, world b1)"
    unfolding K'_def by (rule same_runE [OF same_run_openat])
  obtain q' b2 where DD: "sys_openat (K' pol) cur DOTDOT (O_DIRECTORY K) 0 a = (q', b2)"
      "sys_openat K cur DOTDOT (O_DIRECTORY K) 0 (world a) = (q', world b2)"
    unfolding K'_def by (rule same_runE [OF same_run_openat])
  consider "cmp = DOT" | "cmp = DOTDOT" | "cmp \<noteq> DOT" "cmp \<noteq> DOTDOT" by blast
  then show ?case
  proof cases
    case 1
    then show ?thesis using D by (cases q) (simp_all add: step.simps K'_def)
  next
    case 2
    then show ?thesis using DD by (cases q') (simp_all add: step.simps K'_def)
  next
    case 3
    then show ?thesis
    proof (cases r)
      case (Inr f)
      then show ?thesis using A 3 by (simp add: step.simps K'_def)
    next
      case (Inl e)
      note IH = "1.hyps" [OF 3 A(1) [symmetric], unfolded Inl, OF refl]
      show ?thesis
      proof (cases r')
        case (Inr t)
        show ?thesis using A 3 Inl L Inr IH [OF _ _ _ L(1) [symmetric] Inr]
          by (subst (1 2) step.simps) (auto simp: K'_def)
      qed (use A 3 Inl L in \<open>subst (1 2) step.simps; simp add: K'_def\<close>)
    qed
  qed
next
  case (2 dirfd path flags mode depth budget follow_final w)
  then show ?case by (subst (1 2) walk_from.simps) (auto simp: K'_def)
next
  case (3 c owned cs fl m k b ff a)
  show ?case
  proof (cases cs)
    case Nil
    then show ?thesis by (simp add: walk_loop.simps)
  next
    case (Cons n cs')
    let ?fl = "component_flags (K' pol) (cs' = []) fl"
    obtain r a1 where S: "step (K' pol) c n ?fl m k b (if cs' = [] then ff else True) a = (r, a1)"
        "step K c n ?fl m k b (if cs' = [] then ff else True) (world a) = (r, world a1)"
      by (rule same_runE [OF "3.hyps"(1) [OF Cons]])
    show ?thesis
    proof (cases r)
      case (Inl e)
      with S Cons show ?thesis by (subst (1 2) walk_loop.simps) (simp add: K'_def)
    next
      case (Inr q)
      with S Cons "3.hyps"(2) [OF Cons S(1) [symmetric] Inr] show ?thesis
        by (subst (1 2) walk_loop.simps) (cases q; cases owned; simp add: K'_def)
    qed
  qed
qed

text \<open>And for the functions over them.\<close>

lemma walk_open_same_run:
  "same_run (walk_open (audited pol K) d path fl m ff a) (walk_open K d path fl m ff (world a))"
proof -
  obtain r a1 where "walk_from (audited pol K) d path fl m 0 MAX_SYMLINKS ff a = (r, a1)"
      "walk_from K d path fl m 0 MAX_SYMLINKS ff (world a) = (r, world a1)"
    by (rule same_runE [OF same_run_walk(2)])
  then show ?thesis by (auto simp: walk_open_def split: sum.splits)
qed

lemma parent_loop_same_run:
  "same_run (parent_loop (audited pol K) st c owned cs k a) (parent_loop K st c owned cs k (world a))"
proof (induction cs arbitrary: c owned k a)
  case Nil
  then show ?case by simp
next
  case (Cons n cs)
  let ?fl = "O_RDONLY OR O_DIRECTORY K OR O_NOFOLLOW K"
  obtain r a1 where "step (audited pol K) c n ?fl 0 k MAX_SYMLINKS True a = (r, a1)"
      "step K c n ?fl 0 k MAX_SYMLINKS True (world a) = (r, world a1)"
    by (rule same_runE [OF same_run_walk(1)])
  then show ?case
    using Cons.IH [of _ _ _ "sys_close (audited pol K) c a1"] Cons.IH [of _ _ _ a1]
    by (auto split: sum.splits)
qed

lemma walk_parent_same_run:
  "same_run (walk_parent (audited pol K) d path st sz a) (walk_parent K d path st sz (world a))"
  using parent_loop_same_run by (auto simp: walk_parent_def)

subsection \<open>Containment\<close>

context directories begin

lemma walk_open_inside:
  assumes "ok a" "d \<in># held a" "inside V R d 0 (world a)"
    and "walk_open (audited (sandbox K V R) K) d (cstr p) fl m ff a = (r, a')"
  shows "ok a' \<and> strm a' = strm a \<and> held a' = (case r of Inl _ \<Rightarrow> held a | Inr f \<Rightarrow> add_mset f (held a))
    \<and> (\<forall>f. r = Inr f \<longrightarrow> (\<exists>k. inside V R f k (world a')))"
  using box.walk_open_kept [OF _ cstr_no_nul assms(4)] assms(1-3)
  by (auto simp: box.ready_def box.still_def box.got_def split: sum.splits)

lemma walk_parent_inside:
  assumes "ok a" "d \<in># held a" "inside V R d 0 (world a)"
    and "walk_parent (audited (sandbox K V R) K) d (cstr p) st sz a = (r, a')"
  shows "ok a' \<and> strm a' = strm a \<and>
    (case r of Inl _ \<Rightarrow> held a' = held a
     | Inr (g, owned, nm) \<Rightarrow> one_component (snd nm) \<and> snd nm \<noteq> DOTDOT \<and> (\<exists>k. inside V R g k (world a'))
         \<and> held a' = (if owned then add_mset g (held a) else held a) \<and> (owned \<or> g = d))"
  using box.walk_parent_kept [OF _ cstr_no_nul assms(4)] assms(1-3)
  by (auto simp: box.ready_def box.still_def box.got_def box.parent_kept_def split: sum.splits if_splits)

end

subsection \<open>The properties\<close>

text \<open>
  C1. A walk that succeeds ends inside the preopen: if the starting descriptor is a preopen, the
  descriptor \<^verbatim>\<open>walk_open\<close> answers denotes a file that is some number of entries below one, whatever
  the path and the flags are, whatever symlinks it meets and whichever of them appear while it walks.
\<close>

theorem walk_open_contained:
  assumes "dir_laws K V" and "inside V R d 0 w"
    and "walk_open K d (cstr p) fl m ff w = (Inr f, w')"
  shows "\<exists>k. inside V R f k w'"
proof -
  define a where "a = \<lparr>world = w, held = {#d#}, strm = {#}, ok = True\<rparr>"
  obtain r a' where "walk_open (audited (sandbox K V R) K) d (cstr p) fl m ff a = (r, a')"
      and "walk_open K d (cstr p) fl m ff (world a) = (r, world a')"
    by (rule same_runE [OF walk_open_same_run])
  with assms directories.walk_open_inside [OF directories.intro [OF assms(1)], of a d R p fl m ff r a']
  show ?thesis by (simp add: a_def)
qed

theorem walk_open_contained_witness:
  "\<exists>k. inside (mem_view sample_entries) {1} 11 k
     (snd (walk_open mem_kernel 7 (cstr (bytes_of ''a/u'')) 0 0 True sample))"
proof (rule walk_open_contained [OF mem_laws sample_inside])
  have "fst (walk_open mem_kernel 7 (cstr (bytes_of ''a/u'')) 0 0 True sample) = Inr 11" by code_simp
  then show "walk_open mem_kernel 7 (cstr (bytes_of ''a/u'')) 0 0 True sample =
      (Inr 11, snd (walk_open mem_kernel 7 (cstr (bytes_of ''a/u'')) 0 0 True sample))"
    by (simp add: prod_eq_iff)
qed

text \<open>
  Every system call of \<^verbatim>\<open>walk_open\<close> stays in the sandbox, on failures as on success: it
  names one component of a directory at or below the preopen, never \<^verbatim>\<open>".."\<close> from the preopen
  itself, opens names without following them, and uses descriptors the walk was given or has opened.
\<close>

lemma walk_open_calls_inside:
  assumes "dir_laws K V" and "ok a" "d \<in># held a" "inside V R d 0 (world a)"
  shows "ok (snd (walk_open (audited (sandbox K V R) K) d (cstr p) fl m ff a))"
  using directories.walk_open_inside [OF directories.intro [OF assms(1)] assms(2-4)]
  by (metis prod.collapse)

lemma walk_open_calls_inside_witness:
  "ok (snd (walk_open (audited (sandbox mem_kernel (mem_view sample_entries) {1}) mem_kernel) 7
     (cstr (bytes_of ''a/../../a'')) 0 0 True (audit_of sample)))"
  by (rule walk_open_calls_inside [OF mem_laws])
    (use sample_inside in \<open>simp_all add: audit_of_def\<close>, simp add: sample_simps)

text \<open>
  C14. \<^verbatim>\<open>walk_parent\<close> makes no call outside the sandbox either, and what it hands back is safe to
  act on: a directory at or below the preopen, and one component that is not \<^verbatim>\<open>".."\<close>.
\<close>

theorem walk_parent_contained:
  assumes "dir_laws K V" and "ok a" "d \<in># held a" "inside V R d 0 (world a)"
    and "walk_parent (audited (sandbox K V R) K) d (cstr p) st sz a = (r, a')"
  shows "ok a' \<and> (case r of Inl e \<Rightarrow> True | Inr (g, owned, nm) \<Rightarrow> acts_inside V R (world a') g (snd nm))"
  using directories.walk_parent_inside [OF directories.intro [OF assms(1)] assms(2-5)]
  by (auto simp: acts_inside_def split: sum.splits)

theorem walk_parent_contained_witness:
  "acts_inside (mem_view sample_entries) {1} (world (snd (walk_parent (audited (sandbox mem_kernel (mem_view sample_entries) {1}) mem_kernel) 7
     (cstr (bytes_of ''a/x'')) Caller_buf 4096 (audit_of sample)))) 8 (bytes_of ''x'')"
proof -
  let ?run = "walk_parent (audited (sandbox mem_kernel (mem_view sample_entries) {1}) mem_kernel) 7
     (cstr (bytes_of ''a/x'')) Caller_buf 4096 (audit_of sample)"
  have "fst (walk_parent mem_kernel 7 (cstr (bytes_of ''a/x'')) Caller_buf 4096 sample)
      = Inr (8, True, Caller_buf, bytes_of ''x'')" by code_simp
  then have r: "?run = (Inr (8, True, Caller_buf, bytes_of ''x''), snd ?run)"
    using walk_parent_same_run [of "sandbox mem_kernel (mem_view sample_entries) {1}" mem_kernel 7
        "cstr (bytes_of ''a/x'')" Caller_buf 4096 "audit_of sample"]
    by (simp add: same_run_def prod_eq_iff audit_of_def)
  show ?thesis
    using walk_parent_contained [OF mem_laws _ _ _ r] sample_inside
    by (simp add: audit_of_def) (simp add: sample_simps)
qed

text \<open>
  On every kernel, whatever it answers: \<^verbatim>\<open>walk_open\<close> uses only descriptors it owns or was
  given, closes each one it opens exactly once, and keeps exactly the one it answers, if any.
\<close>

lemma walk_open_owns:
  assumes "ok a" "d \<in># held a"
    and "walk_open (audited (\<lambda>_ _. True) K) d (cstr p) fl m ff a = (r, a')"
  shows "ok a' \<and> strm a' = strm a \<and> held a' = (case r of Inl _ \<Rightarrow> held a | Inr f \<Rightarrow> add_mset f (held a))"
  using ledger.walk_open_kept [OF _ cstr_no_nul assms(3)] assms(1,2)
  by (auto simp: ledger.ready_def ledger.still_def ledger.got_def split: sum.splits)

lemma walk_open_owns_witness:
  "held (snd (walk_open (audited (\<lambda>_ _. True) mem_kernel) 7 (cstr (bytes_of ''a/u'')) 0 0 True (audit_of sample)))
     = {#7, 11#}"
proof -
  have "fst (walk_open mem_kernel 7 (cstr (bytes_of ''a/u'')) 0 0 True sample) = Inr 11" by code_simp
  then have "fst (walk_open (audited (\<lambda>_ _. True) mem_kernel) 7 (cstr (bytes_of ''a/u'')) 0 0 True (audit_of sample))
      = Inr 11"
    using walk_open_same_run [of "\<lambda>_ _. True" mem_kernel 7 "cstr (bytes_of ''a/u'')" 0 0 True "audit_of sample"]
    by (simp add: same_run_def audit_of_def)
  then show ?thesis
    using walk_open_owns [of "audit_of sample" 7 mem_kernel "cstr (bytes_of ''a/u'')" 0 0 True, OF _ _ prod.collapse [symmetric]]
    by (simp add: audit_of_def) (simp add: sample_simps)
qed

text \<open>
  The same of \<^verbatim>\<open>walk_parent\<close>: it answers the directory it was given, or one it opened and
  says so (\<^verbatim>\<open>owned\<close>); everything else it opened is closed.
\<close>

lemma walk_parent_owns:
  assumes "ok a" "d \<in># held a"
    and "walk_parent (audited (\<lambda>_ _. True) K) d (cstr p) st sz a = (r, a')"
  shows "ok a' \<and> strm a' = strm a \<and> held a' =
    (case r of Inr (g, True, nm) \<Rightarrow> add_mset g (held a) | _ \<Rightarrow> held a)
    \<and> (\<forall>g owned nm. r = Inr (g, owned, nm) \<longrightarrow> owned \<or> g = d)"
  using ledger.walk_parent_kept [OF _ cstr_no_nul assms(3)] assms(1,2)
  by (auto simp: ledger.ready_def ledger.still_def ledger.got_def ledger.parent_kept_def
      split: sum.splits bool.splits if_splits)

lemma walk_parent_owns_witness:
  "held (snd (walk_parent (audited (\<lambda>_ _. True) mem_kernel) 7 (cstr (bytes_of ''a/x'')) Caller_buf 4096 (audit_of sample)))
     = {#7, 8#}"
proof -
  have "fst (walk_parent mem_kernel 7 (cstr (bytes_of ''a/x'')) Caller_buf 4096 sample)
      = Inr (8, True, Caller_buf, bytes_of ''x'')" by code_simp
  then have "fst (walk_parent (audited (\<lambda>_ _. True) mem_kernel) 7 (cstr (bytes_of ''a/x'')) Caller_buf 4096 (audit_of sample))
      = Inr (8, True, Caller_buf, bytes_of ''x'')"
    using walk_parent_same_run [of "\<lambda>_ _. True" mem_kernel 7 "cstr (bytes_of ''a/x'')" Caller_buf 4096 "audit_of sample"]
    by (simp add: same_run_def audit_of_def)
  then show ?thesis
    using walk_parent_owns [of "audit_of sample" 7 mem_kernel "cstr (bytes_of ''a/x'')" Caller_buf 4096, OF _ _ prod.collapse [symmetric]]
    by (simp add: audit_of_def) (simp add: sample_simps)
qed

end
