(* ===== verification/Nif_Runs.thy ===== *)
theory Nif_Runs
  imports Nif_Frame Nif_Contained
begin

text \<open>
  A guest's whole life in the sandbox. A guest begins with handles on its preopens; each call may give
  it more, and closing or collecting one takes it away. Here the single-call result of \<open>Nif_Calls\<close> is
  lifted to runs: whatever the guest does, in whatever order, every call stays inside, and every
  descriptor that a handle has denotes a file at or below a preopen. The invariant is one of the books
  and the world alone (\<open>homely\<close>), so the frame of \<open>Nif_Frame\<close> carries it through all functions.
\<close>

subsection \<open>What the other calls leave alone\<close>

text \<open>
  \<open>D\<close> is the descriptor under a directory stream. No call but \<^verbatim>\<open>close\<close> and \<^verbatim>\<open>closedir\<close> closes a descriptor,
  and these two close the one they are for; a new stream is over the descriptor it was given.
\<close>

definition leaves :: "('w, 'n) view \<Rightarrow> ('w \<Rightarrow> dirp \<Rightarrow> fd option) \<Rightarrow> 'w \<Rightarrow> 'w \<Rightarrow> bool" where
  "leaves V D w w' \<longleftrightarrow> persists V w w' \<and> (\<forall>s f. D w s = Some f \<longrightarrow> D w' s = Some f)"

definition mild :: "('w, 'n) view \<Rightarrow> ('w \<Rightarrow> dirp \<Rightarrow> fd option) \<Rightarrow> ('w \<Rightarrow> 'r \<times> 'w) \<Rightarrow> bool" where
  "mild V D f \<longleftrightarrow> (\<forall>w. good V w \<longrightarrow> leaves V D w (snd (f w)))"

definition law_mild :: "'w kernel \<Rightarrow> ('w, 'n) view \<Rightarrow> ('w \<Rightarrow> dirp \<Rightarrow> fd option) \<Rightarrow> bool" where
  "law_mild K V D \<longleftrightarrow>
     (\<forall>d n fl m. mild V D (sys_openat K d n fl m)) \<and> (\<forall>d n k. mild V D (sys_readlinkat K d n k)) \<and>
     (\<forall>f. mild V D (sys_dup K f)) \<and> (\<forall>d n m. mild V D (sys_mkdirat K d n m)) \<and>
     (\<forall>d n b. mild V D (sys_unlinkat K d n b)) \<and> (\<forall>t d n. mild V D (sys_symlinkat K t d n)) \<and>
     (\<forall>d n d' n'. mild V D (sys_renameat K d n d' n')) \<and> (\<forall>d n d' n'. mild V D (sys_linkat K d n d' n')) \<and>
     (\<forall>d n. mild V D (sys_fstatat K d n)) \<and> (\<forall>d n ts. mild V D (sys_utimensat K d n ts)) \<and>
     (\<forall>f. mild V D (sys_fstat K f)) \<and> (\<forall>f ts. mild V D (sys_futimens K f ts)) \<and>
     (\<forall>f n off. mild V D (sys_pread K f n off)) \<and> (\<forall>f bs off. mild V D (sys_pwrite K f bs off)) \<and>
     (\<forall>f n. mild V D (sys_ftruncate K f n)) \<and> (\<forall>f. mild V D (sys_fsync K f)) \<and>
     (\<forall>f. mild V D (sys_fdopendir K f)) \<and> (\<forall>s. mild V D (\<lambda>w. ((), sys_rewinddir K s w))) \<and>
     (\<forall>s c. mild V D (\<lambda>w. ((), sys_seekdir K s c w))) \<and> (\<forall>s. mild V D (sys_telldir K s)) \<and>
     (\<forall>s. mild V D (sys_readdir K s)) \<and> (\<forall>s n. mild V D (sys_dirstat K s n)) \<and>
     mild V D (alloc_resource K) \<and> mild V D (mutex_create K) \<and>
     (\<forall>n. mild V D (alloc_binary K n)) \<and> (\<forall>n. mild V D (alloc K n))"

definition law_streams :: "'w kernel \<Rightarrow> ('w, 'n) view \<Rightarrow> ('w \<Rightarrow> dirp \<Rightarrow> fd option) \<Rightarrow> bool" where
  "law_streams K V D \<longleftrightarrow>
     (\<forall>w f s g. good V w \<longrightarrow> D w s = Some g \<longrightarrow> D (sys_close K f w) s = Some g) \<and>
     (\<forall>w f s w'. good V w \<longrightarrow> sys_fdopendir K f w = (Inr s, w') \<longrightarrow>
        D w' s = Some f \<and> D w s \<in> {None, Some f}) \<and>
     (\<forall>w s. good V w \<longrightarrow> good V (sys_closedir K s w) \<and>
        (\<forall>g x. node_of V w g = Some x \<longrightarrow> D w s \<noteq> Some g \<longrightarrow> node_of V (sys_closedir K s w) g = Some x) \<and>
        (\<forall>s' g. s' \<noteq> s \<longrightarrow> D w s' = Some g \<longrightarrow> D (sys_closedir K s w) s' = Some g))"

text \<open>What a guest may reach: everything at or below its preopens.\<close>

definition reach :: "('w, 'n) view \<Rightarrow> 'n set \<Rightarrow> 'n set" where
  "reach V R = {x. \<exists>k. below (child V) R k x}"

lemma reach_child: "x \<in> reach V R \<Longrightarrow> child V x y \<Longrightarrow> y \<in> reach V R"
  unfolding reach_def by (blast intro: below.entry)

lemma below_reach: "below (child V) (reach V R) k x \<Longrightarrow> x \<in> reach V R"
  by (induction rule: below.induct) (auto intro: reach_child)

lemma inside_reach: "inside V (reach V R) f k w \<Longrightarrow> \<exists>x\<in>reach V R. node_of V w f = Some x"
  by (auto simp: inside_def dest: below_reach)

subsection \<open>The invariant\<close>

text \<open>
  While every call was in order: the descriptors the program owns are different ones, each denotes a
  file within reach, and each stream has a descriptor of its own that is none of them.
\<close>

definition homely :: "('w, 'n) view \<Rightarrow> ('w \<Rightarrow> dirp \<Rightarrow> fd option) \<Rightarrow> 'n set \<Rightarrow> 'w audit \<Rightarrow> bool" where
  "homely V D R a \<longleftrightarrow> good V (world a) \<and>
     (\<forall>f. f \<in># held a \<longrightarrow> (\<exists>x\<in>R. node_of V (world a) f = Some x)) \<and> (\<forall>f. count (held a) f \<le> 1) \<and>
     (\<forall>s. s \<in># strm a \<longrightarrow> (\<exists>f. D (world a) s = Some f \<and> node_of V (world a) f \<noteq> None \<and> f \<notin># held a)) \<and>
     (\<forall>s. count (strm a) s \<le> 1) \<and>
     (\<forall>s s'. s \<in># strm a \<longrightarrow> s' \<in># strm a \<longrightarrow> D (world a) s = D (world a) s' \<longrightarrow> s = s')"

definition safe :: "('w, 'n) view \<Rightarrow> ('w \<Rightarrow> dirp \<Rightarrow> fd option) \<Rightarrow> 'n set \<Rightarrow> 'w audit \<Rightarrow> bool" where
  "safe V D R a \<longleftrightarrow> (ok a \<longrightarrow> homely V D R a)"

text \<open>The parts of it, as rules.\<close>

lemma homely_fd: "homely V D R a \<Longrightarrow> f \<in># held a \<Longrightarrow> \<exists>x\<in>R. node_of V (world a) f = Some x"
  by (simp add: homely_def)

lemma homely_strm:
  assumes "homely V D R a" and "s \<in># strm a"
  obtains f where "D (world a) s = Some f" "node_of V (world a) f \<noteq> None" "f \<notin># held a"
  using assms by (auto simp: homely_def)

lemma homelyI:
  assumes "good V (world a)" and "\<And>f. f \<in># held a \<Longrightarrow> \<exists>x\<in>R. node_of V (world a) f = Some x"
    and "\<And>f. count (held a) f \<le> 1"
    and "\<And>s. s \<in># strm a \<Longrightarrow> \<exists>f. D (world a) s = Some f \<and> node_of V (world a) f \<noteq> None \<and> f \<notin># held a"
    and "\<And>s. count (strm a) s \<le> 1"
    and "\<And>s s'. s \<in># strm a \<Longrightarrow> s' \<in># strm a \<Longrightarrow> D (world a) s = D (world a) s' \<Longrightarrow> s = s'"
  shows "homely V D R a"
  using assms by (simp add: homely_def)

lemma homely_once:
  assumes "homely V D R a"
  shows "count (held a) f \<le> 1" "count (strm a) s \<le> 1"
    "s \<in># strm a \<Longrightarrow> s' \<in># strm a \<Longrightarrow> D (world a) s = D (world a) s' \<Longrightarrow> s = s'" "good V (world a)"
  using assms by (simp_all add: homely_def)

lemma leaves_node: "leaves V D w w' \<Longrightarrow> node_of V w f = Some x \<Longrightarrow> node_of V w' f = Some x"
  and leaves_dir: "leaves V D w w' \<Longrightarrow> D w s = Some f \<Longrightarrow> D w' s = Some f"
  and leaves_good: "leaves V D w w' \<Longrightarrow> good V w'"
  by (simp_all add: leaves_def persists_def)

lemma homely_strm_leaves:
  assumes "homely V D R a" and "leaves V D (world a) w'" and "s \<in># strm a"
  shows "D w' s = D (world a) s" and "\<exists>f. D w' s = Some f \<and> node_of V w' f \<noteq> None \<and> f \<notin># held a"
proof -
  obtain f where f: "D (world a) s = Some f" "node_of V (world a) f \<noteq> None" "f \<notin># held a"
    using homely_strm [OF assms(1,3)] .
  then show "D w' s = D (world a) s" using leaves_dir [OF assms(2)] by simp
  from f show "\<exists>f. D w' s = Some f \<and> node_of V w' f \<noteq> None \<and> f \<notin># held a"
    using leaves_dir [OF assms(2) f(1)] leaves_node [OF assms(2)] by blast
qed

lemma homely_leaves:
  assumes "homely V D R a" and "leaves V D (world a) (world a')" and "held a' = held a" "strm a' = strm a"
  shows "homely V D R a'"
proof (rule homelyI)
  show "\<exists>x\<in>R. node_of V (world a') f = Some x" if "f \<in># held a'" for f
    using homely_fd [OF assms(1)] that assms(3) leaves_node [OF assms(2)] by metis
  show "s = s'" if "s \<in># strm a'" "s' \<in># strm a'" "D (world a') s = D (world a') s'" for s s'
    using homely_strm_leaves(1) [OF assms(1,2)] that assms(4) homely_once(3) [OF assms(1)] by metis
qed (use assms homely_once [OF assms(1)] homely_strm_leaves [OF assms(1,2)] leaves_good [OF assms(2)] in auto)

lemma homely_gain:
  assumes a: "homely V D R a" and l: "leaves V D (world a) (world a')" and "strm a' = strm a"
    and h: "held a' = add_mset f (held a)" and new: "node_of V (world a) f = None"
    and "x \<in> R" "node_of V (world a') f = Some x"
  shows "homely V D R a'"
proof (rule homelyI)
  have none: "f \<notin># held a" using homely_fd [OF a] new by force
  then show "count (held a') g \<le> 1" for g
    using homely_once(1) [OF a, of g] h by (auto simp: not_in_iff)
  show "\<exists>x\<in>R. node_of V (world a') g = Some x" if "g \<in># held a'" for g
    using that h homely_fd [OF a, of g] leaves_node [OF l] assms(6,7) by auto
  show "\<exists>g. D (world a') s = Some g \<and> node_of V (world a') g \<noteq> None \<and> g \<notin># held a'" if "s \<in># strm a'" for s
  proof -
    have "s \<in># strm a" using that assms(3) by simp
    then obtain g where g: "D (world a) s = Some g" "node_of V (world a) g \<noteq> None" "g \<notin># held a"
      by (rule homely_strm [OF a])
    then have "g \<noteq> f" using new by auto
    with g h show ?thesis using leaves_dir [OF l g(1)] leaves_node [OF l] by auto
  qed
  show "s = s'" if "s \<in># strm a'" "s' \<in># strm a'" "D (world a') s = D (world a') s'" for s s'
    using homely_strm_leaves(1) [OF a l] that assms(3) homely_once(3) [OF a] by metis
qed (use assms homely_once [OF a] leaves_good [OF l] in auto)

lemma once_diff: "count M x \<le> 1 \<Longrightarrow> y \<in># M - {#x#} \<longleftrightarrow> y \<in># M \<and> y \<noteq> x"
  by (auto simp: count_greater_zero_iff [symmetric] simp del: count_greater_zero_iff split: if_splits)

lemma homely_close:
  assumes a: "homely V D R a" and "dir_laws K V" "law_streams K V D"
    and w: "world a' = sys_close K f (world a)" and h: "held a' = held a - {#f#}" "strm a' = strm a"
    and f: "f \<in># held a"
  shows "homely V D R a'"
proof (rule homelyI)
  have g: "good V (world a)" using homely_once(4) [OF a] .
  then show "good V (world a')" using assms(2) w by (auto simp: dir_laws_def law_keeps_def)
  have node: "node_of V (world a') y = Some x" if "y \<noteq> f" "node_of V (world a) y = Some x" for x y
    using assms(2) that g w unfolding dir_laws_def law_keeps_def by metis
  have dir: "D (world a') s = Some y" if "D (world a) s = Some y" for s y
    using assms(3) that g w unfolding law_streams_def by metis
  show "\<exists>x\<in>R. node_of V (world a') y = Some x" if "y \<in># held a'" for y
    using that h once_diff [OF homely_once(1) [OF a]] homely_fd [OF a, of y] node by auto
  show "count (held a') y \<le> 1" for y
    using homely_once(1) [OF a, of y] h by simp
  show st: "\<exists>y. D (world a') s = Some y \<and> node_of V (world a') y \<noteq> None \<and> y \<notin># held a'" if "s \<in># strm a'" for s
  proof -
    have "s \<in># strm a" using that h by simp
    then obtain y where y: "D (world a) s = Some y" "node_of V (world a) y \<noteq> None" "y \<notin># held a"
      by (rule homely_strm [OF a])
    then have "y \<noteq> f" using f by auto
    with y h show ?thesis using dir node by (auto dest: in_diffD)
  qed
  show "s = s'" if "s \<in># strm a'" "s' \<in># strm a'" "D (world a') s = D (world a') s'" for s s'
  proof -
    have "s \<in># strm a" "s' \<in># strm a" using that h by simp_all
    moreover from this have "D (world a) s = D (world a') s" "D (world a) s' = D (world a') s'"
      using homely_strm [OF a] dir by metis+
    ultimately show ?thesis using that(3) homely_once(3) [OF a] by metis
  qed
qed (use h homely_once [OF a] in auto)

lemma homely_fdopendir:
  assumes a: "homely V D R a" and laws: "law_streams K V D" and l: "leaves V D (world a) (world a')"
    and op: "sys_fdopendir K f (world a) = (Inr s, world a')"
    and h: "held a' = held a - {#f#}" "strm a' = add_mset s (strm a)" and f: "f \<in># held a"
  shows "homely V D R a'"
proof (rule homelyI)
  have s: "D (world a') s = Some f" "D (world a) s \<in> {None, Some f}"
    using laws homely_once(4) [OF a] op unfolding law_streams_def by metis+
  have other: "D (world a') s' \<noteq> Some f" if "s' \<in># strm a" for s'
    using homely_strm [OF a that] f homely_strm_leaves(1) [OF a l that] by (metis option.inject)
  then have new: "s \<notin># strm a" using s(1) by auto
  show "good V (world a')" using leaves_good [OF l] .
  show "\<exists>x\<in>R. node_of V (world a') g = Some x" if "g \<in># held a'" for g
    using that h homely_fd [OF a, of g] leaves_node [OF l] by (metis in_diffD)
  show "count (held a') g \<le> 1" "count (strm a') s' \<le> 1" for g s'
    using homely_once(1,2) [OF a] h new by (auto simp: not_in_iff le_diff_conv intro: le_trans)
  have gone: "f \<notin># held a'" using h once_diff [OF homely_once(1) [OF a]] by auto
  show "\<exists>g. D (world a') s' = Some g \<and> node_of V (world a') g \<noteq> None \<and> g \<notin># held a'" if "s' \<in># strm a'" for s'
  proof (cases "s' = s")
    case True
    obtain x where "node_of V (world a) f = Some x" using homely_fd [OF a f] by blast
    then have "node_of V (world a') f \<noteq> None" using leaves_node [OF l] by auto
    with True s(1) gone show ?thesis by blast
  next
    case False
    with that h have "s' \<in># strm a" by simp
    from homely_strm_leaves(2) [OF a l this] h show ?thesis by (auto dest: in_diffD)
  qed
  show "s1 = s2" if eq: "s1 \<in># strm a'" "s2 \<in># strm a'" "D (world a') s1 = D (world a') s2" for s1 s2
  proof -
    consider "s1 = s" "s2 = s" | "s1 = s" "s2 \<in># strm a" | "s1 \<in># strm a" "s2 = s" | "s1 \<in># strm a" "s2 \<in># strm a"
      using eq(1,2) h by auto
    then show ?thesis
    proof cases
      case 4
      then show ?thesis using homely_strm_leaves(1) [OF a l] eq(3) homely_once(3) [OF a] by metis
    qed (use other eq(3) s(1) in auto)
  qed
qed

lemma homely_closedir:
  assumes a: "homely V D R a" and laws: "law_streams K V D"
    and w: "world a' = sys_closedir K s (world a)" and h: "held a' = held a" "strm a' = strm a - {#s#}"
    and s: "s \<in># strm a"
  shows "homely V D R a'"
proof (rule homelyI)
  have g: "good V (world a)" using homely_once(4) [OF a] .
  then show "good V (world a')" using laws w by (auto simp: law_streams_def)
  obtain f where f: "D (world a) s = Some f" "f \<notin># held a" using homely_strm [OF a s] by metis
  have node: "node_of V (world a') y = Some x" if "y \<noteq> f" "node_of V (world a) y = Some x" for x y
  proof -
    have "D (world a) s \<noteq> Some y" using f(1) that(1) by simp
    with laws g w that(2) show ?thesis unfolding law_streams_def by metis
  qed
  have dir: "D (world a') s' = Some y" if "s' \<noteq> s" "D (world a) s' = Some y" for s' y
    using laws that g w unfolding law_streams_def by metis
  have rest: "s' \<in># strm a \<and> s' \<noteq> s" if "s' \<in># strm a'" for s'
    using that h(2) once_diff [OF homely_once(2) [OF a]] by simp
  show "\<exists>x\<in>R. node_of V (world a') y = Some x" if "y \<in># held a'" for y
  proof -
    have "y \<noteq> f" using that f(2) h(1) by auto
    with that h(1) show ?thesis using homely_fd [OF a, of y] node by auto
  qed
  show "\<exists>y. D (world a') s' = Some y \<and> node_of V (world a') y \<noteq> None \<and> y \<notin># held a'" if "s' \<in># strm a'" for s'
  proof -
    have s': "s' \<in># strm a" "s' \<noteq> s" using rest [OF that] by auto
    from s'(1) obtain y where y: "D (world a) s' = Some y" "node_of V (world a) y \<noteq> None" "y \<notin># held a"
      by (rule homely_strm [OF a])
    then have "y \<noteq> f" using f(1) s' homely_once(3) [OF a s'(1) s] by auto
    with y s' h show ?thesis using dir node by auto
  qed
  show "s1 = s2" if "s1 \<in># strm a'" "s2 \<in># strm a'" "D (world a') s1 = D (world a') s2" for s1 s2
  proof -
    have m: "s1 \<in># strm a" "s1 \<noteq> s" "s2 \<in># strm a" "s2 \<noteq> s" using rest that by auto
    then have "D (world a') s1 = D (world a) s1" "D (world a') s2 = D (world a) s2"
      using homely_strm [OF a] dir by metis+
    with that(3) m show ?thesis using homely_once(3) [OF a] by metis
  qed
  show "count (strm a') s' \<le> 1" for s' using homely_once(2) [OF a, of s'] h by simp
qed (use h homely_once [OF a] in auto)

subsection \<open>Every audited call keeps it\<close>

lemma safe_on_base: "mild V D g \<Longrightarrow> keeps (safe V D R) (on_base g)"
  unfolding keeps_def safe_def
proof (intro allI impI)
  fix a assume "mild V D g" "ok a \<longrightarrow> homely V D R a" "ok (snd (on_base g a))"
  moreover from this have "ok a" by (simp add: on_base_eq)
  ultimately have "homely V D R a" "leaves V D (world a) (snd (g (world a)))"
    by (simp_all add: mild_def homely_once(4))
  then show "homely V D R (snd (on_base g a))" by (auto intro: homely_leaves simp: on_base_eq)
qed

lemma safe_check: "safe V D R a \<Longrightarrow> safe V D R (check pol c a)"
  by (simp add: safe_def homely_def)

lemma safe_checked: "mild V D g \<Longrightarrow> keeps (safe V D R) (\<lambda>a. on_base g (check pol c a))"
  using safe_on_base [of V D g R] by (simp add: keeps_def safe_check)

lemma safe_checked_do:
  assumes "mild V D (\<lambda>w. ((), g w))"
  shows "keeps_do (safe V D R) (\<lambda>a. (check pol c a)\<lparr>world := g (world a)\<rparr>)"
  using safe_checked [OF assms, of R pol c] by (simp add: keeps_def keeps_do_def on_base_eq)

text \<open>A call that opens a file: within reach when the call was allowed.\<close>

lemma safe_gain:
  assumes "mild V D g"
    and "\<And>a f w'. homely V D R a \<Longrightarrow> ok (check pol c a) \<Longrightarrow> g (world a) = (Inr f, w') \<Longrightarrow>
      node_of V (world a) f = None \<and> (\<exists>x\<in>R. node_of V w' f = Some x)"
  shows "keeps (safe V D R) (\<lambda>a. gain (on_base g (check pol c a)))"
  unfolding keeps_def
proof (intro allI impI)
  fix a assume a: "safe V D R a"
  obtain r w' where g: "g (world a) = (r, w')" by (cases "g (world a)")
  show "safe V D R (snd (gain (on_base g (check pol c a))))"
  proof (cases r)
    case (Inl e)
    have "safe V D R (snd (on_base g (check pol c a)))"
      using safe_checked [OF assms(1), of R pol c] a unfolding keeps_def by blast
    with Inl g show ?thesis by (simp add: on_base_eq)
  next
    case (Inr f)
    show ?thesis
      unfolding safe_def
    proof
      let ?a' = "snd (gain (on_base g (check pol c a)))"
      assume "ok ?a'"
      then have ok: "ok (check pol c a)" using g Inr by (simp add: on_base_eq)
      then have h: "homely V D R a" using a by (simp add: safe_def)
      then have l: "leaves V D (world a) w'" using assms(1) g homely_once(4) [OF h] unfolding mild_def by (metis snd_conv)
      obtain x where "node_of V (world a) f = None" "x \<in> R" "node_of V w' f = Some x"
        using assms(2) [OF h ok] g Inr by blast
      with h l g Inr show "homely V D R ?a'" by (intro homely_gain [of V D R a ?a' f x]) (auto simp: on_base_eq)
    qed
  qed
qed

locale guests = directories K V for K :: "'w kernel" and V :: "('w, 'n) view" +
  fixes D :: "'w \<Rightarrow> dirp \<Rightarrow> fd option" and R :: "'n set"
  assumes mild_calls: "law_mild K V D" and stream_calls: "law_streams K V D"
begin

abbreviation "N \<equiv> reach V R"
abbreviation "S \<equiv> audited (sandbox K V N) K"

lemma milds:
  "mild V D (sys_openat K d n fl m)" "mild V D (sys_readlinkat K d n k)" "mild V D (sys_dup K f)"
  "mild V D (sys_mkdirat K d n m)" "mild V D (sys_unlinkat K d n b)" "mild V D (sys_symlinkat K t d n)"
  "mild V D (sys_renameat K d n d' n')" "mild V D (sys_linkat K d n d' n')" "mild V D (sys_fstatat K d n)"
  "mild V D (sys_utimensat K d n ts)" "mild V D (sys_fstat K f)" "mild V D (sys_futimens K f ts)"
  "mild V D (sys_pread K f len off)" "mild V D (sys_pwrite K f bs off)" "mild V D (sys_ftruncate K f newlen)"
  "mild V D (sys_fsync K f)" "mild V D (sys_fdopendir K f)" "mild V D (\<lambda>w. ((), sys_rewinddir K s w))"
  "mild V D (\<lambda>w. ((), sys_seekdir K s c w))" "mild V D (sys_telldir K s)" "mild V D (sys_readdir K s)"
  "mild V D (sys_dirstat K s n)" "mild V D (alloc_resource K)" "mild V D (mutex_create K)"
  "mild V D (alloc_binary K len)" "mild V D (alloc K len)"
  using mild_calls unfolding law_mild_def by (simp_all del: split_paired_All)

lemma openat_within:
  assumes "homely V D N a" and "ok (check (sandbox K V N) (COpenat d n fl) a)"
    and "sys_openat K d n fl m (world a) = (Inr f, w')"
  shows "node_of V (world a) f = None \<and> (\<exists>x\<in>N. node_of V w' f = Some x)"
proof
  show "node_of V (world a) f = None"
    using laws homely_once(4) [OF assms(1)] assms(3) unfolding dir_laws_def law_fresh_def by blast
  from assms(2) obtain k where k: "inside V N d k (world a)"
      "n = DOT \<or> n = DOTDOT \<and> k > 0 \<or> plain n \<and> fl AND O_NOFOLLOW K = O_NOFOLLOW K" by auto
  have "\<exists>j. inside V N f j w'"
    using k inside_step [OF laws] assms(3) by (metis Suc_pred')
  then obtain j where "inside V N f j w'" ..
  then show "\<exists>x\<in>N. node_of V w' f = Some x" by (rule inside_reach)
qed

lemma dup_within:
  assumes "homely V D N a" and "ok (check (sandbox K V N) (CDup g) a)" and "sys_dup K g (world a) = (Inr f, w')"
  shows "node_of V (world a) f = None \<and> (\<exists>x\<in>N. node_of V w' f = Some x)"
proof -
  obtain x where "x \<in> N" "node_of V (world a) g = Some x" using homely_fd [OF assms(1), of g] assms(2) by auto
  with laws homely_once(4) [OF assms(1)] assms(3) show ?thesis unfolding dir_laws_def law_dup_def by blast
qed

lemma close_safe: "keeps_do (safe V D N) (sys_close S f)"
  unfolding keeps_do_def safe_def
proof (intro allI impI)
  fix a assume "ok a \<longrightarrow> homely V D N a" "ok (sys_close S f a)"
  then have h: "homely V D N a" and f: "f \<in># held a" by simp_all
  show "homely V D N (sys_close S f a)"
    by (rule homely_close [OF h laws stream_calls _ _ _ f]) simp_all
qed

lemma closedir_safe: "keeps_do (safe V D N) (sys_closedir S s)"
  unfolding keeps_do_def safe_def
proof (intro allI impI)
  fix a assume "ok a \<longrightarrow> homely V D N a" "ok (sys_closedir S s a)"
  then have h: "homely V D N a" and st: "s \<in># strm a" by (simp_all add: audited_def)
  show "homely V D N (sys_closedir S s a)"
    by (rule homely_closedir [OF h stream_calls _ _ _ st]) (simp_all add: audited_def)
qed

lemma fdopendir_safe: "keeps (safe V D N) (sys_fdopendir S f)"
  unfolding keeps_def safe_def
proof (intro allI impI)
  fix a assume a: "ok a \<longrightarrow> homely V D N a" "ok (snd (sys_fdopendir S f a))"
  obtain r w' where op: "sys_fdopendir K f (world a) = (r, w')" by (cases "sys_fdopendir K f (world a)")
  have held: "f \<in># held a" and h: "homely V D N a"
    using a op by (cases r; simp add: audited_def on_base_eq)+
  have l: "leaves V D (world a) w'"
    using milds(17) op homely_once(4) [OF h] unfolding mild_def by (metis snd_conv)
  show "homely V D N (snd (sys_fdopendir S f a))"
  proof (cases r)
    case (Inl e)
    with op l show ?thesis by (intro homely_leaves [OF h]) (simp_all add: audited_def on_base_eq)
  next
    case (Inr s)
    with op l held show ?thesis
      by (intro homely_fdopendir [OF h stream_calls, where f = f and s = s]) (simp_all add: audited_def on_base_eq)
  qed
qed

end

text \<open>So the functions of the NIF keep it.\<close>

sublocale guests \<subseteq> life: framed "audited (sandbox K V (reach V R)) K" "safe V D (reach V R)"
proof
  show "keeps (safe V D N) (sys_open S p fl)" for p fl
    by (auto simp: keeps_def safe_def audited_def on_base_eq gain_def split: sum.split)
  have "keeps (safe V D N) (\<lambda>a. gain (on_base (sys_openat K d n fl m) (check (sandbox K V N) (COpenat d n fl) a)))"
    for d n fl m by (rule safe_gain [OF milds(1)]) (rule openat_within)
  then show "keeps (safe V D N) (sys_openat S d n fl m)" for d n fl m by (simp add: audited_def)
  have "keeps (safe V D N) (\<lambda>a. gain (on_base (sys_dup K f) (check (sandbox K V N) (CDup f) a)))"
    for f by (rule safe_gain [OF milds(3)]) (rule dup_within)
  then show "keeps (safe V D N) (sys_dup S f)" for f by (simp add: audited_def)
  show "keeps (safe V D N) (sys_fdopendir S f)" for f by (rule fdopendir_safe)
  show "keeps_do (safe V D N) (sys_close S f)" for f by (rule close_safe)
  show "keeps_do (safe V D N) (sys_closedir S s)" for s by (rule closedir_safe)
  show "keeps_do (safe V D N) (sys_rewinddir S s)" for s
    using safe_checked_do [OF milds(18)] by (simp add: audited_def)
  show "keeps_do (safe V D N) (sys_seekdir S s c)" for s c
    using safe_checked_do [OF milds(19)] by (simp add: audited_def)
qed (simp add: audited_def safe_checked [OF milds(2)] safe_checked [OF milds(4)] safe_checked [OF milds(5)]
    safe_checked [OF milds(6)] safe_checked [OF milds(7)] safe_checked [OF milds(8)] safe_checked [OF milds(9)]
    safe_checked [OF milds(10)] safe_checked [OF milds(11)] safe_checked [OF milds(12)] safe_checked [OF milds(13)]
    safe_checked [OF milds(14)] safe_checked [OF milds(15)] safe_checked [OF milds(16)] safe_checked [OF milds(20)]
    safe_checked [OF milds(21)] safe_checked [OF milds(22)] safe_on_base [OF milds(23)] safe_on_base [OF milds(24)]
    safe_on_base [OF milds(25)] safe_on_base [OF milds(26)])+

subsection \<open>Runs of a guest\<close>

text \<open>
  A guest's events: anything but \<^verbatim>\<open>FOLLOW\<close> operations and the granting of roots, which is not its to do:
  \<^verbatim>\<open>open_dir\<close>, and \<^verbatim>\<open>open_at\<close> with a name in the place of the handle.
\<close>

fun guest_event :: "event \<Rightarrow> bool" where
  "guest_event (Call f argv) =
     (harmless f argv \<and> f \<noteq> Open_dir \<and> (f = Open_at \<longrightarrow> (case argv of TList cs # _ \<Rightarrow> False | _ \<Rightarrow> True)))"
| "guest_event (Collect i) = True"

lemma open_at_no_handle:
  assumes "get_resource s a = None" and "\<And>cs. a \<noteq> TList cs"
  shows "open_at_nif K [a, b, c, d] s = (Badarg, s)"
proof -
  have "get_string n a = None" for n using assms(2) by (cases a) auto
  with assms(1) show ?thesis by (simp add: open_at_nif_def open_base_def)
qed

context guests begin

lemma guest_step:
  assumes "event_step S e s = Some s'" and "in_order s" "safe V D N (kern s)" "guest_event e"
    and mutex: "\<And>w. fst (mutex_create K w)"
  shows "in_order s'"
proof (cases e)
  case (Collect i)
  with assms(1,2) show ?thesis
    by (auto simp: in_order_def live_def intro: guest.file_dtor_books split: if_splits)
next
  case (Call f argv)
  then obtain r where run: "run_fun S f argv s = Some (r, s')" using assms(1) by auto
  have placed: "inside V N g 0 (world (kern s))" if "live s i" "h_fd (handle s i) = Some g" for i g
  proof -
    have "ok (kern s)" "g \<in># held (kern s)"
      using assms(2) that by (auto simp: in_order_def books_def live_def handle_def intro: owned_by_member)
    then have h: "homely V D N (kern s)" using assms(3) by (simp add: safe_def)
    then obtain x where "x \<in> N" "node_of V (world (kern s)) g = Some x" using homely_fd \<open>g \<in># _\<close> by blast
    with homely_once(4) [OF h] show ?thesis by (auto simp: inside_def intro: below.here)
  qed
  show ?thesis
  proof (cases "\<exists>a b c d. f = Open_at \<and> argv = [a, b, c, d] \<and> get_resource s a = None")
    case True
    then obtain a b c d where abcd: "f = Open_at" "argv = [a, b, c, d]" "get_resource s a = None" by blast
    then have "a \<noteq> TList cs" for cs using assms(4) Call by auto
    then have "open_at_nif S argv s = (Badarg, s)" using open_at_no_handle [OF abcd(3)] abcd(2) by simp
    with abcd(1) run show ?thesis using assms(2) by simp
  next
    case False
    show ?thesis
      by (rule guest_run_fun [OF run assms(2) placed _ _ _ mutex]) (use assms(4) Call False in auto)
  qed
qed

lemma guest_run:
  assumes "run S es s = Some s'" and "in_order s" "safe V D N (kern s)" "list_all guest_event es"
    and mutex: "\<And>w. fst (mutex_create K w)"
  shows "in_order s' \<and> safe V D N (kern s')"
  using assms(1-4)
proof (induction es arbitrary: s)
  case (Cons e es)
  then obtain s1 where s1: "event_step S e s = Some s1" "run S es s1 = Some s'" by (auto split: option.splits)
  from s1(1) Cons.prems have "in_order s1" by (auto intro: guest_step [OF _ _ _ _ mutex])
  moreover have "safe V D N (kern s1)" by (rule life.event_step_kept [OF s1(1) Cons.prems(3)])
  ultimately show ?case using Cons.IH [OF s1(2)] Cons.prems(4) by simp
qed simp

end

subsection \<open>The kernel in memory has these laws too\<close>

text \<open>A stream of it goes by the number of its descriptor.\<close>

definition mem_D :: "mem \<Rightarrow> dirp \<Rightarrow> fd option" where
  "mem_D w s = map_option (\<lambda>_. s) (map_of (strms w) s)"

lemma leaves_same: "good V w \<Longrightarrow> leaves V D w w"
  by (simp add: leaves_def persists_def)

lemma leaves_give_fd: "mem_good C w \<Longrightarrow> leaves (mem_view C) mem_D w (snd (give_fd x w))"
  using give_fd_persists [of C w x] by (simp add: leaves_def) (simp add: give_fd_def mem_D_def)

lemma leaves_tick: "mem_good C w \<Longrightarrow> leaves (mem_view C) mem_D w (tick w)"
  using tick_persists [of C w] by (simp add: leaves_def mem_D_def tick_def split: list.split)

lemma leaves_trans: "leaves V D a b \<Longrightarrow> leaves V D b c \<Longrightarrow> leaves V D a c"
  by (auto simp: leaves_def intro: persists_trans)

lemma map_of_move_stream:
  "map_of (strms (move_stream s g w)) s' =
    map_option (\<lambda>(es, i). (es, if s' = s then g i else i)) (map_of (strms w) s')"
proof -
  have "map_of (map (\<lambda>(s', es, i). (s', es, if s' = s then g i else i)) xs) s' =
      map_option (\<lambda>(es, i). (es, if s' = s then g i else i)) (map_of xs s')" for xs
    by (induction xs) auto
  then show ?thesis by (simp add: move_stream_def)
qed

lemma leaves_move_stream: "mem_good C w \<Longrightarrow> leaves (mem_view C) mem_D w (move_stream s g w)"
  by (auto simp: leaves_def persists_def mem_D_def mem_view_def map_of_move_stream)
    (simp_all add: move_stream_def mem_good_def)

lemma leaves_openat: "mem_good C w \<Longrightarrow> leaves (mem_view C) mem_D w (snd (mem_openat d n fl m w))"
  by (cases rule: mem_openat_cases [of d n fl m w])
    (auto intro: leaves_trans leaves_tick leaves_give_fd tick_good)

lemma leaves_fdopendir: "mem_good C w \<Longrightarrow> leaves (mem_view C) mem_D w (snd (mem_fdopendir f w))"
  by (auto simp: mem_fdopendir_def leaves_def persists_def mem_view_def mem_good_def mem_D_def
      split: sum.split mnode.split)

lemma leaves_readdir: "mem_good C w \<Longrightarrow> leaves (mem_view C) mem_D w (snd (mem_readdir s w))"
  using leaves_move_stream [of C w s Suc] leaves_same [of "mem_view C" w mem_D]
  by (auto simp: mem_readdir_def mem_view_def split: option.split)

lemma mem_law_mild: "law_mild mem_kernel (mem_view C) mem_D"
  unfolding law_mild_def
proof (intro conjI allI)
  have good: "good (mem_view C) = mem_good C" by (simp add: mem_view_def)
  have same: "leaves (mem_view C) mem_D w w" if "mem_good C w" for w
    using that leaves_same [of "mem_view C"] good by simp
  note leaf = same leaves_tick leaves_openat leaves_give_fd leaves_move_stream leaves_fdopendir leaves_readdir
  show "mild (mem_view C) mem_D (sys_dup mem_kernel f)" for f
    by (auto simp: mild_def mem_kernel_def good leaf split: option.split)
  show "mild (mem_view C) mem_D (sys_readlinkat mem_kernel d n k)" for d n k
    by (simp add: mild_def mem_kernel_def good leaf mem_readlinkat_def Let_def)
  show "mild (mem_view C) mem_D (sys_telldir mem_kernel s)" for s
    by (simp add: mild_def mem_kernel_def good leaf mem_telldir_def)
  show "mild (mem_view C) mem_D (sys_pread mem_kernel f n off)" for f n off
    by (simp add: mild_def mem_kernel_def good leaf mem_pread_def)
qed (simp_all add: mild_def mem_kernel_def mem_view_def leaves_same [of "mem_view C", unfolded mem_view_def, simplified]
    leaves_openat [unfolded mem_view_def] leaves_move_stream [unfolded mem_view_def]
    leaves_fdopendir [unfolded mem_view_def] leaves_readdir [unfolded mem_view_def])

lemma mem_law_streams: "law_streams mem_kernel (mem_view C) mem_D"
proof -
  have "mem_D (mem_close f w) s = mem_D w s" for f s w by (simp add: mem_D_def mem_close_def)
  moreover have "mem_D w' s = Some f \<and> mem_D w s \<in> {None, Some f}" if "mem_fdopendir f w = (Inr s, w')" for f s w w'
    using that by (auto simp: mem_fdopendir_def mem_D_def split: sum.splits mnode.splits)
  moreover have "mem_D (w\<lparr>strms := filter (\<lambda>p. fst p \<noteq> s) (strms w)\<rparr>) s' = mem_D w s'" if "s' \<noteq> s" for s s' w
    using that by (simp add: mem_D_def map_of_filter_ne)
  ultimately show ?thesis
    unfolding law_streams_def by (simp add: mem_kernel_def mem_view_def mem_good_def)
qed

interpretation mem_guests: guests mem_kernel "mem_view C" mem_D R for C :: "(nat \<times> nat) list" and R :: "nat set"
  by unfold_locales (rule mem_law_mild mem_law_streams)+

subsection \<open>The property\<close>

lemma guest_run_inside:
  assumes "dir_laws K V" and "law_mild K V D" and "law_streams K V D"
    and "\<And>w. fst (mutex_create K w)"
    and "in_order s" and "homely V D (reach V R) (kern s)" and "list_all guest_event es"
    and "run (audited (sandbox K V (reach V R)) K) es s = Some s'"
  shows "ok (kern s') \<and> in_order s' \<and>
    (\<forall>i f. live s' i \<longrightarrow> h_fd (handle s' i) = Some f \<longrightarrow> (\<exists>k. inside V R f k (world (kern s'))))"
proof -
  have "guests K V D"
    by (intro guests.intro guests_axioms.intro directories.intro assms)
  then have "in_order s' \<and> safe V D (reach V R) (kern s')"
    by (rule guests.guest_run [OF _ assms(8,5) _ assms(7,4)]) (simp add: safe_def assms(6))
  then have s': "in_order s'" "ok (kern s')" "homely V D (reach V R) (kern s')"
    by (auto simp: in_order_def books_def safe_def)
  have "\<exists>k. inside V R f k (world (kern s'))" if "live s' i" "h_fd (handle s' i) = Some f" for i f
  proof -
    have "f \<in># held (kern s')"
      using s'(1) that by (auto simp: in_order_def books_def live_def handle_def intro: owned_by_member)
    then show ?thesis
      using homely_fd [OF s'(3)] homely_once(4) [OF s'(3)] by (fastforce simp: reach_def inside_def)
  qed
  with s' show ?thesis by blast
qed

text \<open>One preopen, the root of the sample.\<close>

definition sample_nif :: "mem audit nif" where
  "sample_nif = \<lparr>kern = audit_of sample,
     handles = [\<lparr>h_lock = Unlocked, h_fd = Some 7, h_is_dir = True, h_dirp = None\<rparr>]\<rparr>"

lemma mem_mutex: "fst (mutex_create mem_kernel w)"
  by (simp add: mem_kernel_def)

lemma sample_nif_ready:
  "in_order sample_nif" "homely (mem_view sample_entries) mem_D (reach (mem_view sample_entries) {1}) (kern sample_nif)"
proof -
  have held: "held (audit_of sample) = {#7#}" "strm (audit_of sample) = {#}" "ok (audit_of sample)"
      "world (audit_of sample) = sample"
    by (simp_all add: audit_of_def sample_def mem_world_def)
  then show "in_order sample_nif" by (simp add: sample_nif_def in_order_def books_def handles_ok_def)
  have "1 \<in> reach (mem_view sample_entries) {1}" by (auto simp: reach_def intro: below.here)
  with sample_good held show "homely (mem_view sample_entries) mem_D (reach (mem_view sample_entries) {1}) (kern sample_nif)"
    by (simp add: sample_nif_def homely_def) (simp add: mem_view_def sample_simps)
qed



end
