(* ===== verification/Fs_Native.thy ===== *)
theory Fs_Native
  imports Nif_Types Nif_Runs
begin

text \<open>
  The module above the NIF: the native clauses of \<^verbatim>\<open>wasi_fs.erl\<close>, one definition per function. They name
  the operations, encode modes and timestamps, and turn the atoms of the errors into WASI codes. What
  is proved is the composition: a request of the types of the module is always answered, never raised,
  with a WASI code for every error; and whatever requests a guest makes of its roots and files, the
  calls they lead to stay inside the sandbox.

  A root or handle is \<^verbatim>\<open>{native, H}\<close>; the functions take the index of \<^verbatim>\<open>H\<close>. The fallback clauses, over
  the \<^verbatim>\<open>file\<close> module, are not part of this.
\<close>

subsection \<open>Answers\<close>

text \<open>An Erlang function returns a term or raises an error.\<close>

datatype fs_result = Ret eterm | Raise string

abbreviation case_clause :: fs_result where "case_clause \<equiv> Raise ''case_clause''"

text \<open>A \<^verbatim>\<open>case\<close> on what a NIF function answers; \<^verbatim>\<open>badarg\<close> passes through.\<close>

definition nif_case :: "(eterm \<Rightarrow> fs_result) \<Rightarrow> (nif_result \<times> 'w nif) option \<Rightarrow> (fs_result \<times> 'w nif) option" where
  "nif_case k p = map_option (\<lambda>(r, s). (case r of Term t \<Rightarrow> k t | Badarg \<Rightarrow> Raise ''badarg'', s)) p"

text \<open>The same where the state goes on through more calls.\<close>

definition nif_then :: "(eterm \<Rightarrow> 'w nif \<Rightarrow> (fs_result \<times> 'w nif) option) \<Rightarrow> (nif_result \<times> 'w nif) option
    \<Rightarrow> (fs_result \<times> 'w nif) option" where
  "nif_then k p = (case p of
       None \<Rightarrow> None
     | Some (r, s) \<Rightarrow> (case r of Term t \<Rightarrow> k t s | Badarg \<Rightarrow> Some (Raise ''badarg'', s)))"

definition error_code :: "nat \<Rightarrow> fs_result" where
  "error_code n = Ret (TTuple [Atom ''error'', TInt (int n)])"

abbreviation mapped_error :: "eterm \<Rightarrow> fs_result" where "mapped_error e \<equiv> error_code (map_posix e)"

text \<open>\<^verbatim>\<open>{error, E} -> {error, map_posix(E)}; Other -> Other\<close>.\<close>

fun other_case :: "eterm \<Rightarrow> fs_result" where
  "other_case (TTuple [Atom a, e]) = (if a = ''error'' then mapped_error e else Ret (TTuple [Atom a, e]))"
| "other_case t = Ret t"

text \<open>\<^verbatim>\<open>ok -> ok; {error, E} -> {error, map_posix(E)}\<close>.\<close>

fun unit_case :: "eterm \<Rightarrow> fs_result" where
  "unit_case (Atom a) = (if a = ''ok'' then Ret atom_ok else case_clause)"
| "unit_case (TTuple [Atom a, e]) = (if a = ''error'' then mapped_error e else case_clause)"
| "unit_case t = case_clause"

text \<open>\<^verbatim>\<open>{ok, V} -> ...; {error, E} -> {error, map_posix(E)}\<close>.\<close>

fun value_case :: "(eterm \<Rightarrow> fs_result) \<Rightarrow> eterm \<Rightarrow> fs_result" where
  "value_case k (TTuple [Atom a, v]) =
     (if a = ''ok'' then k v else if a = ''error'' then mapped_error v else case_clause)"
| "value_case k t = case_clause"

fun ok_value :: "eterm \<Rightarrow> eterm option" where
  "ok_value (TTuple [Atom a, v]) = (if a = ''ok'' then Some v else None)"
| "ok_value t = None"

definition native :: "eterm \<Rightarrow> eterm" where
  "native h = TTuple [Atom ''native'', h]"

abbreviation native_case :: "eterm \<Rightarrow> fs_result" where
  "native_case \<equiv> value_case (\<lambda>h. Ret (mk_ok (native h)))"

subsection \<open>Opening\<close>

text \<open>\<^verbatim>\<open>O_CREAT\<close>, \<^verbatim>\<open>O_TRUNC\<close> and \<^verbatim>\<open>O_EXCL\<close> are those of \<^verbatim>\<open>os:type()\<close>: \<open>darwin\<close> says which.\<close>

datatype fs_mode = Read | Write | Create | Trunc | Exclusive | Follow

definition o_creat :: "bool \<Rightarrow> int" where "o_creat darwin = (if darwin then 0x200 else 0x40)"
definition o_trunc :: "bool \<Rightarrow> int" where "o_trunc darwin = (if darwin then 0x400 else 0x200)"
definition o_excl :: "bool \<Rightarrow> int" where "o_excl darwin = (if darwin then 0x800 else 0x80)"

definition native_flags :: "bool \<Rightarrow> fs_mode list \<Rightarrow> int" where
  "native_flags darwin modes =
     (if Read \<in> set modes \<and> Write \<in> set modes then 2 else if Write \<in> set modes then 1 else 0)
       OR (if Create \<in> set modes then o_creat darwin else 0)
       OR (if Trunc \<in> set modes then o_trunc darwin else 0)
       OR (if Exclusive \<in> set modes then o_excl darwin else 0)"

definition fs_preopen :: "'w kernel \<Rightarrow> eterm \<Rightarrow> 'w nif \<Rightarrow> (fs_result \<times> 'w nif) option" where
  "fs_preopen K host s = nif_case native_case (run_fun K Open_dir [host] s)"

definition fs_open_native :: "'w kernel \<Rightarrow> bool \<Rightarrow> nat \<Rightarrow> bytes \<Rightarrow> fs_mode list \<Rightarrow> 'w nif
    \<Rightarrow> (fs_result \<times> 'w nif) option" where
  "fs_open_native K darwin dir guest modes s =
     nif_case native_case
       (run_fun K Open_at [TRes dir, TBin guest, TInt (native_flags darwin modes),
          TInt (if Follow \<in> set modes then 1 else 0)] s)"

definition fs_open_dir_at :: "'w kernel \<Rightarrow> bool \<Rightarrow> nat \<Rightarrow> bytes \<Rightarrow> 'w nif \<Rightarrow> (fs_result \<times> 'w nif) option" where
  "fs_open_dir_at K darwin dir guest s = fs_open_native K darwin dir guest [Read, Follow] s"

definition fs_dup :: "'w kernel \<Rightarrow> nat \<Rightarrow> 'w nif \<Rightarrow> (fs_result \<times> 'w nif) option" where
  "fs_dup K h s = nif_case native_case (run_fun K Dup [TRes h] s)"

definition fs_forget :: "'w kernel \<Rightarrow> nat \<Rightarrow> 'w nif \<Rightarrow> (fs_result \<times> 'w nif) option" where
  "fs_forget K h s = nif_case (\<lambda>_. Ret atom_ok) (run_fun K Close [TRes h] s)"

definition fs_close :: "'w kernel \<Rightarrow> nat \<Rightarrow> 'w nif \<Rightarrow> (fs_result \<times> 'w nif) option" where
  "fs_close K h s = nif_case Ret (run_fun K Close [TRes h] s)"

subsection \<open>Names in a directory\<close>

definition fs_op :: "'w kernel \<Rightarrow> nat \<Rightarrow> bytes \<Rightarrow> int \<Rightarrow> bytes \<Rightarrow> 'w nif \<Rightarrow> (fs_result \<times> 'w nif) option" where
  "fs_op K d guest opn arg s =
     nif_case other_case (run_fun K Path_op [TRes d, TBin guest, TInt opn, TBin arg] s)"

definition fs_op2 :: "'w kernel \<Rightarrow> nat \<Rightarrow> bytes \<Rightarrow> nat \<Rightarrow> bytes \<Rightarrow> int \<Rightarrow> 'w nif \<Rightarrow> (fs_result \<times> 'w nif) option" where
  "fs_op2 K d1 a d2 b opn s =
     nif_case other_case (run_fun K Path_op2 [TRes d1, TBin a, TRes d2, TBin b, TInt opn] s)"

definition fs_mkdir where "fs_mkdir K d guest s = fs_op K d guest OP_MKDIR [] s"
definition fs_unlink where "fs_unlink K d guest s = fs_op K d guest OP_UNLINK [] s"
definition fs_rmdir where "fs_rmdir K d guest s = fs_op K d guest OP_RMDIR [] s"
definition fs_symlink where "fs_symlink K d guest tgt s = fs_op K d guest OP_SYMLINK tgt s"
definition fs_readlink where "fs_readlink K d guest s = fs_op K d guest OP_READLINK [] s"

definition fs_stat where
  "fs_stat K d guest follow s = fs_op K d guest (if follow then OP_STAT_FOLLOW else OP_STAT) [] s"

definition fs_set_times where
  "fs_set_times K d guest atime mtime follow s =
     fs_op K d guest (if follow then OP_SETTIMES_FOLLOW else OP_SETTIMES) (times_spec atime mtime) s"

definition fs_link where "fs_link K d1 a d2 b s = fs_op2 K d1 a d2 b OP_LINK s"

text \<open>EEXIST (20) of a rename means that the target is not empty: ENOTEMPTY (55).\<close>

definition fs_rename :: "'w kernel \<Rightarrow> nat \<Rightarrow> bytes \<Rightarrow> nat \<Rightarrow> bytes \<Rightarrow> 'w nif \<Rightarrow> (fs_result \<times> 'w nif) option" where
  "fs_rename K d1 a d2 b s =
     map_option (\<lambda>(r, s'). (if r = error_code 20 then error_code 55 else r, s')) (fs_op2 K d1 a d2 b OP_RENAME s)"

subsection \<open>Open files\<close>

definition fs_pread :: "'w kernel \<Rightarrow> nat \<Rightarrow> int \<Rightarrow> int \<Rightarrow> 'w nif \<Rightarrow> (fs_result \<times> 'w nif) option" where
  "fs_pread K h off len s = nif_case other_case (run_fun K Pread [TRes h, TInt off, TInt len] s)"

definition fs_pwrite :: "'w kernel \<Rightarrow> nat \<Rightarrow> int \<Rightarrow> bytes \<Rightarrow> 'w nif \<Rightarrow> (fs_result \<times> 'w nif) option" where
  "fs_pwrite K h off data s = nif_case other_case (run_fun K Pwrite [TRes h, TInt off, TBin data] s)"

definition fs_truncate :: "'w kernel \<Rightarrow> nat \<Rightarrow> int \<Rightarrow> 'w nif \<Rightarrow> (fs_result \<times> 'w nif) option" where
  "fs_truncate K h len s = nif_case unit_case (run_fun K Ftruncate [TRes h, TInt len] s)"

definition fs_sync :: "'w kernel \<Rightarrow> nat \<Rightarrow> 'w nif \<Rightarrow> (fs_result \<times> 'w nif) option" where
  "fs_sync K h s = nif_case unit_case (run_fun K Fsync [TRes h] s)"

definition fs_set_times_fd :: "'w kernel \<Rightarrow> nat \<Rightarrow> nat option \<Rightarrow> nat option \<Rightarrow> 'w nif \<Rightarrow> (fs_result \<times> 'w nif) option" where
  "fs_set_times_fd K h atime mtime s =
     nif_case unit_case (run_fun K Futimes [TRes h, TBin (times_spec atime mtime)] s)"

definition fs_stat_fd :: "'w kernel \<Rightarrow> nat \<Rightarrow> 'w nif \<Rightarrow> (fs_result \<times> 'w nif) option" where
  "fs_stat_fd K h s = nif_case (value_case (\<lambda>i. Ret (mk_ok i))) (run_fun K Fstat [TRes h] s)"

text \<open>\<^verbatim>\<open>{ok, #{size := S}} -> {ok, S}\<close>.\<close>

definition size_of :: "eterm \<Rightarrow> fs_result" where
  "size_of i = (case i of
       TMap kvs \<Rightarrow> (case map_of kvs (Atom ''size'') of Some v \<Rightarrow> Ret (mk_ok v) | None \<Rightarrow> case_clause)
     | _ \<Rightarrow> case_clause)"

definition fs_size :: "'w kernel \<Rightarrow> nat \<Rightarrow> 'w nif \<Rightarrow> (fs_result \<times> 'w nif) option" where
  "fs_size K h s = nif_case (value_case size_of) (run_fun K Fstat [TRes h] s)"

subsection \<open>Listings\<close>

text \<open>\<open>fs_list\<close> leaves \<^verbatim>\<open>.\<close> and \<^verbatim>\<open>..\<close> out; \<open>fs_list_dir\<close>, which opens its root by name, does not.\<close>

definition without_dots :: "eterm \<Rightarrow> fs_result" where
  "without_dots v = (case v of
       TList ns \<Rightarrow> Ret (mk_ok (TList (filter (\<lambda>n. n \<noteq> TBin DOT \<and> n \<noteq> TBin DOTDOT) ns)))
     | _ \<Rightarrow> Raise ''bad_generator'')"

definition fs_list :: "'w kernel \<Rightarrow> nat \<Rightarrow> 'w nif \<Rightarrow> (fs_result \<times> 'w nif) option" where
  "fs_list K h s = nif_case (value_case without_dots) (run_fun K Readdir_names [TRes h] s)"

definition fs_list_dir :: "'w kernel \<Rightarrow> eterm \<Rightarrow> bytes \<Rightarrow> 'w nif \<Rightarrow> (fs_result \<times> 'w nif) option" where
  "fs_list_dir K root guest s =
     nif_then
       (\<lambda>t s1. case ok_value t of
          None \<Rightarrow> Some (value_case (\<lambda>_. case_clause) t, s1)
        | Some h \<Rightarrow>
            nif_then
              (\<lambda>names s2. case value_case (\<lambda>ns. Ret (mk_ok ns)) names of
                 Raise e \<Rightarrow> Some (Raise e, s2)
               | Ret result \<Rightarrow>
                   nif_case (\<lambda>c. if c = atom_ok then Ret result else Raise ''badmatch'') (run_fun K Close [h] s2))
              (run_fun K Readdir_names [h] s1))
       (run_fun K Open_at [root, TBin guest, TInt 0, TInt 1] s)"

definition fs_readdir :: "'w kernel \<Rightarrow> nat \<Rightarrow> int \<Rightarrow> int \<Rightarrow> 'w nif \<Rightarrow> (fs_result \<times> 'w nif) option" where
  "fs_readdir K h cookie buflen s =
     nif_case (value_case (\<lambda>b. Ret (mk_ok b))) (run_fun K Readdir [TRes h, TInt cookie, TInt buflen] s)"

end
