(* ===== verification/Fs_Requests.thy ===== *)
theory Fs_Requests
  imports Fs_Native
begin

text \<open>
  Everything a guest's descriptor table can ask of \<^verbatim>\<open>wasi_fs\<close>, as one type of requests, and what the
  composition with the NIF promises: typed requests are answered, errors are WASI codes, and the
  requests a guest may make, in any order, stay inside its preopens.
\<close>

subsection \<open>Requests\<close>

datatype fs_req =
    Rq_preopen eterm
  | Rq_open_dir_at nat bytes
  | Rq_open nat bytes "fs_mode list"
  | Rq_dup nat
  | Rq_forget nat
  | Rq_close nat
  | Rq_mkdir nat bytes
  | Rq_unlink nat bytes
  | Rq_rmdir nat bytes
  | Rq_symlink nat bytes bytes
  | Rq_readlink nat bytes
  | Rq_stat nat bytes bool
  | Rq_set_times nat bytes "nat option" "nat option" bool
  | Rq_rename nat bytes nat bytes
  | Rq_link nat bytes nat bytes
  | Rq_pread nat int int
  | Rq_pwrite nat int bytes
  | Rq_truncate nat int
  | Rq_sync nat
  | Rq_set_times_fd nat "nat option" "nat option"
  | Rq_stat_fd nat
  | Rq_size nat
  | Rq_list nat
  | Rq_readdir nat int int

fun fs_request :: "'w kernel \<Rightarrow> bool \<Rightarrow> fs_req \<Rightarrow> 'w nif \<Rightarrow> (fs_result \<times> 'w nif) option" where
  "fs_request K darwin (Rq_preopen host) s = fs_preopen K host s"
| "fs_request K darwin (Rq_open_dir_at d p) s = fs_open_dir_at K darwin d p s"
| "fs_request K darwin (Rq_open d p modes) s = fs_open_native K darwin d p modes s"
| "fs_request K darwin (Rq_dup h) s = fs_dup K h s"
| "fs_request K darwin (Rq_forget h) s = fs_forget K h s"
| "fs_request K darwin (Rq_close h) s = fs_close K h s"
| "fs_request K darwin (Rq_mkdir d p) s = fs_mkdir K d p s"
| "fs_request K darwin (Rq_unlink d p) s = fs_unlink K d p s"
| "fs_request K darwin (Rq_rmdir d p) s = fs_rmdir K d p s"
| "fs_request K darwin (Rq_symlink d p tgt) s = fs_symlink K d p tgt s"
| "fs_request K darwin (Rq_readlink d p) s = fs_readlink K d p s"
| "fs_request K darwin (Rq_stat d p follow) s = fs_stat K d p follow s"
| "fs_request K darwin (Rq_set_times d p a m follow) s = fs_set_times K d p a m follow s"
| "fs_request K darwin (Rq_rename d1 p1 d2 p2) s = fs_rename K d1 p1 d2 p2 s"
| "fs_request K darwin (Rq_link d1 p1 d2 p2) s = fs_link K d1 p1 d2 p2 s"
| "fs_request K darwin (Rq_pread h off len) s = fs_pread K h off len s"
| "fs_request K darwin (Rq_pwrite h off bs) s = fs_pwrite K h off bs s"
| "fs_request K darwin (Rq_truncate h len) s = fs_truncate K h len s"
| "fs_request K darwin (Rq_sync h) s = fs_sync K h s"
| "fs_request K darwin (Rq_set_times_fd h a m) s = fs_set_times_fd K h a m s"
| "fs_request K darwin (Rq_stat_fd h) s = fs_stat_fd K h s"
| "fs_request K darwin (Rq_size h) s = fs_size K h s"
| "fs_request K darwin (Rq_list h) s = fs_list K h s"
| "fs_request K darwin (Rq_readdir h cookie len) s = fs_readdir K h cookie len s"

lemmas fs_defs = fs_preopen_def fs_open_dir_at_def fs_open_native_def fs_dup_def fs_forget_def fs_close_def
  fs_mkdir_def fs_unlink_def fs_rmdir_def fs_symlink_def fs_readlink_def fs_stat_def fs_set_times_def
  fs_rename_def fs_link_def fs_op_def fs_op2_def fs_pread_def fs_pwrite_def fs_truncate_def fs_sync_def
  fs_set_times_fd_def fs_stat_fd_def fs_size_def fs_list_def fs_readdir_def

text \<open>Each is one call of the NIF and a reading of its answer.\<close>

fun rq_call :: "bool \<Rightarrow> fs_req \<Rightarrow> nif_fun \<times> eterm list" where
  "rq_call dw (Rq_preopen host) = (Open_dir, [host])"
| "rq_call dw (Rq_open_dir_at d p) = (Open_at, [TRes d, TBin p, TInt (native_flags dw [Read, Follow]), TInt 1])"
| "rq_call dw (Rq_open d p modes) =
     (Open_at, [TRes d, TBin p, TInt (native_flags dw modes), TInt (if Follow \<in> set modes then 1 else 0)])"
| "rq_call dw (Rq_dup h) = (Dup, [TRes h])"
| "rq_call dw (Rq_forget h) = (Close, [TRes h])"
| "rq_call dw (Rq_close h) = (Close, [TRes h])"
| "rq_call dw (Rq_mkdir d p) = (Path_op, [TRes d, TBin p, TInt OP_MKDIR, TBin []])"
| "rq_call dw (Rq_unlink d p) = (Path_op, [TRes d, TBin p, TInt OP_UNLINK, TBin []])"
| "rq_call dw (Rq_rmdir d p) = (Path_op, [TRes d, TBin p, TInt OP_RMDIR, TBin []])"
| "rq_call dw (Rq_symlink d p tgt) = (Path_op, [TRes d, TBin p, TInt OP_SYMLINK, TBin tgt])"
| "rq_call dw (Rq_readlink d p) = (Path_op, [TRes d, TBin p, TInt OP_READLINK, TBin []])"
| "rq_call dw (Rq_stat d p fo) = (Path_op, [TRes d, TBin p, TInt (if fo then OP_STAT_FOLLOW else OP_STAT), TBin []])"
| "rq_call dw (Rq_set_times d p a m fo) =
     (Path_op, [TRes d, TBin p, TInt (if fo then OP_SETTIMES_FOLLOW else OP_SETTIMES), TBin (times_spec a m)])"
| "rq_call dw (Rq_rename d1 p1 d2 p2) = (Path_op2, [TRes d1, TBin p1, TRes d2, TBin p2, TInt OP_RENAME])"
| "rq_call dw (Rq_link d1 p1 d2 p2) = (Path_op2, [TRes d1, TBin p1, TRes d2, TBin p2, TInt OP_LINK])"
| "rq_call dw (Rq_pread h off len) = (Pread, [TRes h, TInt off, TInt len])"
| "rq_call dw (Rq_pwrite h off bs) = (Pwrite, [TRes h, TInt off, TBin bs])"
| "rq_call dw (Rq_truncate h len) = (Ftruncate, [TRes h, TInt len])"
| "rq_call dw (Rq_sync h) = (Fsync, [TRes h])"
| "rq_call dw (Rq_set_times_fd h a m) = (Futimes, [TRes h, TBin (times_spec a m)])"
| "rq_call dw (Rq_stat_fd h) = (Fstat, [TRes h])"
| "rq_call dw (Rq_size h) = (Fstat, [TRes h])"
| "rq_call dw (Rq_list h) = (Readdir_names, [TRes h])"
| "rq_call dw (Rq_readdir h c len) = (Readdir, [TRes h, TInt c, TInt len])"

fun rq_case :: "fs_req \<Rightarrow> eterm \<Rightarrow> fs_result" where
  "rq_case (Rq_preopen host) = native_case"
| "rq_case (Rq_open_dir_at d p) = native_case"
| "rq_case (Rq_open d p modes) = native_case"
| "rq_case (Rq_dup h) = native_case"
| "rq_case (Rq_forget h) = (\<lambda>_. Ret atom_ok)"
| "rq_case (Rq_close h) = Ret"
| "rq_case (Rq_rename d1 p1 d2 p2) = (\<lambda>t. if other_case t = error_code 20 then error_code 55 else other_case t)"
| "rq_case (Rq_truncate h len) = unit_case"
| "rq_case (Rq_sync h) = unit_case"
| "rq_case (Rq_set_times_fd h a m) = unit_case"
| "rq_case (Rq_stat_fd h) = value_case (\<lambda>i. Ret (mk_ok i))"
| "rq_case (Rq_size h) = value_case size_of"
| "rq_case (Rq_list h) = value_case without_dots"
| "rq_case (Rq_readdir h c len) = value_case (\<lambda>b. Ret (mk_ok b))"
| "rq_case rq = other_case"

lemma nif_case_map:
  "map_option (\<lambda>(r, s). (if r = error_code n then error_code m else r, s)) (nif_case k p)
    = nif_case (\<lambda>t. if k t = error_code n then error_code m else k t) p"
  by (cases p) (auto simp: nif_case_def error_code_def split: nif_result.split)

lemma fs_request_one_call:
  "fs_request K dw rq s = nif_case (rq_case rq) (run_fun K (fst (rq_call dw rq)) (snd (rq_call dw rq)) s)"
  by (cases rq) (simp_all add: fs_defs nif_case_map del: run_fun.simps)

lemma fs_requestE:
  assumes "fs_request K dw rq s = Some (r, s')"
  obtains q where "run_fun K (fst (rq_call dw rq)) (snd (rq_call dw rq)) s = Some (q, s')"
    "r = (case q of Term t \<Rightarrow> rq_case rq t | Badarg \<Rightarrow> Raise ''badarg'')"
  using assms unfolding fs_request_one_call nif_case_def by (auto split: prod.splits)

subsection \<open>Typed requests\<close>

text \<open>
  What the specs of \<^verbatim>\<open>wasi_fs\<close> ask for, with the ranges the NIF can take: offsets and sizes below $2^{63}$,
  lengths and cookies below $2^{64}$, buffers below $2^{32}$.
\<close>

fun fs_typed :: "'w nif \<Rightarrow> fs_req \<Rightarrow> bool" where
  "fs_typed s (Rq_preopen host) = (get_string MAX_PATH_LEN host \<noteq> None)"
| "fs_typed s (Rq_open_dir_at d p) = live s d"
| "fs_typed s (Rq_open d p modes) = live s d"
| "fs_typed s (Rq_dup h) = live s h"
| "fs_typed s (Rq_forget h) = live s h"
| "fs_typed s (Rq_close h) = live s h"
| "fs_typed s (Rq_mkdir d p) = live s d"
| "fs_typed s (Rq_unlink d p) = live s d"
| "fs_typed s (Rq_rmdir d p) = live s d"
| "fs_typed s (Rq_symlink d p tgt) = live s d"
| "fs_typed s (Rq_readlink d p) = live s d"
| "fs_typed s (Rq_stat d p fo) = live s d"
| "fs_typed s (Rq_set_times d p a m fo) = live s d"
| "fs_typed s (Rq_rename d1 p1 d2 p2) = (live s d1 \<and> live s d2)"
| "fs_typed s (Rq_link d1 p1 d2 p2) = (live s d1 \<and> live s d2)"
| "fs_typed s (Rq_pread h off len) = (live s h \<and> 0 \<le> off \<and> off < 2 ^ 63 \<and> 0 \<le> len \<and> len < 2 ^ 64)"
| "fs_typed s (Rq_pwrite h off bs) = (live s h \<and> 0 \<le> off \<and> off < 2 ^ 63)"
| "fs_typed s (Rq_truncate h len) = (live s h \<and> 0 \<le> len \<and> len < 2 ^ 63)"
| "fs_typed s (Rq_sync h) = live s h"
| "fs_typed s (Rq_set_times_fd h a m) = live s h"
| "fs_typed s (Rq_stat_fd h) = live s h"
| "fs_typed s (Rq_size h) = live s h"
| "fs_typed s (Rq_list h) = live s h"
| "fs_typed s (Rq_readdir h c len) = (live s h \<and> 0 \<le> c \<and> c < 2 ^ 64 \<and> 0 \<le> len \<and> len < 2 ^ 32)"

lemma native_flags_int32: "is_int32 (native_flags dw modes)"
  by (simp add: native_flags_def o_creat_def o_trunc_def o_excl_def)

lemma length_times_spec [simp]: "length (times_spec a m) = 33"
  by (simp add: times_spec_def)

lemma fs_typed_accepts:
  "fs_typed s rq \<Longrightarrow> accepts s (fst (rq_call dw rq)) (snd (rq_call dw rq))"
  using native_flags_int32 [of dw] by (cases rq) (auto simp: known_op_def intro: accepts.intros)

text \<open>The codes of \<^verbatim>\<open>include/wasi.hrl\<close> that an error can have: those of the table, and EIO.\<close>

definition wasi_codes :: "nat set" where
  "wasi_codes = insert 29 (snd ` set map_posix_table)"

fun is_code :: "eterm \<Rightarrow> bool" where
  "is_code (TTuple [Atom a, TInt n]) = (a = ''error'' \<and> n \<in> int ` wasi_codes)"
| "is_code t = False"

fun is_native :: "'w nif \<Rightarrow> eterm \<Rightarrow> bool" where
  "is_native s (TTuple [Atom a, h]) = (a = ''native'' \<and> is_handle s h)"
| "is_native s t = False"

fun is_names :: "eterm \<Rightarrow> bool" where
  "is_names (TList ns) = list_all is_bin ns"
| "is_names t = False"

fun is_nonneg :: "eterm \<Rightarrow> bool" where
  "is_nonneg (TInt n) = (n \<ge> 0)"
| "is_nonneg t = False"

fun is_int :: "eterm \<Rightarrow> bool" where
  "is_int (TInt n) = True"
| "is_int t = False"

fun fs_answers :: "fs_req \<Rightarrow> 'w nif \<Rightarrow> eterm \<Rightarrow> bool" where
  "fs_answers (Rq_preopen host) s t = (is_ok_of (is_native s) t \<or> is_code t)"
| "fs_answers (Rq_open_dir_at d p) s t = (is_ok_of (is_native s) t \<or> is_code t)"
| "fs_answers (Rq_open d p modes) s t = (is_ok_of (is_native s) t \<or> is_code t)"
| "fs_answers (Rq_dup h) s t = (is_ok_of (is_native s) t \<or> is_code t)"
| "fs_answers (Rq_forget h) s t = (t = atom_ok)"
| "fs_answers (Rq_close h) s t = (t = atom_ok)"
| "fs_answers (Rq_pread h off len) s t = (is_ok_of is_bin t \<or> t = Atom ''eof'' \<or> is_code t)"
| "fs_answers (Rq_pwrite h off bs) s t = (is_ok_of is_nonneg t \<or> is_code t)"
| "fs_answers (Rq_stat_fd h) s t = (is_ok_of is_stat t \<or> is_code t)"
| "fs_answers (Rq_size h) s t = (is_ok_of is_int t \<or> is_code t)"
| "fs_answers (Rq_list h) s t = (is_ok_of is_names t \<or> is_code t)"
| "fs_answers (Rq_readdir h c len) s t = (is_ok_of is_bin t \<or> is_code t)"
| "fs_answers (Rq_truncate h len) s t = (t = atom_ok \<or> is_code t)"
| "fs_answers (Rq_sync h) s t = (t = atom_ok \<or> is_code t)"
| "fs_answers (Rq_set_times_fd h a m) s t = (t = atom_ok \<or> is_code t)"
| "fs_answers (Rq_rename d1 p1 d2 p2) s t = (t = atom_ok \<or> is_code t)"
| "fs_answers (Rq_link d1 p1 d2 p2) s t = (t = atom_ok \<or> is_code t)"
| "fs_answers (Rq_readlink d p) s t = (is_ok_of is_bin t \<or> is_code t)"
| "fs_answers (Rq_stat d p fo) s t = (is_ok_of is_stat t \<or> is_code t)"
| "fs_answers rq s t = (t = atom_ok \<or> is_code t)"

text \<open>What \<^verbatim>\<open>path_op\<close> answers, by the operation.\<close>

declare mk_errno.simps [simp del]

definition op_answers :: "int \<Rightarrow> eterm \<Rightarrow> bool" where
  "op_answers opn t \<longleftrightarrow> is_error t \<or>
     (if opn = OP_STAT \<or> opn = OP_STAT_FOLLOW then is_ok_of is_stat t
      else if opn = OP_READLINK then is_ok_of is_bin t else t = atom_ok)"

lemma path_act_answers: "path_act K opn p n arg w = (q, w') \<Longrightarrow> reply q = Term t \<Longrightarrow> op_answers opn t"
  by (auto simp: path_act_def answer_def op_answers_def split: if_splits prod.splits sum.splits option.splits)

lemma path_op_answers: "path_op_nif K [a, b, TInt opn, c] s = (Term t, s') \<Longrightarrow> op_answers opn t"
  by (auto simp: path_op_nif_def sys_def dest: path_act_answers
      split: list.splits option.splits prod.splits sum.splits if_splits) (auto simp: op_answers_def)

text \<open>The cases, on answers of their types: each turns them into answers of the request's type.\<close>

lemma map_posix_code [simp]: "int (map_posix e) \<in> int ` wasi_codes"
proof -
  have "map_posix e \<in> wasi_codes"
    by (cases e) (auto simp: wasi_codes_def split: option.split dest!: map_of_SomeD intro: image_eqI rev_image_eqI)
  then show ?thesis by simp
qed

lemma is_errorE:
  assumes "is_error t" obtains e where "t = TTuple [Atom ''error'', e]" "is_reason e"
  using assms by (cases t rule: is_error.cases) auto

lemma is_ok_ofE:
  assumes "is_ok_of P t" obtains v where "t = TTuple [Atom ''ok'', v]" "P v"
  using assms by (cases t rule: is_error.cases) auto

lemma mapped_error_eq: "mapped_error e = Ret u \<longleftrightarrow> u = TTuple [Atom ''error'', TInt (int (map_posix e))]"
  by (auto simp: error_code_def)

lemma unit_shape: "t = atom_ok \<or> is_error t \<Longrightarrow> \<exists>u. unit_case t = Ret u \<and> (u = atom_ok \<or> is_code u)"
  by (auto elim!: is_errorE simp: mapped_error_eq)

lemma other_unit_shape: "t = atom_ok \<or> is_error t \<Longrightarrow> \<exists>u. other_case t = Ret u \<and> (u = atom_ok \<or> is_code u)"
  by (auto elim!: is_errorE simp: mapped_error_eq)

lemma other_shape: "is_ok_of P t \<or> is_error t \<Longrightarrow> \<exists>u. other_case t = Ret u \<and> (is_ok_of P u \<or> is_code u)"
  by (auto elim!: is_errorE is_ok_ofE simp: mapped_error_eq)

lemma value_shape:
  assumes "is_ok_of P t \<or> is_error t" and "\<And>v. P v \<Longrightarrow> \<exists>u. k v = Ret (mk_ok u) \<and> Q u"
  shows "\<exists>u. value_case k t = Ret u \<and> (is_ok_of Q u \<or> is_code u)"
  using assms by (fastforce elim!: is_errorE is_ok_ofE simp: mapped_error_eq)

lemma native_shape:
  "is_ok_of (is_handle s) t \<or> is_error t \<Longrightarrow> \<exists>u. native_case t = Ret u \<and> (is_ok_of (is_native s) u \<or> is_code u)"
  by (erule value_shape) (simp add: native_def mk_ok_def)

lemma size_shape: "is_stat v \<Longrightarrow> \<exists>u. size_of v = Ret (mk_ok u) \<and> is_int u"
proof -
  assume "is_stat v"
  then obtain kvs where v: "v = TMap kvs" and kvs: "is_stat (TMap kvs)" by (cases v) auto
  then obtain x where x: "(Atom ''size'', x) \<in> set kvs" "map_of kvs (Atom ''size'') = Some x"
    by (cases kvs) auto
  with kvs have "is_int x" by (cases x) auto
  with v x show ?thesis by (auto simp: size_of_def)
qed

lemma names_shape:
  "\<exists>l. v = TList l \<and> list_all is_bin l \<Longrightarrow> \<exists>u. without_dots v = Ret (mk_ok u) \<and> is_names u"
  by (auto simp: without_dots_def list_all_iff)

lemma renamed_shape:
  assumes "t = atom_ok \<or> is_error t"
  shows "\<exists>u. (if other_case t = error_code 20 then error_code 55 else other_case t) = Ret u \<and> (u = atom_ok \<or> is_code u)"
proof (cases "other_case t = error_code 20")
  case True
  have "55 \<in> wasi_codes" by (simp add: wasi_codes_def map_posix_table_def)
  with True show ?thesis by (simp add: error_code_def)
qed (use other_unit_shape [OF assms] in simp)

text \<open>Typed requests answer what they should.\<close>

lemma path_op_shapes:
  assumes "op_answers opn t"
  shows "opn \<notin> {OP_STAT, OP_STAT_FOLLOW, OP_READLINK} \<Longrightarrow> \<exists>u. other_case t = Ret u \<and> (u = atom_ok \<or> is_code u)"
    and "opn \<in> {OP_STAT, OP_STAT_FOLLOW} \<Longrightarrow> \<exists>u. other_case t = Ret u \<and> (is_ok_of is_stat u \<or> is_code u)"
    and "opn = OP_READLINK \<Longrightarrow> \<exists>u. other_case t = Ret u \<and> (is_ok_of is_bin u \<or> is_code u)"
  using assms unfolding op_answers_def by (auto intro: other_unit_shape other_shape)

lemma ok_weaken: "is_ok_of P t \<Longrightarrow> (\<And>v. P v \<Longrightarrow> Q v) \<Longrightarrow> is_ok_of Q t"
  by (auto elim!: is_ok_ofE)

lemma read_shape:
  "is_ok_of P t \<or> t = Atom ''eof'' \<or> is_error t \<Longrightarrow>
     \<exists>u. other_case t = Ret u \<and> (is_ok_of P u \<or> u = Atom ''eof'' \<or> is_code u)"
  using other_shape [of P t] by auto

lemma written_shape: "(\<exists>n. v = TInt n \<and> n \<ge> 0) \<Longrightarrow> is_nonneg v"
  by auto

lemma fs_request_shape:
  assumes typed: "fs_typed s rq" and run: "fs_request K dw rq s = Some (r, s')"
  shows "\<exists>u. r = Ret u \<and> fs_answers rq s' u"
proof -
  obtain q where q: "run_fun K (fst (rq_call dw rq)) (snd (rq_call dw rq)) s = Some (q, s')"
      "r = (case q of Term t \<Rightarrow> rq_case rq t | Badarg \<Rightarrow> Raise ''badarg'')"
    using run by (rule fs_requestE)
  have "q \<noteq> Badarg" by (rule accepted_no_badarg [OF fs_typed_accepts [OF typed] q(1)])
  then obtain t where t: "q = Term t" by (cases q) auto
  have a: "answers (fst (rq_call dw rq)) s' t" using run_fun_shape [OF q(1)] t by simp
  have p: "op_answers opn t" if "rq_call dw rq = (Path_op, [TRes d, TBin path, TInt opn, TBin arg])"
    for d path opn arg
    using q(1) t that path_op_answers [of K _ _ opn _ s t s'] by simp
  have "\<exists>u. rq_case rq t = Ret u \<and> fs_answers rq s' u"
  proof (cases rq)
    case (Rq_stat d x2 fo)
    then show ?thesis using path_op_shapes(2) [OF p] by auto
  next
    case (Rq_readlink d x2)
    then show ?thesis using path_op_shapes(3) [OF p] by auto
  next
    case (Rq_set_times d x2 am m fo)
    then show ?thesis using path_op_shapes(1) [OF p] by (cases fo) auto
  next
    case (Rq_pread h off len)
    with a show ?thesis by (auto dest!: read_shape dest: ok_weaken [where Q = is_bin])
  next
    case (Rq_pwrite h off bs)
    with a show ?thesis by (auto dest!: other_shape elim!: ok_weaken)
  next
    case (Rq_stat_fd h)
    with a show ?thesis by (auto intro!: value_shape)
  next
    case (Rq_readdir h c len)
    with a show ?thesis by (auto intro!: value_shape)
  next
    case (Rq_size h)
    with a show ?thesis by (auto intro!: value_shape size_shape)
  next
    case (Rq_list h)
    with a show ?thesis using value_shape [OF _ names_shape] by auto
  qed (use a path_op_shapes(1) [OF p] native_shape unit_shape other_unit_shape renamed_shape in auto)
  with q(2) t show ?thesis by simp
qed

subsection \<open>What a guest does\<close>

text \<open>
  A guest's requests name its roots and files; granting a root (\<^verbatim>\<open>preopen\<close>) is not one of them, although
  preview 1 makes it for a directory that \<^verbatim>\<open>path_open\<close> opens (\<open>P1_Paths\<close>). The requests that follow a final symlink end in \<^verbatim>\<open>resolve_final\<close>, whose defects \<open>Nif_Defects\<close> shows.
  \<open>Inr i\<close> is the collection of handle \<open>i\<close>.
\<close>

fun guest_request :: "fs_req \<Rightarrow> bool" where
  "guest_request (Rq_preopen host) = False"
| "guest_request (Rq_stat d p follow) = (\<not> follow)"
| "guest_request (Rq_set_times d p a m follow) = (\<not> follow)"
| "guest_request rq = True"

fun fs_run :: "'w kernel \<Rightarrow> bool \<Rightarrow> (fs_req + nat) list \<Rightarrow> 'w nif \<Rightarrow> 'w nif option" where
  "fs_run K dw [] s = Some s"
| "fs_run K dw (Inl rq # es) s =
     (case fs_request K dw rq s of None \<Rightarrow> None | Some (r, s') \<Rightarrow> fs_run K dw es s')"
| "fs_run K dw (Inr i # es) s = fs_run K dw es (if live s i then file_dtor K i s else s)"

fun fs_event :: "bool \<Rightarrow> fs_req + nat \<Rightarrow> event" where
  "fs_event dw (Inl rq) = (case rq_call dw rq of (f, argv) \<Rightarrow> Call f argv)"
| "fs_event dw (Inr i) = Collect i"

fun from_guest :: "fs_req + nat \<Rightarrow> bool" where
  "from_guest (Inl rq) = guest_request rq"
| "from_guest (Inr i) = True"

lemma fs_run_events: "fs_run K dw es s = run K (map (fs_event dw) es) s"
proof (induction K dw es s rule: fs_run.induct)
  case (2 K dw rq es s)
  show ?case
  proof (cases "fs_request K dw rq s")
    case None
    then show ?thesis
      by (auto simp: fs_request_one_call nif_case_def split: prod.splits)
  next
    case (Some p)
    then obtain q where "run_fun K (fst (rq_call dw rq)) (snd (rq_call dw rq)) s = Some (q, snd p)"
      by (cases p) (auto elim: fs_requestE)
    with 2 Some show ?thesis by (cases p) (auto split: prod.splits)
  qed
qed simp_all

lemma guest_request_event: "from_guest e \<Longrightarrow> guest_event (fs_event dw e)"
proof (cases e)
  case (Inl rq)
  moreover assume "from_guest e"
  ultimately show ?thesis by (cases rq) (auto simp: no_follow_def)
qed simp

subsection \<open>The properties\<close>





text \<open>
  Setting the times of an open file, through both layers: one \<^verbatim>\<open>futimens\<close> under the lock of the handle,
  with exactly the stamps asked for in nanoseconds, and an omitted one left alone; its error comes back
  as a WASI code.
\<close>

lemma fs_set_times_fd_sets:
  assumes "live s h" and "\<And>n. a = Some n \<Longrightarrow> n < 2 ^ 64" and "\<And>n. m = Some n \<Longrightarrow> n < 2 ^ 64"
  shows "fs_set_times_fd K h a m s =
    Some (case locked_call h (\<lambda>fd. sys_futimens K fd (stamp K a, stamp K m)) s of
            (Inl e, s') \<Rightarrow> (error_code (the (wasi_code (mk_errno (Errno e)))), s')
          | (Inr u, s') \<Rightarrow> (Ret atom_ok, s'))"
proof -
  have "get_resource s (TRes h) = Some h" using assms(1) by (rule live_resource)
  moreover have "decode_times K (times_spec a m) = Some (stamp K a, stamp K m)"
    by (rule decode_times_spec [OF assms(2,3)])
  moreover have "unit_case (mk_errno (Errno e)) = error_code (the (wasi_code (mk_errno (Errno e))))" for e
    by (simp add: mk_errno.simps)
  ultimately show ?thesis
    by (simp add: fs_set_times_fd_def futimes_nif_def nif_case_def del: get_resource.simps split: prod.split sum.split)
qed

lemma fs_set_times_fd_sets_witness:
  "fs_set_times_fd mem_kernel 0 (Some 1700000000123456789) None (one_handle sample_file)
    = Some (Ret (TTuple [Atom ''error'', TInt 52]), one_handle sample_file)"
proof -
  have "live (one_handle sample_file) 0" by (simp add: live_def one_handle_def)
  from fs_set_times_fd_sets [OF this, of "Some 1700000000123456789" None mem_kernel]
  show ?thesis by (simp add: io_eval mk_errno.simps map_posix_table_def error_code_def)
qed

lemma latin1_only: "c \<in> set cs \<Longrightarrow> 256 \<le> c \<Longrightarrow> latin1 (map TInt cs) = None"
  by (induction cs) (auto split: option.split)

text \<open>
  C37. Requests that the specs allow and the NIF refuses with \<^verbatim>\<open>badarg\<close>, which is raised in the host and is
  no answer: a size or an offset of $2^{63}$ or more, and a preopen whose host path has a character
  beyond Latin-1. The specs promise \<^verbatim>\<open>{error, Code}\<close>.
\<close>

theorem fs_raises_badarg:
  assumes "live s h" and "2 ^ 63 \<le> n" and "c \<in> set cs" and "256 \<le> c"
  shows "fs_truncate K h n s = Some (Raise ''badarg'', s) \<and> fs_pread K h n len s = Some (Raise ''badarg'', s)
     \<and> fs_pwrite K h n bs s = Some (Raise ''badarg'', s)
     \<and> fs_preopen K (TList (map TInt cs)) s = Some (Raise ''badarg'', s)"
  using assms latin1_only [OF assms(3,4)]
  by (simp add: fs_truncate_def fs_pread_def fs_pwrite_def fs_preopen_def nif_case_def ftruncate_nif_def
      pread_nif_def pwrite_nif_def open_dir_nif_def split: option.split)

theorem fs_raises_badarg_witness:
  "fs_truncate mem_kernel 0 (2 ^ 63) (one_handle sample_file) = Some (Raise ''badarg'', one_handle sample_file)"
proof -
  have "live (one_handle sample_file) 0" by (simp add: live_def one_handle_def)
  from fs_raises_badarg [OF this, of "2 ^ 63" 26085 "[26085]" mem_kernel 0 "[]"] show ?thesis by simp
qed

end
