(* ===== verification/Nif_Lock.thy ===== *)
theory Nif_Lock
  imports Nif_Books Nif_Formats
begin

text \<open>
  Threads on shared handles. The other theories run one call after the other; here every thread is
  inside a call of its own and the calls interleave, one C statement at a time: waiting for the lock of
  the handle, holding it, having tested the descriptor, having made the system call, having let go of
  the lock. The comment over \<^verbatim>\<open>file_handle\<close> says what the lock is for, and that is what is proved: a
  call in flight is on a descriptor its handle still has. And since nothing of a call can be seen
  before it is made and after it is done, the interleaving is a sequence of whole calls.
\<close>

subsection \<open>Threads\<close>

text \<open>
  A task is what a thread does with a handle: one system call on the descriptor, as \<open>locked_call\<close>
  makes it, or \<^verbatim>\<open>close\<close>. \<open>pc\<close> is how far a thread is; \<open>Tested\<close> has the number in hand.
\<close>

datatype 'r outcome = Failed errno | Answered 'r | Closed

datatype ('w, 'r) task = Use "fd \<Rightarrow> 'w \<Rightarrow> (errno + 'r) \<times> 'w" | Shut

datatype ('w, 'r) pc =
    Idle
  | Waiting nat "('w, 'r) task"
  | Holding nat "('w, 'r) task"
  | Tested nat fd "fd \<Rightarrow> 'w \<Rightarrow> (errno + 'r) \<times> 'w"
  | Closing nat
  | Leaving nat "'r outcome"
  | Done "'r outcome"

type_synonym ('w, 'r) config = "'w nif \<times> (nat \<Rightarrow> ('w, 'r) pc)"

fun outcome_of :: "errno + 'r \<Rightarrow> 'r outcome" where
  "outcome_of (Inl e) = Failed e"
| "outcome_of (Inr x) = Answered x"

text \<open>
  A step of a thread \<open>t\<close>, or of the rest of the machine: \<open>env\<close> is what other code does meanwhile to the
  world, and which handles it adds. \<open>tasks\<close> are the tasks that threads may begin.
\<close>

inductive lstep :: "'w kernel \<Rightarrow> ('w, 'r) task set \<Rightarrow> ('w nif \<Rightarrow> 'w nif \<Rightarrow> bool)
    \<Rightarrow> ('w, 'r) config \<Rightarrow> ('w, 'r) config \<Rightarrow> bool"
  for K tasks env
where
  begin_call: "p t = Idle \<Longrightarrow> live s i \<Longrightarrow> k \<in> tasks \<Longrightarrow> lstep K tasks env (s, p) (s, p(t := Waiting i k))"
| lock: "p t = Waiting i k \<Longrightarrow> h_lock (handle s i) = Unlocked \<Longrightarrow>
    lstep K tasks env (s, p) (mutex_lock i s, p(t := Holding i k))"
| test_closed: "p t = Holding i (Use c) \<Longrightarrow> h_fd (handle s i) = None \<Longrightarrow>
    lstep K tasks env (s, p) (mutex_unlock i s, p(t := Done (Failed EBADF)))"
| test_open: "p t = Holding i (Use c) \<Longrightarrow> h_fd (handle s i) = Some f \<Longrightarrow>
    lstep K tasks env (s, p) (s, p(t := Tested i f c))"
| call: "p t = Tested i f c \<Longrightarrow> sys (c f) s = (r, s') \<Longrightarrow>
    lstep K tasks env (s, p) (s', p(t := Leaving i (outcome_of r)))"
| close_stream: "p t = Holding i Shut \<Longrightarrow> lstep K tasks env (s, p) (drop_dirp K i s, p(t := Closing i))"
| close_fd: "p t = Closing i \<Longrightarrow> lstep K tasks env (s, p) (drop_fd K i s, p(t := Leaving i Closed))"
| unlock: "p t = Leaving i r \<Longrightarrow> lstep K tasks env (s, p) (mutex_unlock i s, p(t := Done r))"
| end_call: "p t = Done r \<Longrightarrow> lstep K tasks env (s, p) (s, p(t := Idle))"
| others: "env s s' \<Longrightarrow> handles s' = handles s @ hs \<Longrightarrow> list_all (\<lambda>h. h_lock h = Unlocked) hs \<Longrightarrow>
    lstep K tasks env (s, p) (s', p)"

definition idle :: "('w, 'r) config \<Rightarrow> bool" where
  "idle c \<longleftrightarrow> (\<forall>t. snd c t = Idle) \<and> list_all (\<lambda>h. h_lock h \<noteq> Locked) (handles (fst c))"

subsection \<open>The lock\<close>

text \<open>The handle whose lock a thread has.\<close>

fun inside_of :: "('w, 'r) pc \<Rightarrow> nat option" where
  "inside_of (Holding i k) = Some i"
| "inside_of (Tested i f c) = Some i"
| "inside_of (Closing i) = Some i"
| "inside_of (Leaving i r) = Some i"
| "inside_of _ = None"

text \<open>
  The invariant of the locks, on what matters of a configuration: how many handles there are, the lock
  of each, and the section each thread is in. A lock is taken while a thread is inside, and by one only.
\<close>

definition lock_inv :: "nat \<Rightarrow> (nat \<Rightarrow> mutex) \<Rightarrow> (nat \<Rightarrow> nat option) \<Rightarrow> bool" where
  "lock_inv n lk sec \<longleftrightarrow>
     (\<forall>t i. sec t = Some i \<longrightarrow> i < n \<and> lk i = Locked) \<and>
     (\<forall>i < n. lk i = Locked \<longrightarrow> (\<exists>t. sec t = Some i)) \<and>
     (\<forall>t t' i. sec t = Some i \<longrightarrow> sec t' = Some i \<longrightarrow> t = t')"

lemma lock_inv_same: "lock_inv n lk sec \<Longrightarrow> (\<And>i. i < n \<Longrightarrow> lk' i = lk i) \<Longrightarrow> sec' = sec \<Longrightarrow> lock_inv n lk' sec'"
  by (auto simp: lock_inv_def)

lemma lock_inv_enter:
  assumes "lock_inv n lk sec" "i < n" "lk i \<noteq> Locked" "sec t = None"
  shows "lock_inv n (lk(i := Locked)) (sec(t := Some i))"
proof -
  have no: "sec t' \<noteq> Some i" for t' using assms(1,3) unfolding lock_inv_def by blast
  have "\<exists>t'. (sec(t := Some i)) t' = Some j" if j: "j < n" "(lk(i := Locked)) j = Locked" for j
  proof (cases "j = i")
    case False
    with j have "lk j = Locked" by simp
    with j(1) obtain t' where "sec t' = Some j" using assms(1) unfolding lock_inv_def by blast
    with assms(4) have "(sec(t := Some i)) t' = Some j" by auto
    then show ?thesis ..
  qed auto
  with assms no show ?thesis unfolding lock_inv_def by (simp split: if_split) blast
qed

lemma lock_inv_leave:
  assumes "lock_inv n lk sec" "sec t = Some i" "m \<noteq> Locked"
  shows "lock_inv n (lk(i := m)) (sec(t := None))"
proof -
  have "t' = t" if "sec t' = Some i" for t' using that assms(1,2) unfolding lock_inv_def by blast
  moreover have "\<exists>t'. (sec(t := None)) t' = Some j" if "j < n" "(lk(i := m)) j = Locked" for j
  proof -
    have "j \<noteq> i" using that assms(3) by auto
    with that have "lk j = Locked" by simp
    with that(1) obtain t' where "sec t' = Some j" using assms(1) unfolding lock_inv_def by blast
    with assms(2) \<open>j \<noteq> i\<close> have "(sec(t := None)) t' = Some j" by auto
    then show ?thesis ..
  qed
  ultimately show ?thesis using assms unfolding lock_inv_def by (simp split: if_split) blast
qed

lemma lock_inv_grow:
  assumes "lock_inv n lk sec" "\<And>i. i < n \<Longrightarrow> lk' i = lk i" "\<And>i. n \<le> i \<Longrightarrow> i < n' \<Longrightarrow> lk' i \<noteq> Locked" "n \<le> n'"
  shows "lock_inv n' lk' sec"
  using assms unfolding lock_inv_def by (metis less_le_trans not_le)

definition locks :: "'w nif \<Rightarrow> nat \<Rightarrow> mutex" where
  "locks s i = h_lock (handle s i)"

definition sections :: "(nat \<Rightarrow> ('w, 'r) pc) \<Rightarrow> nat \<Rightarrow> nat option" where
  "sections p t = inside_of (p t)"

text \<open>What a thread knows of its handle: it is alive, and the descriptor it has tested is still in it.\<close>

fun knows :: "'w nif \<Rightarrow> ('w, 'r) pc \<Rightarrow> bool" where
  "knows s (Tested i f c) = (live s i \<and> h_fd (handle s i) = Some f)"
| "knows s (Waiting i k) = live s i"
| "knows s (Holding i k) = live s i"
| "knows s (Closing i) = (live s i \<and> h_dirp (handle s i) = None)"
| "knows s (Leaving i r) = live s i"
| "knows s _ = True"

definition in_step :: "('w, 'r) config \<Rightarrow> bool" where
  "in_step c \<longleftrightarrow> lock_inv (length (handles (fst c))) (locks (fst c)) (sections (snd c)) \<and>
     (\<forall>t. knows (fst c) (snd c t))"

lemma idle_in_step: "idle c \<Longrightarrow> in_step c"
  by (auto simp: idle_def in_step_def lock_inv_def locks_def sections_def list_all_length handle_def)

lemma sections_upd [simp]: "sections (p(t := x)) = (sections p)(t := inside_of x)"
  by (auto simp: sections_def)

lemma handle_upd:
  "handle (upd_handle i f s) j = (if j = i \<and> i < length (handles s) then f (handle s i) else handle s j)"
  by (cases "i < length (handles s)") (auto simp: handle_def list_update_beyond)

lemma handle_sys_do [simp]: "handle (sys_do f s) = handle s"
  by (simp add: handle_def fun_eq_iff)

lemma locks_mutex [simp]:
  "i < length (handles s) \<Longrightarrow> locks (mutex_lock i s) = (locks s)(i := Locked)"
  "i < length (handles s) \<Longrightarrow> locks (mutex_unlock i s) = (locks s)(i := Unlocked)"
  by (auto simp: mutex_lock_def mutex_unlock_def locks_def handle_upd fun_eq_iff)

lemma handle_drop:
  "h_lock (handle (drop_dirp K i s) j) = h_lock (handle s j)" "h_lock (handle (drop_fd K i s) j) = h_lock (handle s j)"
  "h_fd (handle (drop_dirp K i s) j) = h_fd (handle s j)"
  "j \<noteq> i \<Longrightarrow> h_fd (handle (drop_fd K i s) j) = h_fd (handle s j)"
  "i < length (handles s) \<Longrightarrow> h_dirp (handle (drop_dirp K i s) i) = None"
  "h_dirp (handle s j) = None \<Longrightarrow> h_dirp (handle (drop_dirp K i s) j) = None"
  "h_dirp (handle (drop_fd K i s) j) = h_dirp (handle s j)"
  by (simp_all add: drop_dirp_def drop_fd_def handle_upd split: option.split)

lemma locks_drop [simp]: "locks (drop_dirp K i s) = locks s" "locks (drop_fd K i s) = locks s"
  by (simp_all add: locks_def fun_eq_iff handle_drop)

lemma length_drop [simp]:
  "length (handles (drop_dirp K i s)) = length (handles s)" "length (handles (drop_fd K i s)) = length (handles s)"
  by (auto simp: drop_dirp_def drop_fd_def split: option.splits)

lemma live_drop [simp]: "live (drop_dirp K i s) = live s" "live (drop_fd K i s) = live s"
  by (auto simp: drop_dirp_def drop_fd_def live_update split: option.splits)

lemma dirp_unlock [simp]: "h_dirp (handle (mutex_unlock i s) j) = h_dirp (handle s j)"
  "h_dirp (handle (mutex_lock i s) j) = h_dirp (handle s j)"
  by (simp_all add: mutex_unlock_def mutex_lock_def handle_upd)

lemma knows_mutex: "live s i \<Longrightarrow> knows s x \<Longrightarrow> knows (mutex_lock i s) x"
  "live s i \<Longrightarrow> knows s x \<Longrightarrow> knows (mutex_unlock i s) x"
  by (cases x; simp add: live_locked live_unlocked)+

lemma knows_drop_dirp: "knows s x \<Longrightarrow> knows (drop_dirp K i s) x"
  by (cases x) (simp_all add: handle_drop)

lemma knows_drop_fd: "knows s x \<Longrightarrow> inside_of x \<noteq> Some i \<Longrightarrow> knows (drop_fd K i s) x"
  by (cases x) (auto simp: handle_drop)

lemma knows_sys: "sys g s = (r, s') \<Longrightarrow> knows s x \<Longrightarrow> knows s' x"
proof -
  assume "sys g s = (r, s')" "knows s x"
  moreover from this have "handle s' = handle s" by (simp add: sys_eq handle_def fun_eq_iff)
  ultimately show ?thesis by (cases x) (auto simp: live_sys)
qed

lemma knows_grow:
  assumes "handles s' = handles s @ hs" and "knows s x"
  shows "knows s' x"
proof -
  have "live s i \<Longrightarrow> live s' i \<and> handle s' i = handle s i" for i
    using assms(1) by (simp add: live_def handle_def nth_append)
  with assms(2) show ?thesis by (cases x) auto
qed

lemma section_own: "sections p t = Some i \<Longrightarrow> (sections p)(t \<mapsto> i) = sections p"
  and section_none: "sections p t = None \<Longrightarrow> (sections p)(t := None) = sections p"
  by auto

lemma in_step_here: "in_step (s, p) \<Longrightarrow> knows s (p t)"
  by (simp add: in_step_def)

lemma in_step_length:
  assumes "in_step (s, p)"
  shows "p t = Waiting i k \<Longrightarrow> i < length (handles s)" "p t = Holding i k \<Longrightarrow> i < length (handles s)"
    "p t = Closing i \<Longrightarrow> i < length (handles s)" "p t = Leaving i r \<Longrightarrow> i < length (handles s)"
  using in_step_here [OF assms, of t] by (auto simp: live_def)

lemma in_step_keeps:
  assumes "lstep K tasks env c c'" and "in_step c"
  shows "in_step c'"
  using assms
proof (induction rule: lstep.induct)
  case (begin_call p t s i k)
  then have "(sections p)(t := None) = sections p" by (intro section_none) (simp add: sections_def)
  with begin_call show ?case by (simp add: in_step_def)
next
  case (lock p t i k s)
  then have "live s i" "i < length (handles s)" "sections p t = None" "locks s i \<noteq> Locked"
    using in_step_here [OF lock(3), of t] by (auto simp: locks_def sections_def live_def)
  with lock show ?case
    by (auto simp: in_step_def knows_mutex live_locked intro: lock_inv_enter)
next
  case (test_closed p t i c s)
  then have "live s i" "i < length (handles s)" "sections p t = Some i"
    using in_step_here [OF test_closed(3), of t] by (auto simp: sections_def live_def)
  with test_closed show ?case by (auto simp: in_step_def knows_mutex intro: lock_inv_leave)
next
  case (test_open p t i c s f)
  then have "(sections p)(t \<mapsto> i) = sections p" by (intro section_own) (simp add: sections_def)
  with test_open in_step_here [OF test_open(3), of t] show ?case by (auto simp: in_step_def)
next
  case (call p t i f c s r s')
  then have sec: "(sections p)(t \<mapsto> i) = sections p" by (intro section_own) (simp add: sections_def)
  have "handles s' = handles s" using call(2) by (simp add: sys_eq)
  then have "locks s' = locks s" "length (handles s') = length (handles s)"
    by (simp_all add: locks_def handle_def fun_eq_iff)
  moreover have "live s' i" using in_step_here [OF call(3), of t] call by (auto simp: live_sys)
  ultimately show ?case using call sec by (auto simp: in_step_def intro: knows_sys)
next
  case (close_stream p t i s)
  then have "(sections p)(t \<mapsto> i) = sections p" by (intro section_own) (simp add: sections_def)
  with close_stream in_step_here [OF close_stream(2), of t] show ?case
    by (auto simp: in_step_def live_def handle_drop intro: knows_drop_dirp)
next
  case (close_fd p t i s)
  then have sec: "sections p t = Some i" by (simp add: sections_def)
  then have other: "inside_of (p t') \<noteq> Some i" if "t' \<noteq> t" for t'
    using that close_fd(2) unfolding in_step_def lock_inv_def sections_def by auto
  with close_fd section_own [OF sec] in_step_here [OF close_fd(2), of t] show ?case
    by (auto simp: in_step_def intro: knows_drop_fd)
next
  case (unlock p t i r s)
  then have "live s i" "i < length (handles s)" "sections p t = Some i"
    using in_step_here [OF unlock(2), of t] by (auto simp: sections_def live_def)
  with unlock show ?case by (auto simp: in_step_def knows_mutex intro: lock_inv_leave)
next
  case (end_call p t r s)
  then have "(sections p)(t := None) = sections p" by (intro section_none) (simp add: sections_def)
  with end_call show ?case by (simp add: in_step_def)
next
  case (others s s' hs p)
  have "lock_inv (length (handles s')) (locks s') (sections p)"
  proof (rule lock_inv_grow [of "length (handles s)" "locks s"])
    show "locks s' i \<noteq> Locked" if "length (handles s) \<le> i" "i < length (handles s')" for i
      using that others(2,3) by (auto simp: locks_def handle_def nth_append list_all_length)
  qed (use others in \<open>auto simp: in_step_def locks_def handle_def nth_append\<close>)
  with others show ?case by (auto simp: in_step_def intro: knows_grow)
qed

lemma in_step_reachable: "(lstep K tasks env)\<^sup>*\<^sup>* c c' \<Longrightarrow> in_step c \<Longrightarrow> in_step c'"
  by (induction rule: rtranclp_induct) (auto intro: in_step_keeps)

text \<open>A beginning of a run: thread 0 has tested the descriptor and is about to use it, thread 1 wants to close.\<close>

definition two_threads :: "fd \<Rightarrow> (fd \<Rightarrow> 'w \<Rightarrow> (errno + 'r) \<times> 'w) \<Rightarrow> nat \<Rightarrow> ('w, 'r) pc" where
  "two_threads f c = (\<lambda>_. Idle)(0 := Tested 0 f c, 1 := Waiting 0 Shut)"

lemma two_threads_reachable:
  assumes "live s 0" "h_lock (handle s 0) = Unlocked" "h_fd (handle s 0) = Some f" "Use c \<in> tasks" "Shut \<in> tasks"
  shows "(lstep K tasks env)\<^sup>*\<^sup>* (s, \<lambda>_. Idle) (mutex_lock 0 s, two_threads f c)"
proof -
  let ?p0 = "(\<lambda>_. Idle)(0 := Waiting 0 (Use c))" and ?p1 = "(\<lambda>_. Idle)(0 := Holding 0 (Use c))"
    and ?p2 = "(\<lambda>_. Idle)(0 := Tested 0 f c)"
  have "lstep K tasks env (s, \<lambda>_. Idle) (s, ?p0)" using assms by (intro begin_call) auto
  moreover have "lstep K tasks env (s, ?p0) (mutex_lock 0 s, ?p1)"
    using lock [of ?p0 0 0 "Use c" s K tasks env] assms(2) by (simp add: fun_upd_idem)
  moreover have "lstep K tasks env (mutex_lock 0 s, ?p1) (mutex_lock 0 s, ?p2)"
    using test_open [of ?p1 0 0 c "mutex_lock 0 s" f K tasks env] assms by simp
  moreover have "lstep K tasks env (mutex_lock 0 s, ?p2) (mutex_lock 0 s, two_threads f c)"
    unfolding two_threads_def using assms by (intro begin_call) (auto simp: live_locked)
  ultimately show ?thesis by (meson rtranclp.rtrancl_into_rtrancl rtranclp.rtrancl_refl)
qed

lemma idle_one_handle: "idle (one_handle w, \<lambda>_. Idle)"
  by (simp add: idle_def one_handle_def)

text \<open>
  The lock does what the comment over \<^verbatim>\<open>file_handle\<close> says, in every interleaving of any number of
  threads: at most one is inside a handle, and when a call is about to be made on a descriptor that was
  tested before, the handle is still locked and still has it.
\<close>

lemma lock_excludes:
  assumes "idle c" and "(lstep K tasks env)\<^sup>*\<^sup>* c (s, p)"
  shows "(\<forall>t t' i. inside_of (p t) = Some i \<longrightarrow> inside_of (p t') = Some i \<longrightarrow> t = t')
    \<and> (\<forall>t i f k. p t = Tested i f k \<longrightarrow> h_lock (handle s i) = Locked \<and> h_fd (handle s i) = Some f)"
proof -
  have inv: "in_step (s, p)" using in_step_reachable [OF assms(2) idle_in_step [OF assms(1)]] .
  have "h_lock (handle s i) = Locked \<and> h_fd (handle s i) = Some f" if "p t = Tested i f k" for t i f k
  proof -
    have "sections p t = Some i" using that by (simp add: sections_def)
    with inv have "locks s i = Locked" unfolding in_step_def lock_inv_def by auto
    with in_step_here [OF inv, of t] that show ?thesis by (simp add: locks_def)
  qed
  moreover have "t = t'" if "inside_of (p t) = Some i" "inside_of (p t') = Some i" for t t' i
    using inv that unfolding in_step_def lock_inv_def sections_def by auto
  ultimately show ?thesis by blast
qed

lemma lock_excludes_witness:
  "h_fd (handle (mutex_lock 0 (one_handle sample_file)) 0) = Some 7"
proof -
  let ?c = "\<lambda>f. sys_pread mem_kernel f 3 1"
  have "(lstep mem_kernel {Use ?c, Shut} (\<lambda>_ _. True))\<^sup>*\<^sup>* (one_handle sample_file, \<lambda>_. Idle)
      (mutex_lock 0 (one_handle sample_file), two_threads 7 ?c)"
    by (intro two_threads_reachable) (simp_all add: one_handle_def live_def handle_def)
  note run = lock_excludes [OF idle_one_handle this, THEN conjunct2]
  have "two_threads 7 ?c 0 = Tested 0 7 ?c" by (simp add: two_threads_def)
  with run show ?thesis by blast
qed

subsection \<open>No deadlock\<close>

text \<open>
  C34. No thread waits for ever because of the locks: while a call is in progress, a thread in a call can
  take a step. (No thread asks for a lock while it has one: \<^verbatim>\<open>path_op2\<close> duplicates its two directories
  one after the other.)
\<close>

theorem no_deadlock:
  assumes "idle c" and "(lstep K tasks env)\<^sup>*\<^sup>* c (s, p)" and "p t \<noteq> Idle"
  shows "\<exists>t' c'. p t' \<noteq> Idle \<and> lstep K tasks env (s, p) c' \<and> snd c' t' \<noteq> p t'"
proof -
  have inv: "in_step (s, p)" using in_step_reachable [OF assms(2) idle_in_step [OF assms(1)]] .
  have move: "\<exists>c'. lstep K tasks env (s, p) c' \<and> snd c' t \<noteq> p t" if "inside_of (p t) \<noteq> None" for t
  proof (cases "p t")
    case (Holding i k)
    show ?thesis
    proof (cases k)
      case (Use f)
      with Holding lstep.test_closed [of p t i f s] lstep.test_open [of p t i f s] show ?thesis
        by (cases "h_fd (handle s i)") force+
    next
      case Shut
      with Holding lstep.close_stream [of p t i] show ?thesis by force
    qed
  next
    case (Tested i f k)
    then show ?thesis using lstep.call [of p t i f k s] by (cases "sys (k f) s") force
  next
    case (Closing i)
    then show ?thesis using lstep.close_fd [of p t i] by force
  next
    case (Leaving i r)
    then show ?thesis using lstep.unlock [of p t i r] by force
  qed (use that in auto)
  consider "inside_of (p t) \<noteq> None" | (Waiting) i k where "p t = Waiting i k" | (Done) r where "p t = Done r"
    using assms(3) by (cases "p t") auto
  then show ?thesis
  proof cases
    case 1
    with move [of t] assms(3) show ?thesis by blast
  next
    case Waiting
    show ?thesis
    proof (cases "h_lock (handle s i)")
      case Locked
      have "i < length (handles s)" using in_step_here [OF inv, of t] Waiting by (simp add: live_def)
      with inv Locked obtain t' where "inside_of (p t') = Some i"
        unfolding in_step_def lock_inv_def locks_def sections_def by auto
      moreover from this have "p t' \<noteq> Idle" by auto
      ultimately show ?thesis using move [of t'] by blast
    next
      case Unlocked
      with Waiting have "lstep K tasks env (s, p) (mutex_lock i s, p(t := Holding i k))" by (rule lstep.lock)
      moreover have "snd (mutex_lock i s, p(t := Holding i k)) t \<noteq> p t" using Waiting by simp
      ultimately show ?thesis using assms(3) by blast
    next
      case No_mutex
      with in_step_here [OF inv, of t] Waiting show ?thesis by (simp add: live_def handle_def)
    qed
  next
    case Done
    then have "lstep K tasks env (s, p) (s, p(t := Idle))" by (rule lstep.end_call)
    moreover have "snd (s, p(t := Idle)) t \<noteq> p t" using Done by simp
    ultimately show ?thesis using assms(3) by blast
  qed
qed

theorem no_deadlock_witness:
  "\<exists>t c'. two_threads 7 (\<lambda>f. sys_pread mem_kernel f 3 1) t \<noteq> Idle \<and>
     lstep mem_kernel {Use (\<lambda>f. sys_pread mem_kernel f 3 1), Shut} (\<lambda>_ _. False)
       (mutex_lock 0 (one_handle sample_file), two_threads 7 (\<lambda>f. sys_pread mem_kernel f 3 1)) c'"
proof -
  let ?c = "\<lambda>f. sys_pread mem_kernel f 3 1"
  have "(lstep mem_kernel {Use ?c, Shut} (\<lambda>_ _. False))\<^sup>*\<^sup>* (one_handle sample_file, \<lambda>_. Idle)
      (mutex_lock 0 (one_handle sample_file), two_threads 7 ?c)"
    by (intro two_threads_reachable) (simp_all add: one_handle_def live_def handle_def)
  from no_deadlock [OF idle_one_handle this, of 1] show ?thesis by (fastforce simp: two_threads_def)
qed

subsection \<open>Every call is on an open descriptor\<close>

text \<open>
  On audited kernels: \<open>covered\<close> says that the NIF owns at least what its handles hold, and that all was
  in order so far. A task is \<open>gentle\<close> when it asks for its one descriptor only and takes nothing away;
  all calls that \<^verbatim>\<open>wasi_file_nif.c\<close> makes under a lock are, \<^verbatim>\<open>close\<close> and the listing apart.
\<close>

definition covered :: "'w audit nif \<Rightarrow> bool" where
  "covered s \<longleftrightarrow> ok (kern s) \<and> owned_by h_fd (handles s) \<subseteq># held (kern s)
     \<and> owned_by h_dirp (handles s) \<subseteq># strm (kern s)"

definition gentle :: "(fd \<Rightarrow> 'w audit \<Rightarrow> (errno + 'r) \<times> 'w audit) \<Rightarrow> bool" where
  "gentle c \<longleftrightarrow> (\<forall>f a. ok a \<longrightarrow> f \<in># held a \<longrightarrow>
     ok (snd (c f a)) \<and> held a \<subseteq># held (snd (c f a)) \<and> strm a \<subseteq># strm (snd (c f a)))"

abbreviation free_kernel :: "'w kernel \<Rightarrow> 'w audit kernel" where
  "free_kernel K \<equiv> audited (\<lambda>_ _. True) K"

lemma gentle_calls:
  "gentle (\<lambda>f. sys_pread (free_kernel K) f n off)" "gentle (\<lambda>f. sys_pwrite (free_kernel K) f bs off)"
  "gentle (\<lambda>f. sys_futimens (free_kernel K) f ts)" "gentle (sys_fstat (free_kernel K))"
  "gentle (\<lambda>f. sys_ftruncate (free_kernel K) f len)" "gentle (sys_fsync (free_kernel K))"
  "gentle (sys_dup (free_kernel K))"
  by (auto simp: gentle_def audited_def on_base_eq gain_def split: sum.split)

lemma covered_upd:
  assumes "i < length (handles s)"
  shows "owned_by g ((handles s)[i := h]) + opt_mset (g (handle s i)) = owned_by g (handles s) + opt_mset (g h)"
  using owned_by_update [OF assms, of g h] by (simp add: handle_def)

lemma covered_mutex:
  "covered s \<Longrightarrow> i < length (handles s) \<Longrightarrow> covered (mutex_lock i s)"
  "covered s \<Longrightarrow> i < length (handles s) \<Longrightarrow> covered (mutex_unlock i s)"
  by (auto simp: covered_def mutex_lock_def mutex_unlock_def owned_by_same handle_def)

lemma add_mset_sub: "add_mset x M = N \<Longrightarrow> N \<subseteq># H \<Longrightarrow> x \<in># H \<and> M \<subseteq># H - {#x#}"
  by (auto simp: insert_subset_eq_iff)

lemma covered_drop_dirp:
  assumes "covered s" and "i < length (handles s)"
  shows "covered (drop_dirp (free_kernel K) i s)"
proof (cases "h_dirp (handle s i)")
  case (Some d)
  have "add_mset d (owned_by h_dirp ((handles s)[i := (handle s i)\<lparr>h_dirp := None\<rparr>])) = owned_by h_dirp (handles s)"
    "owned_by h_fd ((handles s)[i := (handle s i)\<lparr>h_dirp := None\<rparr>]) = owned_by h_fd (handles s)"
    using covered_upd [OF assms(2), of h_dirp "(handle s i)\<lparr>h_dirp := None\<rparr>"] Some assms(2)
    by (simp_all add: owned_by_same handle_def)
  with assms(1) Some show ?thesis
    by (auto simp: covered_def drop_dirp_def audited_def handle_def dest: add_mset_sub)
qed (use assms in \<open>simp add: drop_dirp_def\<close>)

lemma covered_drop_fd:
  assumes "covered s" and "i < length (handles s)"
  shows "covered (drop_fd (free_kernel K) i s)"
proof (cases "h_fd (handle s i)")
  case (Some f)
  have "add_mset f (owned_by h_fd ((handles s)[i := (handle s i)\<lparr>h_fd := None\<rparr>])) = owned_by h_fd (handles s)"
    "owned_by h_dirp ((handles s)[i := (handle s i)\<lparr>h_fd := None\<rparr>]) = owned_by h_dirp (handles s)"
    using covered_upd [OF assms(2), of h_fd "(handle s i)\<lparr>h_fd := None\<rparr>"] Some assms(2)
    by (simp_all add: owned_by_same handle_def)
  with assms(1) Some show ?thesis
    by (auto simp: covered_def drop_fd_def audited_def handle_def dest: add_mset_sub)
qed (use assms in \<open>simp add: drop_fd_def\<close>)

definition begun :: "('w, 'r) task set \<Rightarrow> ('w, 'r) pc \<Rightarrow> bool" where
  "begun tasks x \<longleftrightarrow> (\<forall>i k. x = Waiting i k \<or> x = Holding i k \<longrightarrow> k \<in> tasks) \<and>
     (\<forall>i f c. x = Tested i f c \<longrightarrow> Use c \<in> tasks)"

lemma begun_keeps:
  "lstep K tasks env c c' \<Longrightarrow> (\<And>t. begun tasks (snd c t)) \<Longrightarrow> begun tasks (snd c' t)"
  by (induction rule: lstep.induct) (auto simp: begun_def)

lemma covered_keeps:
  assumes "lstep (free_kernel K) tasks env c c'" and "in_step c" "\<And>t. begun tasks (snd c t)" "covered (fst c)"
    and "\<And>c. Use c \<in> tasks \<Longrightarrow> gentle c"
    and "\<And>s s'. env s s' \<Longrightarrow> covered s \<Longrightarrow> covered s'"
  shows "covered (fst c')"
  using assms(1-4)
proof (induction rule: lstep.induct)
  case (call p t i f c s r s')
  have kn: "live s i" "h_fd (handle s i) = Some f" using in_step_here [OF call(3), of t] call(1) by auto
  then have "f \<in># owned_by h_fd (handles s)" by (auto simp: live_def handle_def intro: owned_by_member)
  then have "f \<in># held (kern s)" "ok (kern s)" using call(5) by (auto simp: covered_def dest: mset_subset_eqD)
  moreover have "gentle c" using call(1) call(4) [of t] assms(5) by (auto simp: begun_def)
  ultimately have "ok (kern s')" "held (kern s) \<subseteq># held (kern s')" "strm (kern s) \<subseteq># strm (kern s')"
    using call(2) unfolding gentle_def sys_eq by (metis snd_conv)+
  with call(2,5) show ?case by (auto simp: covered_def sys_eq intro: subset_mset.order_trans)
next
  case (others s s' hs p)
  then show ?case using assms(6) by simp
qed (auto intro: covered_mutex covered_drop_dirp covered_drop_fd in_step_length)



subsection \<open>Interleavings are sequences of whole calls\<close>

text \<open>
  The specification: a task is done in one step, as the sequential functions do it. A \<^verbatim>\<open>close\<close> may close
  the stream in a step before. The specification has no locks: \<open>calm\<close> shows all of them free.
\<close>

inductive astep :: "'w kernel \<Rightarrow> ('w, 'r) task set \<Rightarrow> ('w nif \<Rightarrow> 'w nif \<Rightarrow> bool)
    \<Rightarrow> ('w, 'r) config \<Rightarrow> ('w, 'r) config \<Rightarrow> bool"
  for K tasks env
where
  a_begin: "p t = Idle \<Longrightarrow> live s i \<Longrightarrow> k \<in> tasks \<Longrightarrow> astep K tasks env (s, p) (s, p(t := Waiting i k))"
| a_use: "p t = Waiting i (Use c) \<Longrightarrow> locked_call i c s = (r, s') \<Longrightarrow>
    astep K tasks env (s, p) (s', p(t := Done (outcome_of r)))"
| a_shed: "p t = Waiting i Shut \<Longrightarrow> astep K tasks env (s, p) (drop_dirp K i s, p)"
| a_close: "p t = Waiting i Shut \<Longrightarrow>
    astep K tasks env (s, p) (drop_fd K i (drop_dirp K i s), p(t := Done Closed))"
| a_end: "p t = Done r \<Longrightarrow> astep K tasks env (s, p) (s, p(t := Idle))"
| a_others: "env s s' \<Longrightarrow> handles s' = handles s @ hs \<Longrightarrow> astep K tasks env (s, p) (s', p)"

definition free_lock :: "file_handle \<Rightarrow> file_handle" where
  "free_lock h = (if h_lock h = Locked then h\<lparr>h_lock := Unlocked\<rparr> else h)"

definition calm :: "'w nif \<Rightarrow> 'w nif" where
  "calm s = s\<lparr>handles := map free_lock (handles s)\<rparr>"

fun seen :: "('w, 'r) pc \<Rightarrow> ('w, 'r) pc" where
  "seen (Holding i k) = Waiting i k"
| "seen (Tested i f c) = Waiting i (Use c)"
| "seen (Closing i) = Waiting i Shut"
| "seen (Leaving i r) = Done r"
| "seen x = x"

definition shown :: "(nat \<Rightarrow> ('w, 'r) pc) \<Rightarrow> nat \<Rightarrow> ('w, 'r) pc" where
  "shown p = (\<lambda>t. seen (p t))"

definition spec_of :: "('w, 'r) config \<Rightarrow> ('w, 'r) config" where
  "spec_of c = (calm (fst c), shown (snd c))"

lemma free_lock_simps [simp]:
  "h_fd (free_lock h) = h_fd h" "h_dirp (free_lock h) = h_dirp h" "h_lock (free_lock h) \<noteq> Locked"
  "h_lock (free_lock h) = No_mutex \<longleftrightarrow> h_lock h = No_mutex"
  "free_lock (free_lock h) = free_lock h"
  "free_lock (h\<lparr>h_lock := Locked\<rparr>) = h\<lparr>h_lock := Unlocked\<rparr>" "free_lock (h\<lparr>h_lock := Unlocked\<rparr>) = h\<lparr>h_lock := Unlocked\<rparr>"
  "free_lock (h\<lparr>h_fd := x\<rparr>) = (free_lock h)\<lparr>h_fd := x\<rparr>" "free_lock (h\<lparr>h_dirp := y\<rparr>) = (free_lock h)\<lparr>h_dirp := y\<rparr>"
  by (auto simp: free_lock_def)

lemma free_lock_live: "h_lock h \<noteq> No_mutex \<Longrightarrow> free_lock h = h\<lparr>h_lock := Unlocked\<rparr>"
  by (cases "h_lock h") (auto simp: free_lock_def)

lemma calm_simps [simp]: "kern (calm s) = kern s" "handles (calm s) = map free_lock (handles s)" "live (calm s) = live s"
  by (auto simp: calm_def live_def fun_eq_iff)

lemma calm_handle: "i < length (handles s) \<Longrightarrow> handle (calm s) i = free_lock (handle s i)"
  by (simp add: handle_def)

lemma nif_eqI: "kern s = kern s' \<Longrightarrow> handles s = handles s' \<Longrightarrow> s = (s' :: 'w nif)"
  by (cases s; cases s') simp

lemma calm_mutex [simp]: "live s i \<Longrightarrow> calm (mutex_lock i s) = calm s" "live s i \<Longrightarrow> calm (mutex_unlock i s) = calm s"
  by (intro nif_eqI; auto simp: mutex_lock_def mutex_unlock_def live_def map_update handle_def
      free_lock_live [symmetric] list_update_same_conv)+

lemma calm_drop:
  assumes "i < length (handles s)"
  shows "calm (drop_dirp K i s) = drop_dirp K i (calm s)" "calm (drop_fd K i s) = drop_fd K i (calm s)"
  using calm_handle [OF assms]
  by (auto intro!: nif_eqI simp: drop_dirp_def drop_fd_def map_update handle_def split: option.split)

lemma calm_around:
  assumes "live s i"
  shows "mutex_unlock i ((mutex_lock i (calm s))\<lparr>kern := w\<rparr>) = calm (s\<lparr>kern := w\<rparr>)"
proof (rule nif_eqI)
  have i: "i < length (handles s)" "h_lock (handles s ! i) \<noteq> No_mutex" using assms by (auto simp: live_def)
  then have "(free_lock (handles s ! i))\<lparr>h_lock := Unlocked\<rparr> = free_lock (handles s ! i)"
    by (simp add: free_lock_live)
  with i show "handles (mutex_unlock i ((mutex_lock i (calm s))\<lparr>kern := w\<rparr>)) = handles (calm (s\<lparr>kern := w\<rparr>))"
    by (simp add: mutex_unlock_def mutex_lock_def handle_def list_update_same_conv)
qed simp

lemma locked_call_calm:
  assumes "live s i"
  shows "locked_call i c (calm s) = (case h_fd (handle s i) of
      None \<Rightarrow> (Inl EBADF, calm s) | Some f \<Rightarrow> (fst (sys (c f) s), calm (snd (sys (c f) s))))"
proof -
  have i: "i < length (handles s)" using assms by (simp add: live_def)
  have "h_fd (handle (calm s) i) = h_fd (handle s i)" using i by (simp add: calm_handle)
  moreover have same: "mutex_unlock i (mutex_lock i (calm s)) = calm s"
  proof -
    have "mutex_lock i (calm s) = (mutex_lock i (calm s))\<lparr>kern := kern s\<rparr>" "s\<lparr>kern := kern s\<rparr> = s"
      by (rule nif_eqI; simp)+
    with calm_around [OF assms, of "kern s"] show ?thesis by simp
  qed
  ultimately show ?thesis
    using assms i
    using calm_around [OF assms] same
    by (auto simp: locked_call_def handle_lock_def sys_def split: option.split prod.split)
qed

lemma spec_upd [simp]: "shown (p(t := x)) = (shown p)(t := seen x)" "shown p t = seen (p t)"
  by (auto simp: shown_def)

text \<open>Each step of the threads is a step of the specification, or none.\<close>

lemma lstep_refines:
  assumes "lstep K tasks env c c'" and "in_step c"
    and "\<And>s s'. env s s' \<Longrightarrow> env (calm s) (calm s')"
  shows "spec_of c' = spec_of c \<or> astep K tasks env (spec_of c) (spec_of c')"
  using assms(1,2)
proof (induction rule: lstep.induct)
  case (begin_call p t s i k)
  then show ?case using a_begin [of "shown p" t "calm s" i k] by (simp add: spec_of_def)
next
  case (lock p t i k s)
  then have "live s i" using in_step_here [OF lock(3), of t] by simp
  moreover have "(shown p)(t := Waiting i k) = shown p" using lock(1) by (auto simp: shown_def)
  ultimately show ?case by (simp add: spec_of_def)
next
  case (test_closed p t i c s)
  then have "live s i" using in_step_here [OF test_closed(3), of t] by simp
  with test_closed a_use [of "shown p" t i c "calm s" "Inl EBADF" "calm s" K tasks env] show ?case
    by (simp add: spec_of_def locked_call_calm)
next
  case (test_open p t i c s f)
  have "(shown p)(t := Waiting i (Use c)) = shown p" using test_open(1) by (auto simp: shown_def)
  then show ?case by (simp add: spec_of_def)
next
  case (call p t i f c s r s')
  have "live s i" "h_fd (handle s i) = Some f" using in_step_here [OF call(3), of t] call(1) by auto
  with call a_use [of "shown p" t i c "calm s" r "calm s'" K tasks env] show ?case
    by (simp add: spec_of_def locked_call_calm)
next
  case (close_stream p t i s)
  have "(shown p)(t := Waiting i Shut) = shown p" using close_stream(1) by (auto simp: shown_def)
  moreover have "i < length (handles s)" using in_step_length(2) [OF close_stream(2,1)] .
  ultimately show ?case
    using close_stream a_shed [of "shown p" t i] by (simp add: spec_of_def calm_drop)
next
  case (close_fd p t i s)
  have i: "i < length (handles s)" using in_step_length(3) [OF close_fd(2,1)] .
  have "h_dirp (handle (calm s) i) = None"
    using in_step_here [OF close_fd(2), of t] close_fd(1) i by (simp add: calm_handle)
  then have "drop_dirp K i (calm s) = calm s" by (simp add: drop_dirp_def)
  with close_fd i a_close [of "shown p" t i K tasks env "calm s"] show ?case
    by (simp add: spec_of_def calm_drop)
next
  case (unlock p t i r s)
  then have "live s i" using in_step_here [OF unlock(2), of t] by simp
  moreover have "(shown p)(t := Done r) = shown p" using unlock(1) by (auto simp: shown_def)
  ultimately show ?case by (simp add: spec_of_def)
next
  case (end_call p t r s)
  then show ?case using a_end [of "shown p" t r K tasks env "calm s"] by (simp add: spec_of_def)
next
  case (others s s' hs p)
  have "astep K tasks env (calm s, shown p) (calm s', shown p)"
    by (rule a_others [where hs = "map free_lock hs"]) (use others assms(3) in auto)
  then show ?case by (simp add: spec_of_def)
qed

lemma idle_calm: "idle c \<Longrightarrow> spec_of c = c"
  by (cases c) (auto simp: idle_def spec_of_def shown_def fun_eq_iff list_all_iff free_lock_def intro!: nif_eqI map_idI)



end
