(* ===== verification/Nif_Entries.thy ===== *)
theory Nif_Entries
  imports Nif_Readdir Nif_Mem
begin

text \<open>
  What \<^verbatim>\<open>readdir\<close> puts on the wire. The locale \<open>stream\<close> is the contract with the platform's directory
  streams: a fixed list of entries, a cookie for each place between two of them, and calls that move
  between the places. Under it a batch is shown to be the first \<^verbatim>\<open>buflen\<close> bytes of the listing from its
  cookie on, a guest's parser is shown to recover the entries, and reading page by page is shown to
  yield each entry exactly once.
\<close>

subsection \<open>The listing as bytes\<close>

text \<open>The type and inode that \<^verbatim>\<open>readdir\<close> reports of an entry, when \<open>st\<close> is what a stat of its name says.\<close>

definition entry_meta :: "(bytes \<Rightarrow> errno + stat) \<Rightarrow> dirent \<Rightarrow> byte \<times> u64" where
  "entry_meta st e =
     (let t = wt_of_dtype (d_type e);
          (type, ino) = (if t = WT_UNKNOWN
             then (case st (d_name e) of Inl _ \<Rightarrow> (t, 0) | Inr x \<Rightarrow> (wt_of_mode (st_mode x), st_ino x))
             else (t, 0))
      in (type, if ino = 0 then d_ino e else ino))"

definition wire_entry :: "(bytes \<Rightarrow> errno + stat) \<Rightarrow> u64 \<Rightarrow> dirent \<Rightarrow> bytes" where
  "wire_entry st c e =
     (case entry_meta st e of (t, ino) \<Rightarrow> dirent_header c ino (length (d_name e)) t @ d_name e)"

fun wire :: "(bytes \<Rightarrow> errno + stat) \<Rightarrow> (nat \<Rightarrow> u64) \<Rightarrow> nat \<Rightarrow> dirent list \<Rightarrow> bytes" where
  "wire st ck i [] = []"
| "wire st ck i (e # es) = wire_entry st (ck (Suc i)) e @ wire st ck (Suc i) es"

lemma length_header [simp]: "length (dirent_header c ino n t) = DIRENT_HDR"
  by (simp add: dirent_header_def put_u64_def put_u32_def DIRENT_HDR_def)

lemma length_wire_entry: "length (wire_entry st c e) = DIRENT_HDR + length (d_name e)"
  by (simp add: wire_entry_def split: prod.splits)

text \<open>The truncated entry is the beginning of the entry.\<close>

lemma partial_entry_take:
  assumes "length hdr = DIRENT_HDR" and "room < DIRENT_HDR + length name"
  shows "partial_entry room hdr name = take room (hdr @ name)"
  using assms by (auto simp: partial_entry_def Let_def)

subsection \<open>The contract of a stream\<close>

locale stream =
  fixes K :: "'w kernel" and d :: dirp and es :: "dirent list" and ck :: "nat \<Rightarrow> u64"
    and st :: "bytes \<Rightarrow> errno + stat" and here :: "nat \<Rightarrow> 'w \<Rightarrow> bool"
  assumes bound: "here i w \<Longrightarrow> i \<le> length es"
    and read: "here i w \<Longrightarrow> i < length es \<Longrightarrow> \<exists>w'. sys_readdir K d w = (Inr (Some (es ! i)), w') \<and> here (Suc i) w'"
    and ended: "here (length es) w \<Longrightarrow> \<exists>w'. sys_readdir K d w = (Inr None, w') \<and> here (length es) w'"
    and tell: "here i w \<Longrightarrow> \<exists>w'. sys_telldir K d w = (ck i, w') \<and> here i w'"
    and stat: "here i w \<Longrightarrow> e \<in> set es \<Longrightarrow> \<exists>w'. sys_dirstat K d (d_name e) w = (st (d_name e), w') \<and> here i w'"
    and rewind: "here i w \<Longrightarrow> here 0 (sys_rewinddir K d w)"
    and seek: "here i w \<Longrightarrow> j \<le> length es \<Longrightarrow> here j (sys_seekdir K d (ck j) w)"
    and cookie: "here i w \<Longrightarrow> 0 < j \<Longrightarrow> j \<le> length es \<Longrightarrow> ck j \<noteq> 0"
    and room: "here i w \<Longrightarrow> \<exists>w'. alloc K n w = (True, w') \<and> here i w'"
begin

lemma entry_type_meta:
  assumes "here i w" and "e \<in> set es"
  shows "\<exists>w'. entry_type K d e w = (entry_meta st e, w') \<and> here i w'"
proof -
  obtain w' where w': "sys_dirstat K d (d_name e) w = (st (d_name e), w')" "here i w'"
    using stat [OF assms] by blast
  show ?thesis
  proof (cases "wt_of_dtype (d_type e) = WT_UNKNOWN")
    case True
    with w' show ?thesis by (cases "st (d_name e)") (auto simp: entry_type_def entry_meta_def)
  next
    case False
    with assms(1) show ?thesis by (auto simp: entry_type_def entry_meta_def Let_def)
  qed
qed

text \<open>The loop writes the listing from where the stream is, as far as there is room.\<close>

lemma readdir_loop_wire:
  assumes "here i w" and "length out \<le> cap"
  shows "\<exists>w' j. readdir_loop K d cap out w = ((take cap (out @ wire st ck i (drop i es)), None), w') \<and> here j w'"
  using assms
proof (induction "length es - i" arbitrary: i w out)
  case 0
  then have i: "i = length es" using bound by fastforce
  obtain w' where "sys_readdir K d w = (Inr None, w')" "here (length es) w'"
    using ended 0 i by blast
  with 0 i show ?case by (auto simp: readdir_loop.simps)
next
  case (Suc n)
  then have i: "i < length es" by simp
  define e where "e = es ! i"
  have e: "e \<in> set es" and dr: "drop i es = e # drop (Suc i) es"
    using i by (simp_all add: e_def Cons_nth_drop_Suc)
  obtain w1 where w1: "sys_readdir K d w = (Inr (Some e), w1)" "here (Suc i) w1"
    using read [OF Suc.prems(1) i] by (auto simp: e_def)
  obtain w2 where w2: "sys_telldir K d w1 = (ck (Suc i), w2)" "here (Suc i) w2"
    using tell [OF w1(2)] by blast
  obtain t ino w3 where w3: "entry_type K d e w2 = ((t, ino), w3)" "here (Suc i) w3"
      and m: "entry_meta st e = (t, ino)"
    using entry_type_meta [OF w2(2) e] by (cases "entry_meta st e") auto
  let ?e = "dirent_header (ck (Suc i)) ino (length (d_name e)) t @ d_name e"
  have we: "wire_entry st (ck (Suc i)) e = ?e" by (simp add: wire_entry_def m)
  show ?case
  proof (cases "length out + (DIRENT_HDR + length (d_name e)) > cap")
    case True
    then have "partial_entry (cap - length out) (dirent_header (ck (Suc i)) ino (length (d_name e)) t) (d_name e)
        = take (cap - length out) ?e"
      using Suc.prems(2) by (intro partial_entry_take) auto
    moreover have "take (cap - length out) (?e @ x) = take (cap - length out) ?e" for x
      using True by simp
    ultimately show ?thesis
      using True Suc.prems(2) w1 w2 w3 we dr
      by (auto simp: readdir_loop.simps [of K d cap out w] Let_def)
  next
    case False
    then have le: "length (out @ ?e) \<le> cap" by simp
    have n: "n = length es - Suc i" using Suc.hyps(2) by simp
    from Suc.hyps(1) [OF n w3(2) le] obtain w' j where "readdir_loop K d cap (out @ ?e) w3
        = ((take cap ((out @ ?e) @ wire st ck (Suc i) (drop (Suc i) es)), None), w')" "here j w'" by blast
    with False w1 w2 w3 we dr show ?thesis
      by (auto simp: readdir_loop.simps [of K d cap out w] Let_def)
  qed
qed

text \<open>One batch from a cookie.\<close>

lemma readdir_batch_wire:
  assumes "here k (kern s)" and "i \<le> length es"
  shows "\<exists>w' j. readdir_batch K d (if i = 0 then 0 else ck i) cap s
    = (Term (mk_ok (TBin (take cap (wire st ck i (drop i es))))), s\<lparr>kern := w'\<rparr>) \<and> here j w'"
proof -
  let ?c = "if i = 0 then 0 else ck i"
  let ?w = "(if ?c = 0 then sys_rewinddir K d else sys_seekdir K d ?c) (kern s)"
  have c: "?c = 0 \<longleftrightarrow> i = 0" using cookie [OF assms(1)] assms(2) by auto
  have w: "here i ?w"
    using assms rewind [OF assms(1)] seek [OF assms] cookie [OF assms(1) _ assms(2)] by (cases "i = 0") simp_all
  obtain w1 where w1: "alloc K (if cap = 0 then 1 else cap) ?w = (True, w1)" "here i w1"
    using room [OF w] by blast
  obtain w2 j where w2: "readdir_loop K d cap [] w1 = ((take cap ([] @ wire st ck i (drop i es)), None), w2)"
      "here j w2"
    using readdir_loop_wire [OF w1(2), of "[]" cap] by auto
  have s1: "sys_do (if ?c = 0 then sys_rewinddir K d else sys_seekdir K d ?c) s = s\<lparr>kern := ?w\<rparr>"
    by (simp add: sys_do_def)
  have "readdir_batch K d ?c cap s
      = (Term (mk_ok (TBin (take cap (wire st ck i (drop i es))))), s\<lparr>kern := w2\<rparr>)"
    unfolding readdir_batch_def Let_def s1 using w1(1) w2(1) by (simp add: sys_def)
  with w2(2) show ?thesis by blast
qed

end

subsection \<open>What the guest reads\<close>

text \<open>
  A guest takes entries from the buffer while one is complete: cookie, inode, type and name. The cookie
  of the last complete one is what it asks for next, until a buffer comes back that is not full.
\<close>

type_synonym entry = "u64 \<times> u64 \<times> byte \<times> bytes"

function parse_entries :: "bytes \<Rightarrow> entry list" where
  "parse_entries bs =
     (let n = unat (get_le (take 4 (drop 16 bs)) :: 32 word)
      in if length bs < DIRENT_HDR + n then []
         else (get_le (take 8 bs), get_le (take 8 (drop 8 bs)), bs ! 20, take n (drop DIRENT_HDR bs))
              # parse_entries (drop (DIRENT_HDR + n) bs))"
  by pat_completeness auto
termination
  by (relation "measure length") (auto simp: DIRENT_HDR_def)

declare parse_entries.simps [simp del]

fun list_pages :: "'w kernel \<Rightarrow> dirp \<Rightarrow> nat \<Rightarrow> nat \<Rightarrow> u64 \<Rightarrow> 'w nif \<Rightarrow> entry list option" where
  "list_pages K d cap 0 c s = None"
| "list_pages K d cap (Suc fuel) c s =
     (case readdir_batch K d c cap s of
        (Term (TTuple [tag, TBin out]), s1) \<Rightarrow>
          (let ps = parse_entries out
           in if length out < cap then Some ps
              else if ps = [] then None
              else map_option (append ps) (list_pages K d cap fuel (fst (last ps)) s1))
      | _ \<Rightarrow> None)"

definition entry_of :: "(bytes \<Rightarrow> errno + stat) \<Rightarrow> u64 \<Rightarrow> dirent \<Rightarrow> entry" where
  "entry_of st c e = (c, snd (entry_meta st e), fst (entry_meta st e), d_name e)"

lemma get_put_u64 [simp]: "get_le (put_u64 v) = v"
  by (simp add: put_u64_def get_put_le)

lemma get_put_u32 [simp]: "get_le (put_u32 v) = v"
  by (simp add: put_u32_def get_put_le)

lemma header_fields:
  assumes "n < 2 ^ 32"
  shows "take 8 (dirent_header c ino n t @ x) = put_u64 c"
    and "take 8 (drop 8 (dirent_header c ino n t @ x)) = put_u64 ino"
    and "unat (get_le (take 4 (drop 16 (dirent_header c ino n t @ x))) :: 32 word) = n"
    and "(dirent_header c ino n t @ x) ! 20 = t"
proof -
  have l: "length (put_u64 v) = 8" "length (put_u32 u) = 4" for v u
    by (simp_all add: put_u64_def put_u32_def)
  show "take 8 (dirent_header c ino n t @ x) = put_u64 c"
    "take 8 (drop 8 (dirent_header c ino n t @ x)) = put_u64 ino"
    "(dirent_header c ino n t @ x) ! 20 = t"
    by (simp_all add: dirent_header_def l nth_append)
  have "take 4 (drop 16 (dirent_header c ino n t @ x)) = put_u32 (of_nat n)"
    by (simp add: dirent_header_def l)
  moreover have "unat (of_nat n :: 32 word) = n" using assms by (simp add: unat_of_nat)
  ultimately show "unat (get_le (take 4 (drop 16 (dirent_header c ino n t @ x))) :: 32 word) = n"
    by simp
qed

lemma parse_whole:
  assumes "length (d_name e) < 2 ^ 32"
  shows "parse_entries (wire_entry st c e @ x) = entry_of st c e # parse_entries x"
proof -
  obtain t ino where m: "entry_meta st e = (t, ino)" by (cases "entry_meta st e")
  have w: "wire_entry st c e @ x = dirent_header c ino (length (d_name e)) t @ (d_name e @ x)"
    by (simp add: wire_entry_def m)
  note f = header_fields [OF assms, of c ino t "d_name e @ x", folded w]
  have "take (length (d_name e)) (drop DIRENT_HDR (wire_entry st c e @ x)) = d_name e"
    "drop (DIRENT_HDR + length (d_name e)) (wire_entry st c e @ x) = x"
    by (simp_all add: w)
  with f show ?thesis
    by (subst parse_entries.simps) (simp add: Let_def entry_of_def m length_wire_entry)
qed

lemma parse_part:
  assumes "length (d_name e) < 2 ^ 32" and "k < length (wire_entry st c e)"
  shows "parse_entries (take k (wire_entry st c e)) = []"
proof (cases "k < DIRENT_HDR")
  case True
  then show ?thesis by (subst parse_entries.simps) (simp add: Let_def)
next
  case False
  obtain t ino where m: "entry_meta st e = (t, ino)" by (cases "entry_meta st e")
  have "take k (wire_entry st c e)
      = dirent_header c ino (length (d_name e)) t @ take (k - DIRENT_HDR) (d_name e)"
    using False by (simp add: wire_entry_def m)
  with header_fields(3) [OF assms(1), of c ino t "take (k - DIRENT_HDR) (d_name e)"] assms(2) False show ?thesis
    by (subst parse_entries.simps) (simp add: Let_def length_wire_entry)
qed

text \<open>The parser on the beginning of a listing: the entries that fit, whole.\<close>

definition entries_from :: "(bytes \<Rightarrow> errno + stat) \<Rightarrow> (nat \<Rightarrow> u64) \<Rightarrow> dirent list \<Rightarrow> nat \<Rightarrow> nat \<Rightarrow> entry list" where
  "entries_from st ck es i j = map (\<lambda>k. entry_of st (ck (Suc k)) (es ! k)) [i..<j]"

lemma wire_nth:
  "i < length es \<Longrightarrow> wire st ck i (drop i es)
     = wire_entry st (ck (Suc i)) (es ! i) @ wire st ck (Suc i) (drop (Suc i) es)"
  by (simp add: Cons_nth_drop_Suc [symmetric])

lemma parse_listing:
  assumes "\<And>e. e \<in> set es \<Longrightarrow> length (d_name e) < 2 ^ 32" and "i \<le> length es"
  shows "\<exists>j. i \<le> j \<and> j \<le> length es \<and> parse_entries (take cap (wire st ck i (drop i es))) = entries_from st ck es i j
    \<and> (j = length es \<or> cap \<le> length (wire st ck i (drop i es)))
    \<and> (i < length es \<and> length (wire_entry st (ck (Suc i)) (es ! i)) \<le> cap \<longrightarrow> i < j)"
  using assms(2)
proof (induction "length es - i" arbitrary: i cap)
  case 0
  then have "i = length es" by simp
  moreover have "parse_entries [] = []" by (subst parse_entries.simps) (simp add: DIRENT_HDR_def)
  ultimately show ?case by (auto simp: entries_from_def)
next
  case (Suc n)
  then have i: "i < length es" and n: "n = length es - Suc i" by simp_all
  let ?e = "wire_entry st (ck (Suc i)) (es ! i)"
  have small: "length (d_name (es ! i)) < 2 ^ 32" using assms(1) i by simp
  note w = wire_nth [OF i, of st ck]
  show ?case
  proof (cases "length ?e \<le> cap")
    case False
    then have "parse_entries (take cap (wire st ck i (drop i es))) = []"
      using parse_part [OF small, of cap st] w by simp
    with False i w show ?thesis by (intro exI [of _ i]) (auto simp: entries_from_def)
  next
    case True
    let ?cap = "cap - length ?e"
    obtain j where j: "Suc i \<le> j" "j \<le> length es"
        "parse_entries (take ?cap (wire st ck (Suc i) (drop (Suc i) es))) = entries_from st ck es (Suc i) j"
        "j = length es \<or> ?cap \<le> length (wire st ck (Suc i) (drop (Suc i) es))"
      using Suc.hyps(1) [OF n, of ?cap] i by auto
    have "take cap (wire st ck i (drop i es)) = ?e @ take ?cap (wire st ck (Suc i) (drop (Suc i) es))"
      using w True by simp
    then have "parse_entries (take cap (wire st ck i (drop i es))) = entries_from st ck es i j"
      using j(1,3) parse_whole [OF small] by (simp add: entries_from_def upt_conv_Cons)
    with j True w show ?thesis by (intro exI [of _ j]) auto
  qed
qed

context stream begin

text \<open>Page by page, in buffers that can hold any one entry.\<close>

lemma list_pages_all:
  assumes small: "\<And>e. e \<in> set es \<Longrightarrow> DIRENT_HDR + length (d_name e) \<le> cap \<and> length (d_name e) < 2 ^ 32"
    and "0 < cap" "here k (kern s)" "i \<le> length es" "length es - i < fuel"
  shows "list_pages K d cap fuel (if i = 0 then 0 else ck i) s = Some (entries_from st ck es i (length es))"
  using assms(2-)
proof (induction fuel arbitrary: i k s)
  case (Suc fuel)
  let ?out = "take cap (wire st ck i (drop i es))"
  obtain w' k' where b: "readdir_batch K d (if i = 0 then 0 else ck i) cap s = (Term (mk_ok (TBin ?out)), s\<lparr>kern := w'\<rparr>)"
      and k': "here k' w'"
    using readdir_batch_wire [OF Suc.prems(2,3)] by blast
  obtain j where j: "i \<le> j" "j \<le> length es" "parse_entries ?out = entries_from st ck es i j"
      "j = length es \<or> cap \<le> length (wire st ck i (drop i es))"
      "i < length es \<and> length (wire_entry st (ck (Suc i)) (es ! i)) \<le> cap \<longrightarrow> i < j"
    using parse_listing [of es i cap st ck] small Suc.prems(3) by auto
  show ?case
  proof (cases "length ?out < cap")
    case True
    then have lt: "length (wire st ck i (drop i es)) < cap" by (auto simp: min_def split: if_splits)
    then have "j = length es" using j(4) by auto
    with lt b j(3) show ?thesis by (simp add: mk_ok_def Let_def)
  next
    case False
    have lt: "i < length es"
    proof (rule ccontr)
      assume "\<not> i < length es"
      then have "wire st ck i (drop i es) = []" by simp
      with False Suc.prems(1) show False by simp
    qed
    with small [of "es ! i"] j(5) have ij: "i < j" by (simp add: length_wire_entry)
    have ps: "entries_from st ck es i j \<noteq> []" "fst (last (entries_from st ck es i j)) = ck j"
      using ij by (auto simp: entries_from_def entry_of_def last_map)
    have "list_pages K d cap fuel (if j = 0 then 0 else ck j) (s\<lparr>kern := w'\<rparr>)
        = Some (entries_from st ck es j (length es))"
      using Suc.prems(1,4) k' j(2) ij by (intro Suc.IH) auto
    moreover have "entries_from st ck es i (length es) = entries_from st ck es i j @ entries_from st ck es j (length es)"
      using j(1,2) using upt_add_eq_append [of i j "length es - j"] by (simp add: entries_from_def flip: map_append)
    ultimately show ?thesis using False b j(3) ps ij by (simp add: mk_ok_def Let_def)
  qed
qed simp

end

context stream begin

text \<open>The unbounded listing ends where the stream ends.\<close>

lemma names_loop_all:
  assumes "here i w"
  shows "\<exists>w'. names_loop K d l w = Some (rev (map (\<lambda>e. TBin (d_name e)) (drop i es)) @ l, w') \<and> here (length es) w'"
  using assms
proof (induction "length es - i" arbitrary: i l w)
  case 0
  then have i: "i = length es" using bound by fastforce
  obtain w' where "sys_readdir K d w = (Inr None, w')" "here (length es) w'" using ended 0 i by blast
  with i show ?case by (subst names_loop.simps) simp
next
  case (Suc n)
  then have i: "i < length es" and n: "n = length es - Suc i" by simp_all
  obtain w1 where w1: "sys_readdir K d w = (Inr (Some (es ! i)), w1)" "here (Suc i) w1"
    using read [OF Suc.prems i] by blast
  obtain w' where "names_loop K d (TBin (d_name (es ! i)) # l) w1
      = Some (rev (map (\<lambda>e. TBin (d_name e)) (drop (Suc i) es)) @ TBin (d_name (es ! i)) # l, w')"
      "here (length es) w'"
    using Suc.hyps(1) [OF n w1(2)] by blast
  moreover have "drop i es = es ! i # drop (Suc i) es" using i by (simp add: Cons_nth_drop_Suc)
  ultimately show ?case using w1(1) by (subst names_loop.simps) simp
qed

end

subsection \<open>The streams of the kernel in memory\<close>

definition mem_here :: "dirp \<Rightarrow> dirent list \<Rightarrow> nat \<Rightarrow> mem \<Rightarrow> bool" where
  "mem_here d es i w \<longleftrightarrow> map_of (strms w) d = Some (es, i) \<and> i \<le> length es \<and> length es < 2 ^ 64"

lemma move_stream_here:
  "mem_here d es i w \<Longrightarrow> g i \<le> length es \<Longrightarrow> mem_here d es (g i) (move_stream d g w)"
proof -
  have "map_of (map (\<lambda>(s', es, i). (s', es, if s' = d then g i else i)) xs) d
      = map_option (\<lambda>(es, i). (es, g i)) (map_of xs d)" for xs :: "(dirp \<times> dirent list \<times> nat) list"
    by (induction xs) auto
  then show "mem_here d es i w \<Longrightarrow> g i \<le> length es \<Longrightarrow> ?thesis"
    by (auto simp: mem_here_def move_stream_def)
qed

interpretation mem_stream: stream mem_kernel d es of_nat "\<lambda>_. Inl ENOSYS" "mem_here d es" for d es
proof
  show "mem_here d es i w \<Longrightarrow> i \<le> length es" for i w by (simp add: mem_here_def)
  show "\<exists>w'. sys_readdir mem_kernel d w = (Inr (Some (es ! i)), w') \<and> mem_here d es (Suc i) w'"
    if "mem_here d es i w" "i < length es" for i w
    using that move_stream_here [OF that(1), of Suc]
    by (simp add: mem_kernel_def mem_readdir_def) (simp add: mem_here_def)
  show "\<exists>w'. sys_readdir mem_kernel d w = (Inr None, w') \<and> mem_here d es (length es) w'"
    if "mem_here d es (length es) w" for w
    using that by (simp add: mem_kernel_def mem_readdir_def mem_here_def)
  show "\<exists>w'. sys_telldir mem_kernel d w = (of_nat i, w') \<and> mem_here d es i w'"
    if "mem_here d es i w" for i w
    using that by (simp add: mem_kernel_def mem_telldir_def mem_here_def)
  show "mem_here d es 0 (sys_rewinddir mem_kernel d w)" if "mem_here d es i w" for i w
    using move_stream_here [OF that, of "\<lambda>_. 0"] by (simp add: mem_kernel_def)
  show "mem_here d es j (sys_seekdir mem_kernel d (of_nat j) w)" if "mem_here d es i w" "j \<le> length es" for i w j
  proof -
    have "unat (of_nat j :: u64) = j" using that by (simp add: unat_of_nat mem_here_def)
    with move_stream_here [OF that(1), of "\<lambda>_. j"] that(2) show ?thesis by (simp add: mem_kernel_def)
  qed
  show "of_nat j \<noteq> (0 :: u64)" if "mem_here d es i w" "0 < j" "j \<le> length es" for i w j
  proof
    assume "of_nat j = (0 :: u64)"
    then have "unat (of_nat j :: u64) = 0" by simp
    with that show False by (simp add: unat_of_nat mem_here_def)
  qed
qed (simp_all add: mem_kernel_def)

lemma mem_fdopendir_here:
  assumes "mem_fdopendir f w = (Inr d, w')" and "mem_node f w = Inr (x, MDir p es)"
    and "length (mem_entries (now w) x) < 2 ^ 64"
  shows "d = f \<and> mem_here f (mem_entries (now w) x) 0 w'"
  using assms by (auto simp: mem_fdopendir_def mem_here_def)

text \<open>A stream over the root of the sample.\<close>

definition sample_listing :: "dirent list" where
  "sample_listing = mem_entries sample_tree 1"

definition sample_stream :: mem where
  "sample_stream = sample\<lparr>strms := [(3, sample_listing, 0)]\<rparr>"

lemma sample_here: "mem_here 3 sample_listing 0 sample_stream"
  by (simp add: mem_here_def sample_stream_def sample_listing_def mem_entries_def sample_tree_def)

subsection \<open>The properties\<close>

text \<open>
  C24. A batch is the beginning of the listing: on a well-behaved stream \<^verbatim>\<open>readdir\<close> answers exactly the
  first \<^verbatim>\<open>buflen\<close> bytes of the encoded entries from its cookie on, the truncated last entry included.
\<close>

theorem readdir_batch_prefix:
  assumes "stream K d es ck st here" and "here k (kern s)" and "i \<le> length es"
  shows "fst (readdir_batch K d (if i = 0 then 0 else ck i) cap s)
    = Term (mk_ok (TBin (take cap (wire st ck i (drop i es)))))"
  using stream.readdir_batch_wire [OF assms, of cap] by auto

theorem readdir_batch_prefix_witness:
  "fst (readdir_batch mem_kernel 3 1 30 \<lparr>kern = sample_stream, handles = []\<rparr>)
    = Term (mk_ok (TBin (take 30 (wire (\<lambda>_. Inl ENOSYS) of_nat 1 (drop 1 sample_listing)))))"
  using readdir_batch_prefix [OF mem_stream.stream_axioms, of 3 sample_listing 0
      "\<lparr>kern = sample_stream, handles = []\<rparr>" 1 30] sample_here
  by (simp add: sample_listing_def mem_entries_def sample_tree_def)

text \<open>
  C25. On every kernel, whatever its streams do, a batch never exceeds the buffer the guest asked for.
\<close>

theorem readdir_batch_bounded:
  assumes "readdir_batch K d c cap s = (Term (mk_ok (TBin out)), s')"
  shows "length out \<le> cap"
proof -
  have loop: "length (fst (fst (readdir_loop K d cap out w))) \<le> cap" if "length out \<le> cap" for out w
    using that
  proof (induction K d cap out w rule: readdir_loop.induct)
    case (1 K d cap out w)
    show ?case
    proof (cases "sys_readdir K d w")
      case (Pair r w1)
      consider e where "r = Inl e" | "r = Inr None" | de where "r = Inr (Some de)" by (cases r) auto
      then show ?thesis
      proof cases
        case (3 de)
        obtain c w2 where w2: "sys_telldir K d w1 = (c, w2)" by (cases "sys_telldir K d w1")
        obtain t ino w3 where w3: "entry_type K d de w2 = ((t, ino), w3)" by (cases "entry_type K d de w2") auto
        have part: "length (partial_entry room hdr name) \<le> room" if "length hdr = DIRENT_HDR" for room hdr name
          using that by (auto simp: partial_entry_def Let_def)
        show ?thesis
          using 1 Pair 3 w2 w3 part [of "dirent_header c ino (length (d_name de)) t" "cap - length out" "d_name de"]
          by (subst readdir_loop.simps) (auto simp: Let_def)
      qed (use 1(2) Pair in \<open>simp_all add: readdir_loop.simps\<close>)
    qed
  qed
  let ?s1 = "sys_do (if c = 0 then sys_rewinddir K d else sys_seekdir K d c) s"
  obtain q s2 where al: "sys (alloc K (if cap = 0 then 1 else cap)) ?s1 = (q, s2)"
    by (cases "sys (alloc K (if cap = 0 then 1 else cap)) ?s1")
  obtain out' e s3 where lp: "sys (readdir_loop K d cap []) s2 = ((out', e), s3)"
    by (cases "sys (readdir_loop K d cap []) s2") auto
  then have "readdir_loop K d cap [] (kern s2) = ((out', e), kern s3)" by (simp add: sys_eq)
  with loop [of "[]" "kern s2"] have "length out' \<le> cap" by simp
  moreover have "out = out'"
    using assms al lp by (cases q; cases e) (auto simp: readdir_batch_def Let_def mk_ok_def split: if_splits)
  ultimately show ?thesis by simp
qed

theorem readdir_batch_bounded_witness:
  "\<exists>out. fst (readdir_batch mem_kernel 3 0 30 \<lparr>kern = sample_stream, handles = []\<rparr>) = Term (mk_ok (TBin out))
     \<and> length out \<le> 30"
proof -
  let ?s = "\<lparr>kern = sample_stream, handles = []\<rparr>"
  have "fst (readdir_batch mem_kernel 3 0 30 ?s)
      = Term (mk_ok (TBin (take 30 (wire (\<lambda>_. Inl ENOSYS) of_nat 0 sample_listing))))"
    using mem_stream.readdir_batch_wire [of 3 sample_listing 0 ?s 0 30] sample_here
    by auto
  note eq = this
  then have "readdir_batch mem_kernel 3 0 30 ?s
      = (Term (mk_ok (TBin (take 30 (wire (\<lambda>_. Inl ENOSYS) of_nat 0 sample_listing)))),
         snd (readdir_batch mem_kernel 3 0 30 ?s))" by (simp add: prod_eq_iff)
  from readdir_batch_bounded [OF this] eq show ?thesis by blast
qed

text \<open>
  C33. Encoding and parsing are inverse: what a guest's parser takes out of a whole listing are the
  cookies, inodes, types and names that went in, in order.
\<close>

theorem wire_roundtrip:
  assumes "\<And>e. e \<in> set es \<Longrightarrow> length (d_name e) < 2 ^ 32"
  shows "parse_entries (wire st ck 0 es) = entries_from st ck es 0 (length es)"
proof -
  let ?cap = "Suc (length (wire st ck 0 es))"
  obtain j where "j \<le> length es" "parse_entries (take ?cap (wire st ck 0 es)) = entries_from st ck es 0 j"
      "j = length es \<or> ?cap \<le> length (wire st ck 0 es)"
    using parse_listing [of es 0 ?cap st ck] assms by auto
  then show ?thesis by auto
qed

theorem wire_roundtrip_witness:
  "parse_entries (wire (\<lambda>_. Inl ENOSYS) of_nat 0 sample_listing)
    = [(1, 1, 3, DOT), (2, 1, 3, DOTDOT), (3, 2, 3, bytes_of ''a''), (4, 4, 7, bytes_of ''l''), (5, 6, 7, bytes_of ''s'')]"
proof -
  have "length (d_name e) < 2 ^ 32" if "e \<in> set sample_listing" for e
    using that by (auto simp: sample_listing_def mem_entries_def sample_tree_def bytes_of_def)
  from wire_roundtrip [of sample_listing "\<lambda>_. Inl ENOSYS" of_nat, OF this] have
    "parse_entries (wire (\<lambda>_. Inl ENOSYS) of_nat 0 sample_listing)
      = entries_from (\<lambda>_. Inl ENOSYS) of_nat sample_listing 0 (length sample_listing)" .
  also have "\<dots> = [(1, 1, 3, DOT), (2, 1, 3, DOTDOT), (3, 2, 3, bytes_of ''a''), (4, 4, 7, bytes_of ''l''),
      (5, 6, 7, bytes_of ''s'')]" by code_simp
  finally show ?thesis .
qed

text \<open>
  C23. Reading page by page lists every entry exactly once and in order: a guest that parses each batch,
  asks again from the cookie of the last entry it got whole, and stops at a batch that is not full,
  collects exactly the directory, in any buffer that holds its largest entry.
\<close>

theorem pages_list_everything:
  assumes "stream K d es ck st here" and "here k (kern s)"
    and "\<And>e. e \<in> set es \<Longrightarrow> DIRENT_HDR + length (d_name e) \<le> cap \<and> length (d_name e) < 2 ^ 32"
    and "0 < cap" and "length es < fuel"
  shows "list_pages K d cap fuel 0 s = Some (entries_from st ck es 0 (length es))"
  using stream.list_pages_all [OF assms(1,3,4,2), where i = 0 and fuel = fuel] assms(5) by simp

theorem pages_list_everything_witness:
  "list_pages mem_kernel 3 27 6 0 \<lparr>kern = sample_stream, handles = []\<rparr>
    = Some (entries_from (\<lambda>_. Inl ENOSYS) of_nat sample_listing 0 5)"
proof -
  have len: "length sample_listing = 5"
    by (simp add: sample_listing_def mem_entries_def sample_tree_def)
  have "DIRENT_HDR + length (d_name e) \<le> 27 \<and> length (d_name e) < 2 ^ 32" if "e \<in> set sample_listing" for e
    using that by (auto simp: sample_listing_def mem_entries_def sample_tree_def bytes_of_def DIRENT_HDR_def)
  from pages_list_everything [OF mem_stream.stream_axioms, where d = 3 and es = sample_listing and k = 0
      and s = "\<lparr>kern = sample_stream, handles = []\<rparr>" and cap = 27 and fuel = 6, OF _ this]
  show ?thesis using sample_here len by simp
qed

text \<open>
  \<^verbatim>\<open>readdir_names\<close> returns on every finite directory, with all the names, last first.
\<close>

lemma readdir_names_returns:
  assumes "stream K d es ck st here" and "here 0 w"
  shows "\<exists>w'. names_loop K d [] w = Some (rev (map (\<lambda>e. TBin (d_name e)) es), w')"
  using stream.names_loop_all [OF assms, of "[]"] by auto

lemma readdir_names_returns_witness:
  "\<exists>w'. names_loop mem_kernel 3 [] sample_stream
     = Some ([TBin (bytes_of ''s''), TBin (bytes_of ''l''), TBin (bytes_of ''a''), TBin DOTDOT, TBin DOT], w')"
  using readdir_names_returns [OF mem_stream.stream_axioms sample_here]
  by (simp add: sample_listing_def mem_entries_def sample_tree_def)

text \<open>The \<^verbatim>\<open>d_type\<close> a platform gives an entry for a mode.\<close>

fun dtype_of_mode :: "ftype \<Rightarrow> dtype" where
  "dtype_of_mode S_IFDIR = DT_DIR"
| "dtype_of_mode S_IFREG = DT_REG"
| "dtype_of_mode S_IFLNK = DT_LNK"
| "dtype_of_mode S_IFCHR = DT_CHR"
| "dtype_of_mode S_IFBLK = DT_BLK"
| "dtype_of_mode S_IFSOCK = DT_SOCK"
| "dtype_of_mode S_IFother = DT_other"

text \<open>
  A platform with \<^verbatim>\<open>d_type\<close> and one without report the same entry: when the type in the entry is the
  one a stat of the name gives, and the inode too, leaving it out changes nothing.
\<close>

lemma entry_meta_without_d_type:
  assumes "st (d_name e) = Inr x" and "d_type e = dtype_of_mode (st_mode x)" and "d_ino e = st_ino x"
  shows "entry_meta st (e\<lparr>d_type := DT_other\<rparr>) = entry_meta st e"
  using assms by (cases "st_mode x") (auto simp: entry_meta_def Let_def)

lemma entry_meta_without_d_type_witness:
  "entry_meta (\<lambda>_. Inr (stat_of 5 (MLnk []))) \<lparr>d_name = DOT, d_ino = 5, d_type = DT_other\<rparr> = (7, 5)"
  using entry_meta_without_d_type [of "\<lambda>_. Inr (stat_of 5 (MLnk []))" "\<lparr>d_name = DOT, d_ino = 5, d_type = DT_LNK\<rparr>"]
  by (simp add: stat_of_def entry_meta_def)

end
