(* ===== verification/Nif_Defects.thy ===== *)
theory Nif_Defects
  imports Nif_Calls Nif_Formats
begin

text \<open>
  Where the code does less than it says: runs of the definitions, on the kernel in memory, that break
  a promise of the comments or of the documentation. Each lemma is an evaluation; together they are
  the reasons for the hypotheses of the theorems elsewhere (\<open>harmless\<close>, mutexes that can be created,
  directories that keep their parent).
\<close>

subsection \<open>Following the last component\<close>

text \<open>
  \<open>/a/k\<close> is a link to \<open>b\<close> beside it. \<^verbatim>\<open>resolve_final\<close> walks to \<open>/a\<close>, which it owns, and then to the
  parent of the one-component text \<^verbatim>\<open>"b"\<close>, which is the same descriptor, not owned; it closes it and
  answers it. The stat that follows is a call on a closed descriptor.
\<close>

definition follow_tree :: tree where
  "follow_tree =
    [(1, MDir 1 [(bytes_of ''a'', 2), (bytes_of ''l'', 5)]), (2, MDir 1 [(bytes_of ''b'', 3), (bytes_of ''k'', 4)]),
     (3, MReg (bytes_of ''hello'')), (4, MLnk (bytes_of ''b'')), (5, MLnk (bytes_of ''a/b''))]"

lemma resolve_final_closes_its_answer:
  "case resolve_final mem_kernel 7 (bytes_of ''a/k'') Caller_buf MAX_PATH_LEN (mem_world follow_tree [] [(7, 1)]) of
     (Inr (pfd, owned, name), w) \<Rightarrow> \<not> owned \<and> pfd \<noteq> 7 \<and> map_of (fds w) pfd = None | _ \<Rightarrow> False"
  by code_simp


text \<open>The file is there: the walk opens it by the same path.\<close>

lemma walk_open_opens_the_same_path:
  "isl (fst (walk_open mem_kernel 7 (bytes_of ''a/k'') 0 0 True (mem_world follow_tree [] [(7, 1)]))) = False"
  by code_simp

text \<open>
  The name it answers after a link is in its own local buffer, which is gone when \<^verbatim>\<open>path_op_nif\<close> reads
  it: what the frame holds by then decides the answer.
\<close>

lemma resolve_final_answers_a_dead_pointer:
  "fst (resolve_final mem_kernel 7 (bytes_of ''l'') Caller_buf MAX_PATH_LEN (mem_world follow_tree [] [(7, 1)]))
    = Inr (8, True, Local_buf, bytes_of ''b'')"
  by code_simp

text \<open>
  A stat that follows a final link acts on the name that is left in a dead stack frame.
\<close>

lemma stat_follow_reads_dead_stack:
  "fst (path_op_nif (mem_kernel\<lparr>dead_stack := \<lambda>_ _. bytes_of ''x''\<rparr>)
      [TRes 0, TBin (bytes_of ''l''), TInt OP_STAT_FOLLOW, TBin []] (one_handle (mem_world follow_tree [] [(7, 1)])))
    = err ENOENT"
  by code_simp

text \<open>
  Each link restarts the depth at 0, so a link that goes up and stays inside is refused where the walk
  follows it: \<open>/a/u\<close> is a link to \<open>../l\<close>.
\<close>

lemma resolve_final_refuses_what_walk_open_follows:
  "fst (resolve_final mem_kernel 7 (bytes_of ''a/u'') Caller_buf MAX_PATH_LEN sample) = Inl E_REFUSED
    \<and> fst (walk_open mem_kernel 7 (bytes_of ''a/u'') 0 0 True sample) = Inr 11"
  by code_simp

subsection \<open>Two closes of one descriptor\<close>

text \<open>
  When the mutex of a new handle cannot be created, releasing the handle closes the descriptor and the
  caller closes it again.
\<close>

text \<open>
  When no mutex can be created, granting a root closes its descriptor twice.
\<close>

lemma failed_mutex_closes_twice:
  "map_option (\<lambda>s. (ok (kern s), held (kern s)))
     (run (audited (\<lambda>_ _. True) (mem_kernel\<lparr>mutex_create := \<lambda>w. (False, w)\<rparr>)) [Call Open_dir [text_arg ''/'']]
       (loaded (mem_world sample_tree [] [(6, 9)])))
    = Some (False, {#})"
  by (simp add: loaded_def open_dir_nif_def audited_def mem_kernel_def text_arg_def MAX_PATH_LEN_def
      cstr_def sys_def on_base_eq give_fd_def mem_world_def fresh_audit_def finish_open_def new_handle_def
      Let_def upd_handle_def handle_def sys_do_def file_dtor_def drop_fd_def drop_dirp_def)

subsection \<open>A directory that moves\<close>

text \<open>
  The depth counter is right as long as directories stay where they are. \<open>/p\<close> is the preopen (node 1, on
  descriptor 7); while \<open>a/b/../../x\<close> is walked and stands in \<open>b\<close>, another process moves \<open>b\<close> from \<open>a\<close> up
  into \<open>p\<close>. The two \<^verbatim>\<open>".."\<close> then lead from \<open>b\<close> to \<open>p\<close> and from \<open>p\<close> to its parent, the counter says 0,
  and \<open>x\<close> is opened beside the preopen.
\<close>

definition before_move :: tree where
  "before_move =
    [(0, MDir 0 [(bytes_of ''p'', 1), (bytes_of ''x'', 9)]), (1, MDir 0 [(bytes_of ''a'', 2)]),
     (2, MDir 1 [(bytes_of ''b'', 3)]), (3, MDir 2 []), (9, MReg (bytes_of ''secret''))]"

definition after_move :: tree where
  "after_move =
    [(0, MDir 0 [(bytes_of ''p'', 1), (bytes_of ''x'', 9)]), (1, MDir 0 [(bytes_of ''a'', 2), (bytes_of ''b'', 3)]),
     (2, MDir 1 []), (3, MDir 1 []), (9, MReg (bytes_of ''secret''))]"

text \<open>
  A walk can leave the preopen when a directory it stands in is moved up: it opens node 9, which is no
  entry of anything below node 1 before, during or after.
\<close>

lemma walk_escapes_when_a_directory_moves:
  "case walk_open mem_kernel 7 (bytes_of ''a/b/../../x'') 0 0 True
      (mem_world before_move [before_move, before_move, after_move] [(7, 1)]) of
     (Inr f, w) \<Rightarrow> map_of (fds w) f = Some 9 | _ \<Rightarrow> False"
  by code_simp

text \<open>Without the move the same path is an entry of the preopen that does not exist.\<close>

lemma walk_does_not_escape_otherwise:
  "fst (walk_open mem_kernel 7 (bytes_of ''a/b/../../x'') 0 0 True (mem_world before_move [] [(7, 1)]))
    = Inl (Errno ENOENT)"
  by code_simp

subsection \<open>Errors and budgets\<close>

text \<open>
  A file where a directory was asked for is ENOTDIR when links may be followed and ELOOP when they may
  not, though there is no link.
\<close>

lemma no_follow_calls_enotdir_eloop:
  "fst (walk_open mem_kernel 7 (bytes_of ''a/b'') M_DIRECTORY 0 False sample) = Inl (Errno ELOOP)
    \<and> fst (walk_open mem_kernel 7 (bytes_of ''a/b'') M_DIRECTORY 0 True sample) = Inl (Errno ENOTDIR)"
  by code_simp

text \<open>
  The budget bounds how deep links nest, not how many a path goes through: nine links in a row, each to
  the directory it is in.
\<close>

definition link_tree :: tree where
  "link_tree = [(1, MDir 1 [(bytes_of ''c'', 2), (bytes_of ''x'', 3)]), (2, MLnk DOT), (3, MReg [])]"

lemma nine_links_in_one_path:
  "isl (fst (walk_open mem_kernel 7 (bytes_of ''c/c/c/c/c/c/c/c/c/x'') 0 0 True (mem_world link_tree [] [(7, 1)]))) = False"
  by code_simp

end
