(* ===== verification/P1_Host.thy ===== *)
theory P1_Host
  imports Fs_Requests
begin

text \<open>
  What the system calls of \<^verbatim>\<open>wasi_preview1.erl\<close> are written in. A handler asks the world questions and
  goes on with the answers: requests to \<^verbatim>\<open>wasi_fs\<close>, reads and writes of the guest's memory, and a few
  questions to the host. A program of type \<open>'a host\<close> is such a conversation, ending in a value; what is
  proved of it for every answer (\<open>guarded\<close>) holds on every backend, every kernel and every guest.
\<close>

subsection \<open>Conversations\<close>

text \<open>
  The device behind a stream: none, a binary given as standard input, a process, an \<^verbatim>\<open>io\<close> device, a
  function of one argument, or \<^verbatim>\<open>{Mod, Fun}\<close>.
\<close>

datatype device = No_device | Bin_device bytes | Process nat | Io_device nat | Fun_device nat | Mod_fun nat

datatype path_kind = Directory | Regular | Absent

text \<open>
  \<open>Load\<close> and \<open>Store\<close> are \<^verbatim>\<open>wasm:read_memory\<close> and \<^verbatim>\<open>wasm:write_memory\<close>; \<open>Resolve\<close> is \<^verbatim>\<open>wasi_path:resolve/3\<close>,
  \<open>Classify\<close> is \<^verbatim>\<open>classify/1\<close>, \<open>Now\<close> the system time in nanoseconds. \<open>Output\<close> hands data to a device,
  \<open>Input\<close> calls the function of one: nothing is the end of the file. They answer whether they returned.
\<close>

datatype 'a host =
    Done 'a
  | Fs fs_req "fs_result \<Rightarrow> 'a host"
  | Load int int "bytes option \<Rightarrow> 'a host"
  | Store int bytes "bool \<Rightarrow> 'a host"
  | Resolve eterm bytes bool "nat + eterm \<Rightarrow> 'a host"
  | Classify eterm "path_kind \<Rightarrow> 'a host"
  | Now "nat \<Rightarrow> 'a host"
  | Output device bytes "bool \<Rightarrow> 'a host"
  | Input nat int "bytes option option \<Rightarrow> 'a host"

text \<open>The tuples of \<^verbatim>\<open>wasi_fs\<close>, for a \<^verbatim>\<open>case\<close>; what matches no pattern raises.\<close>

datatype reply_kind = Ok_unit | Ok_with eterm | Err nat | Eof | Odd

fun fs_reply :: "eterm \<Rightarrow> reply_kind" where
  "fs_reply (Atom a) = (if a = ''ok'' then Ok_unit else if a = ''eof'' then Eof else Odd)"
| "fs_reply (TTuple [Atom a, v]) =
     (if a = ''ok'' then Ok_with v
      else if a = ''error'' then (case v of TInt e \<Rightarrow> Err (nat e) | _ \<Rightarrow> Odd) else Odd)"
| "fs_reply t = Odd"

text \<open>The \<^verbatim>\<open>H\<close> of \<^verbatim>\<open>{native, H}\<close>.\<close>

fun native_of :: "eterm \<Rightarrow> nat option" where
  "native_of (TTuple [Atom a, TRes i]) = (if a = ''native'' then Some i else None)"
| "native_of t = None"

text \<open>
  \<open>guarded Q P p H\<close>: whatever is answered, the conversation asks \<^verbatim>\<open>wasi_fs\<close> only what \<open>Q\<close> allows and ends
  in a value that \<open>P\<close> allows. Both see \<open>H\<close>, the marks it has left so far: the handles that answers have
  opened and that requests have closed. All that is known of the answers is that memory gives as many
  bytes as were asked for and that the errors of \<^verbatim>\<open>wasi_fs\<close> are among its codes.
\<close>

datatype mark = Opened nat | Closed nat

fun got :: "reply_kind \<Rightarrow> mark set" where
  "got (Ok_with v) = Opened ` set_option (native_of v)"
| "got r = {}"

fun gone :: "fs_req \<Rightarrow> mark set" where
  "gone (Rq_close h) = {Closed h}"
| "gone (Rq_forget h) = {Closed h}"
| "gone rq = {}"

fun left_by :: "fs_req \<Rightarrow> fs_result \<Rightarrow> mark set" where
  "left_by rq (Ret t) = gone rq \<union> got (fs_reply t)"
| "left_by rq (Raise x) = {}"

text \<open>The errors of \<^verbatim>\<open>wasi_fs\<close> are WASI codes.\<close>

fun told :: "reply_kind \<Rightarrow> bool" where
  "told (Err n) = (n \<in> wasi_codes)"
| "told r = True"

fun honest :: "fs_result \<Rightarrow> bool" where
  "honest (Ret t) = told (fs_reply t)"
| "honest (Raise x) = True"

primrec guarded :: "(mark set \<Rightarrow> fs_req \<Rightarrow> bool) \<Rightarrow> (mark set \<Rightarrow> 'a \<Rightarrow> bool) \<Rightarrow> 'a host \<Rightarrow> mark set \<Rightarrow> bool" where
  "guarded Q P (Done x) H = P H x"
| "guarded Q P (Fs rq k) H = (Q H rq \<and> (\<forall>r. honest r \<longrightarrow> guarded Q P (k r) (H \<union> left_by rq r)))"
| "guarded Q P (Load a n k) H = (\<forall>b. (\<forall>bs. b = Some bs \<longrightarrow> int (length bs) = n) \<longrightarrow> guarded Q P (k b) H)"
| "guarded Q P (Store a bs k) H = (\<forall>b. guarded Q P (k b) H)"
| "guarded Q P (Resolve d p m k) H = (\<forall>r. guarded Q P (k r) H)"
| "guarded Q P (Classify d k) H = (\<forall>r. guarded Q P (k r) H)"
| "guarded Q P (Now k) H = (\<forall>t. guarded Q P (k t) H)"
| "guarded Q P (Output d bs k) H = (\<forall>b. guarded Q P (k b) H)"
| "guarded Q P (Input d n k) H = (\<forall>b. guarded Q P (k b) H)"

subsection \<open>Running one\<close>

text \<open>
  The host outside \<^verbatim>\<open>wasi_fs\<close>: answers that may depend on the state of the world. \<^verbatim>\<open>wasi_path:resolve\<close> may
  not return.
\<close>

record 'w env =
  resolves :: "'w \<Rightarrow> eterm \<Rightarrow> bytes \<Rightarrow> bool \<Rightarrow> (nat + eterm) option"
  classifies :: "'w \<Rightarrow> eterm \<Rightarrow> path_kind"
  clock :: "'w \<Rightarrow> nat"
  takes :: "'w \<Rightarrow> device \<Rightarrow> bytes \<Rightarrow> bool"
  gives :: "'w \<Rightarrow> nat \<Rightarrow> int \<Rightarrow> bytes option option"

text \<open>The state of an instance, as far as the system calls see it, and what they asked \<^verbatim>\<open>wasi_fs\<close> and were told.\<close>

record 'w machine =
  nif :: "'w nif"
  memory :: bytes
  asked :: "(fs_req \<times> fs_result) list"

definition load_bytes :: "bytes \<Rightarrow> int \<Rightarrow> int \<Rightarrow> bytes option" where
  "load_bytes m a n =
     (if 0 \<le> a \<and> 0 \<le> n \<and> a + n \<le> int (length m) then Some (take (nat n) (drop (nat a) m)) else None)"

definition store_bytes :: "bytes \<Rightarrow> int \<Rightarrow> bytes \<Rightarrow> bytes option" where
  "store_bytes m a bs =
     (if 0 \<le> a \<and> a + int (length bs) \<le> int (length m)
      then Some (take (nat a) m @ bs @ drop (nat a + length bs) m) else None)"

primrec perform :: "'w kernel \<Rightarrow> bool \<Rightarrow> 'w env \<Rightarrow> 'a host \<Rightarrow> 'w machine \<Rightarrow> ('a \<times> 'w machine) option" where
  "perform K dw E (Done x) M = Some (x, M)"
| "perform K dw E (Fs rq k) M =
     (case fs_request K dw rq (nif M) of
        None \<Rightarrow> None
      | Some (r, s) \<Rightarrow> perform K dw E (k r) (M\<lparr>nif := s, asked := asked M @ [(rq, r)]\<rparr>))"
| "perform K dw E (Load a n k) M = perform K dw E (k (load_bytes (memory M) a n)) M"
| "perform K dw E (Store a bs k) M =
     (case store_bytes (memory M) a bs of
        None \<Rightarrow> perform K dw E (k False) M
      | Some m \<Rightarrow> perform K dw E (k True) (M\<lparr>memory := m\<rparr>))"
| "perform K dw E (Resolve d p must k) M =
     (case resolves E (kern (nif M)) d p must of None \<Rightarrow> None | Some r \<Rightarrow> perform K dw E (k r) M)"
| "perform K dw E (Classify d k) M = perform K dw E (k (classifies E (kern (nif M)) d)) M"
| "perform K dw E (Now k) M = perform K dw E (k (clock E (kern (nif M)))) M"
| "perform K dw E (Output d bs k) M = perform K dw E (k (takes E (kern (nif M)) d bs)) M"
| "perform K dw E (Input d n k) M = perform K dw E (k (gives E (kern (nif M)) d n)) M"

text \<open>
  What is true for every answer is true of a run, with the marks it left; and a run is the
  run of its requests.
\<close>

fun admitted :: "(mark set \<Rightarrow> fs_req \<Rightarrow> bool) \<Rightarrow> mark set \<Rightarrow> (fs_req \<times> fs_result) list \<Rightarrow> bool" where
  "admitted Q H [] = True"
| "admitted Q H ((rq, r) # l) = (Q H rq \<and> admitted Q (H \<union> left_by rq r) l)"

definition marks :: "(fs_req \<times> fs_result) list \<Rightarrow> mark set" where
  "marks l = (\<Union>(rq, r) \<in> set l. left_by rq r)"

lemma marks_simps [simp]: "marks [] = {}" "marks ((rq, r) # l) = left_by rq r \<union> marks l"
  by (auto simp: marks_def)

lemma admitted_mono:
  "admitted Q H l \<Longrightarrow> (\<And>G rq. Q G rq \<Longrightarrow> Q' rq) \<Longrightarrow> \<forall>(rq, r) \<in> set l. Q' rq"
  by (induction Q H l rule: admitted.induct) auto

lemma rq_case_told: "(\<And>h. rq \<noteq> Rq_close h) \<Longrightarrow> rq_case rq t = Ret u \<Longrightarrow> told (fs_reply u)"
proof -
  have mapped: "told (fs_reply u)" if "mapped_error e = Ret u" for e u
    using that map_posix_code [of e] by (auto simp: error_code_def image_iff)
  have other: "told (fs_reply u)" if "other_case t = Ret u" for t u
    using that mapped by (cases t rule: other_case.cases) (auto split: if_splits eterm.splits)
  have unit: "told (fs_reply u)" if "unit_case t = Ret u" for t u
    using that mapped by (cases t rule: unit_case.cases) (auto split: if_splits)
  have valued: "told (fs_reply u)"
    if "value_case k t = Ret u" and "\<And>v u. k v = Ret u \<Longrightarrow> \<exists>w. u = mk_ok w" for k t u
    using that mapped by (cases "(k, t)" rule: value_case.cases) (fastforce simp: mk_ok_def split: if_splits)+
  have sized: "\<exists>w. u = mk_ok w" if "size_of v = Ret u" for v u
    using that by (auto simp: size_of_def split: eterm.splits option.splits)
  have listed: "\<exists>w. u = mk_ok w" if "without_dots v = Ret u" for v u
    using that by (auto simp: without_dots_def split: eterm.splits)
  have "55 \<in> wasi_codes" by (simp add: wasi_codes_def map_posix_table_def)
  then show "(\<And>h. rq \<noteq> Rq_close h) \<Longrightarrow> rq_case rq t = Ret u \<Longrightarrow> told (fs_reply u)"
    using valued other unit valued [OF _ sized] valued [OF _ listed]
    by (cases rq) (auto simp: error_code_def split: if_splits)
qed

lemma fs_request_honest: "fs_request K dw rq s = Some (r, s') \<Longrightarrow> honest r"
proof -
  assume "fs_request K dw rq s = Some (r, s')"
  then obtain q where q: "run_fun K (fst (rq_call dw rq)) (snd (rq_call dw rq)) s = Some (q, s')"
      "r = (case q of Term t \<Rightarrow> rq_case rq t | Badarg \<Rightarrow> Raise ''badarg'')"
    by (rule fs_requestE)
  show "honest r"
  proof (cases "\<exists>h. rq = Rq_close h")
    case True
    with q run_fun_shape [OF q(1)] show ?thesis by (auto split: nif_result.split)
  next
    case False
    show ?thesis
    proof (cases r)
      case (Ret u)
      with q(2) obtain t where "rq_case rq t = Ret u" by (cases q) auto
      with False rq_case_told [of rq t u] Ret show ?thesis by auto
    qed simp
  qed
qed

lemma perform_guarded:
  "perform K dw E p M = Some (x, M') \<Longrightarrow> guarded Q P p H \<Longrightarrow>
     \<exists>l. asked M' = asked M @ l \<and> admitted Q H l \<and> P (H \<union> marks l) x
       \<and> fs_run K dw (map (Inl \<circ> fst) l) (nif M) = Some (nif M')"
proof (induction p arbitrary: M H)
  case (Done y)
  then show ?case by auto
next
  case (Fs rq k)
  from Fs.prems(1) obtain r s where r: "fs_request K dw rq (nif M) = Some (r, s)"
    and go: "perform K dw E (k r) (M\<lparr>nif := s, asked := asked M @ [(rq, r)]\<rparr>) = Some (x, M')"
    by (auto split: option.splits)
  from Fs.prems(2) fs_request_honest [OF r] have q: "Q H rq" and "guarded Q P (k r) (H \<union> left_by rq r)" by simp_all
  from Fs.IH [OF rangeI go this(2)] obtain l where
      "asked M' = asked M @ (rq, r) # l" "admitted Q (H \<union> left_by rq r) l" "P (H \<union> left_by rq r \<union> marks l) x"
      "fs_run K dw (map (\<lambda>q. Inl (fst q)) l) s = Some (nif M')"
    by (auto simp: comp_def)
  with q r show ?case by (intro exI [of _ "(rq, r) # l"]) (simp add: Un_assoc comp_def)
next
  case (Load a n k)
  have "int (length bs) = n" if "load_bytes (memory M) a n = Some bs" for bs
    using that by (auto simp: load_bytes_def split: if_splits)
  with Load.prems show ?case by (intro Load.IH [OF rangeI]) auto
next
  case (Store a bs k)
  show ?case
  proof (cases "store_bytes (memory M) a bs")
    case None
    with Store.prems show ?thesis by (intro Store.IH [OF rangeI]) auto
  next
    case (Some m)
    with Store.prems Store.IH [OF rangeI, of True "M\<lparr>memory := m\<rparr>" H] show ?thesis by simp
  qed
next
  case (Resolve d q must k)
  from Resolve.prems(1) obtain r where "perform K dw E (k r) M = Some (x, M')" by (auto split: option.splits)
  with Resolve.prems(2) show ?case by (intro Resolve.IH [OF rangeI]) auto
next
  case (Classify d k)
  from Classify.prems show ?case by (intro Classify.IH [OF rangeI]) auto
next
  case (Now k)
  from Now.prems show ?case by (intro Now.IH [OF rangeI]) auto
next
  case (Output d bs k)
  from Output.prems show ?case by (intro Output.IH [OF rangeI]) auto
next
  case (Input d n k)
  from Input.prems show ?case by (intro Input.IH [OF rangeI]) auto
qed

text \<open>A conversation ends when the resolver does; no call lists a directory by names.\<close>

lemma fs_request_returns:
  assumes "\<And>h. rq \<noteq> Rq_list h"
  shows "\<exists>r s'. fs_request K dw rq s = Some (r, s')"
proof -
  have "fst (rq_call dw rq) \<noteq> Readdir_names" using assms by (cases rq) auto
  then obtain q s' where "run_fun K (fst (rq_call dw rq)) (snd (rq_call dw rq)) s = Some (q, s')"
    using run_fun_returns by blast
  then show ?thesis by (simp add: fs_request_one_call nif_case_def)
qed

lemma perform_returns:
  assumes "\<And>G rq. Q G rq \<Longrightarrow> \<forall>h. rq \<noteq> Rq_list h" and "\<And>w d p m. resolves E w d p m \<noteq> None"
  shows "guarded Q P p H \<Longrightarrow> \<exists>x M'. perform K dw E p M = Some (x, M')"
proof (induction p arbitrary: M H)
  case (Fs rq k)
  then obtain r s where r: "fs_request K dw rq (nif M) = Some (r, s)"
    using fs_request_returns [of rq K dw "nif M"] assms(1) by auto
  with Fs fs_request_honest [OF r] show ?case by auto
next
  case (Load a n k)
  have "guarded Q P (k (load_bytes (memory M) a n)) H" using Load.prems by (auto simp: load_bytes_def)
  with Load.IH show ?case by auto
next
  case (Store a bs k)
  then have "\<exists>x M'. perform K dw E (k b) M1 = Some (x, M')" for b M1 by (intro Store.IH [OF rangeI]) auto
  then show ?case by (auto split: option.split)
next
  case (Resolve d q must k)
  then have "\<exists>x M'. perform K dw E (k r) M = Some (x, M')" for r by (intro Resolve.IH [OF rangeI]) auto
  with assms(2) show ?case by (auto split: option.split)
next
  case (Now k)
  then show ?case by (auto intro!: Now.IH [OF rangeI])
next
  case (Classify d k)
  then show ?case by (auto intro!: Classify.IH [OF rangeI])
next
  case (Output d bs k)
  then show ?case by (auto intro!: Output.IH [OF rangeI])
next
  case (Input d n k)
  then show ?case by (auto intro!: Input.IH [OF rangeI])
qed simp

end
