(* ===== verification/P1_Table.thy ===== *)
theory P1_Table
  imports P1_Host
begin

text \<open>
  The descriptor table of \<^verbatim>\<open>wasi_preview1.erl\<close> and the helpers its system calls share: lookups under a
  right, the guest's paths and vectors in memory, closing what an entry holds. Tables here have no
  sockets, as under the default grant \<^verbatim>\<open>net => none\<close>.

  Integers are Erlang's: the rights and flags are masked as they come from the guest, and pointers and
  lengths that arrive negative are read unsigned (\<open>to_u32\<close>).
\<close>

subsection \<open>Constants of wasi.hrl\<close>

abbreviation (input) ESUCCESS :: nat where "ESUCCESS \<equiv> 0"
abbreviation (input) EBADF :: nat where "EBADF \<equiv> 8"
abbreviation (input) EFAULT :: nat where "EFAULT \<equiv> 21"
abbreviation (input) EINVAL :: nat where "EINVAL \<equiv> 28"
abbreviation (input) EIO :: nat where "EIO \<equiv> 29"
abbreviation (input) EISDIR :: nat where "EISDIR \<equiv> 31"
abbreviation (input) ELOOP :: nat where "ELOOP \<equiv> 32"
abbreviation (input) ENAMETOOLONG :: nat where "ENAMETOOLONG \<equiv> 37"
abbreviation (input) ENOENT :: nat where "ENOENT \<equiv> 44"
abbreviation (input) ENOMEM :: nat where "ENOMEM \<equiv> 48"
abbreviation (input) ENOTDIR :: nat where "ENOTDIR \<equiv> 54"
abbreviation (input) ENOTSUP :: nat where "ENOTSUP \<equiv> 58"
abbreviation (input) ESPIPE :: nat where "ESPIPE \<equiv> 70"
abbreviation (input) ENOTCAPABLE :: nat where "ENOTCAPABLE \<equiv> 76"

text \<open>The rights that the system calls of this development test.\<close>

definition FD_DATASYNC :: int where "FD_DATASYNC = 0x1"
definition FD_READ :: int where "FD_READ = 0x2"
definition FD_SEEK :: int where "FD_SEEK = 0x4"
definition FD_FDSTAT_SET_FLAGS :: int where "FD_FDSTAT_SET_FLAGS = 0x8"
definition FD_SYNC :: int where "FD_SYNC = 0x10"
definition FD_TELL :: int where "FD_TELL = 0x20"
definition FD_WRITE :: int where "FD_WRITE = 0x40"
definition FD_ADVISE :: int where "FD_ADVISE = 0x80"
definition FD_ALLOCATE :: int where "FD_ALLOCATE = 0x100"
definition PATH_CREATE_DIRECTORY :: int where "PATH_CREATE_DIRECTORY = 0x200"
definition PATH_CREATE_FILE :: int where "PATH_CREATE_FILE = 0x400"
definition PATH_LINK_SOURCE :: int where "PATH_LINK_SOURCE = 0x800"
definition PATH_LINK_TARGET :: int where "PATH_LINK_TARGET = 0x1000"
definition PATH_OPEN :: int where "PATH_OPEN = 0x2000"
definition FD_READDIR :: int where "FD_READDIR = 0x4000"
definition PATH_READLINK :: int where "PATH_READLINK = 0x8000"
definition PATH_RENAME_SOURCE :: int where "PATH_RENAME_SOURCE = 0x10000"
definition PATH_RENAME_TARGET :: int where "PATH_RENAME_TARGET = 0x20000"
definition PATH_FILESTAT_GET :: int where "PATH_FILESTAT_GET = 0x40000"
definition PATH_FILESTAT_SET_SIZE :: int where "PATH_FILESTAT_SET_SIZE = 0x80000"
definition PATH_FILESTAT_SET_TIMES :: int where "PATH_FILESTAT_SET_TIMES = 0x100000"
definition FD_FILESTAT_GET :: int where "FD_FILESTAT_GET = 0x200000"
definition FD_FILESTAT_SET_SIZE :: int where "FD_FILESTAT_SET_SIZE = 0x400000"
definition FD_FILESTAT_SET_TIMES :: int where "FD_FILESTAT_SET_TIMES = 0x800000"
definition PATH_SYMLINK :: int where "PATH_SYMLINK = 0x1000000"
definition PATH_REMOVE_DIRECTORY :: int where "PATH_REMOVE_DIRECTORY = 0x2000000"
definition PATH_UNLINK_FILE :: int where "PATH_UNLINK_FILE = 0x4000000"
definition POLL_FD_READWRITE :: int where "POLL_FD_READWRITE = 0x8000000"

lemmas right_defs = FD_DATASYNC_def FD_READ_def FD_SEEK_def FD_FDSTAT_SET_FLAGS_def FD_SYNC_def FD_TELL_def
  FD_WRITE_def FD_ADVISE_def FD_ALLOCATE_def PATH_CREATE_DIRECTORY_def PATH_CREATE_FILE_def PATH_LINK_SOURCE_def
  PATH_LINK_TARGET_def PATH_OPEN_def FD_READDIR_def PATH_READLINK_def PATH_RENAME_SOURCE_def
  PATH_RENAME_TARGET_def PATH_FILESTAT_GET_def PATH_FILESTAT_SET_SIZE_def PATH_FILESTAT_SET_TIMES_def
  FD_FILESTAT_GET_def FD_FILESTAT_SET_SIZE_def FD_FILESTAT_SET_TIMES_def PATH_SYMLINK_def
  PATH_REMOVE_DIRECTORY_def PATH_UNLINK_FILE_def POLL_FD_READWRITE_def

definition RIGHTS_DIR_READ :: int where
  "RIGHTS_DIR_READ = PATH_OPEN OR FD_READDIR OR PATH_FILESTAT_GET OR FD_FILESTAT_GET OR PATH_READLINK
     OR PATH_LINK_SOURCE"

definition RIGHTS_DIR_WRITE :: int where
  "RIGHTS_DIR_WRITE = RIGHTS_DIR_READ OR PATH_CREATE_FILE OR PATH_CREATE_DIRECTORY OR PATH_UNLINK_FILE
     OR PATH_REMOVE_DIRECTORY OR PATH_LINK_TARGET OR PATH_RENAME_SOURCE OR PATH_RENAME_TARGET OR PATH_SYMLINK
     OR PATH_FILESTAT_SET_SIZE OR PATH_FILESTAT_SET_TIMES OR FD_FILESTAT_SET_TIMES"

definition RIGHTS_FILE_READ :: int where
  "RIGHTS_FILE_READ = FD_READ OR FD_SEEK OR FD_TELL OR FD_FILESTAT_GET OR FD_ADVISE OR POLL_FD_READWRITE
     OR FD_FDSTAT_SET_FLAGS"

definition RIGHTS_FILE_WRITE :: int where
  "RIGHTS_FILE_WRITE = RIGHTS_FILE_READ OR FD_WRITE OR FD_ALLOCATE OR FD_DATASYNC OR FD_SYNC
     OR FD_FILESTAT_SET_SIZE OR FD_FILESTAT_SET_TIMES"

abbreviation (input) OFLAGS_CREAT :: int where "OFLAGS_CREAT \<equiv> 0x1"
abbreviation (input) OFLAGS_DIRECTORY :: int where "OFLAGS_DIRECTORY \<equiv> 0x2"
abbreviation (input) OFLAGS_EXCL :: int where "OFLAGS_EXCL \<equiv> 0x4"
abbreviation (input) OFLAGS_TRUNC :: int where "OFLAGS_TRUNC \<equiv> 0x8"
abbreviation (input) FDFLAGS_APPEND :: int where "FDFLAGS_APPEND \<equiv> 0x1"
abbreviation (input) SYNCFLAGS :: int where "SYNCFLAGS \<equiv> 0x1A"
abbreviation (input) SYMLINK_FOLLOW :: int where "SYMLINK_FOLLOW \<equiv> 0x1"

definition wants :: "int \<Rightarrow> int \<Rightarrow> bool" where
  "wants flags f \<longleftrightarrow> flags AND f \<noteq> 0"

subsection \<open>The table\<close>

text \<open>
  \<^verbatim>\<open>#wasi_fd{}\<close> without \<^verbatim>\<open>buffer\<close> and \<^verbatim>\<open>nonblock\<close>, which only sockets use. \<^verbatim>\<open>root\<close> and \<^verbatim>\<open>handle\<close> are the handle
  of a \<^verbatim>\<open>{native, H}\<close>; a host path is the term that is handed to \<^verbatim>\<open>wasi_fs\<close>.
\<close>

datatype fd_type = Stdio | Dir | File

record wasi_fd =
  e_type :: fd_type
  e_filetype :: nat
  e_rights :: int
  e_inheriting :: int
  e_device :: device
  e_host_path :: "eterm option"
  e_root :: "nat option"
  e_guest_path :: "bytes option"
  e_handle :: "nat option"
  e_offset :: int
  e_append :: bool
  e_syncflags :: int
  e_preopen :: bool

text \<open>\<^verbatim>\<open>#{fds := ..., next := ..., baseline := ...}\<close>; the baseline is a sorted list of numbers, here their set.\<close>

record fd_table =
  fds :: "int \<rightharpoonup> wasi_fd"
  next_fd :: int
  baseline :: "int set"

definition fd_lookup :: "fd_table \<Rightarrow> int \<Rightarrow> wasi_fd option" where
  "fd_lookup t fd = fds t fd"

definition fd_put :: "fd_table \<Rightarrow> int \<Rightarrow> wasi_fd \<Rightarrow> fd_table" where
  "fd_put t fd e = t\<lparr>fds := (fds t)(fd \<mapsto> e)\<rparr>"

definition fd_add :: "fd_table \<Rightarrow> wasi_fd \<Rightarrow> int \<times> fd_table" where
  "fd_add t e = (next_fd t, t\<lparr>fds := (fds t)(next_fd t \<mapsto> e), next_fd := next_fd t + 1\<rparr>)"

definition fd_remove :: "fd_table \<Rightarrow> int \<Rightarrow> fd_table" where
  "fd_remove t fd = t\<lparr>fds := (fds t)(fd := None)\<rparr>"

definition fd_set_offset :: "fd_table \<Rightarrow> int \<Rightarrow> int \<Rightarrow> fd_table" where
  "fd_set_offset t fd off =
     (case fds t fd of Some e \<Rightarrow> t\<lparr>fds := (fds t)(fd \<mapsto> e\<lparr>e_offset := off\<rparr>)\<rparr> | None \<Rightarrow> t)"

definition fd_bump_offset :: "fd_table \<Rightarrow> int \<Rightarrow> int \<Rightarrow> fd_table" where
  "fd_bump_offset t fd n =
     (case fds t fd of Some e \<Rightarrow> t\<lparr>fds := (fds t)(fd \<mapsto> e\<lparr>e_offset := e_offset e + n\<rparr>)\<rparr> | None \<Rightarrow> t)"

subsection \<open>How a system call ends\<close>

text \<open>\<^verbatim>\<open>{errno, E}\<close>, \<^verbatim>\<open>{errno, E, St}\<close>, or an exception.\<close>

datatype outcome = Answer nat | Saved nat fd_table | Raised

type_synonym call_prog = "outcome host"

definition ask :: "fs_req \<Rightarrow> (reply_kind \<Rightarrow> call_prog) \<Rightarrow> call_prog" where
  "ask rq k = Fs rq (\<lambda>r. case r of Ret t \<Rightarrow> k (fs_reply t) | Raise x \<Rightarrow> Done Raised)"

definition fs_errno :: "reply_kind \<Rightarrow> call_prog" where
  "fs_errno r = (case r of Ok_unit \<Rightarrow> Done (Answer ESUCCESS) | Err e \<Rightarrow> Done (Answer e) | _ \<Rightarrow> Done Raised)"

text \<open>A function of \<^verbatim>\<open>wasi_fs\<close> on a handle or root that may be undefined.\<close>

definition on_handle :: "nat option \<Rightarrow> (nat \<Rightarrow> call_prog) \<Rightarrow> call_prog" where
  "on_handle h k = (case h of None \<Rightarrow> Done Raised | Some i \<Rightarrow> k i)"

definition with_fd :: "fd_table \<Rightarrow> int \<Rightarrow> int \<Rightarrow> (wasi_fd \<Rightarrow> call_prog) \<Rightarrow> call_prog" where
  "with_fd t fd right k =
     (case fd_lookup t fd of
        None \<Rightarrow> Done (Answer EBADF)
      | Some e \<Rightarrow> if e_rights e AND right \<noteq> 0 then k e else Done (Answer ENOTCAPABLE))"

definition with_dir :: "fd_table \<Rightarrow> int \<Rightarrow> (wasi_fd \<Rightarrow> call_prog) \<Rightarrow> call_prog" where
  "with_dir t fd k =
     (case fd_lookup t fd of
        None \<Rightarrow> Done (Answer EBADF)
      | Some e \<Rightarrow> if e_type e = Dir then k e else Done (Answer ENOTDIR))"

subsection \<open>The guest's memory\<close>

definition to_u32 :: "int \<Rightarrow> int" where
  "to_u32 v = (if v < 0 then v + 0x100000000 else v)"

definition to_u64 :: "int \<Rightarrow> int" where
  "to_u64 v = (if v < 0 then v + 0x10000000000000000 else v)"

definition u16 :: "int \<Rightarrow> bytes" where "u16 v = put_le 2 (word_of_int v :: 64 word)"
definition u32 :: "int \<Rightarrow> bytes" where "u32 v = put_le 4 (word_of_int v :: 64 word)"
definition u64 :: "int \<Rightarrow> bytes" where "u64 v = put_le 8 (word_of_int v :: 64 word)"

definition write_mem :: "int \<Rightarrow> bytes \<Rightarrow> (nat \<Rightarrow> 'a host) \<Rightarrow> 'a host" where
  "write_mem ptr bs k = Store (to_u32 ptr) bs (\<lambda>fits. k (if fits then ESUCCESS else EFAULT))"

abbreviation write_u32 :: "int \<Rightarrow> int \<Rightarrow> (nat \<Rightarrow> 'a host) \<Rightarrow> 'a host" where
  "write_u32 ptr v \<equiv> write_mem ptr (u32 v)"

abbreviation write_u64 :: "int \<Rightarrow> int \<Rightarrow> (nat \<Rightarrow> 'a host) \<Rightarrow> 'a host" where
  "write_u64 ptr v \<equiv> write_mem ptr (u64 v)"

text \<open>\<^verbatim>\<open>{errno, ?ESUCCESS} -> {errno, ?ESUCCESS, St1}; Other -> Other\<close>.\<close>

definition save_if :: "fd_table \<Rightarrow> nat \<Rightarrow> call_prog" where
  "save_if t e = Done (if e = ESUCCESS then Saved ESUCCESS t else Answer e)"

definition read_path :: "int \<Rightarrow> int \<Rightarrow> (bytes \<Rightarrow> call_prog) \<Rightarrow> call_prog" where
  "read_path ptr len k =
     (if to_u32 len > 4096 then Done (Answer ENAMETOOLONG)
      else Load (to_u32 ptr) (to_u32 len) (\<lambda>b.
        case b of
          None \<Rightarrow> Done (Answer EFAULT)
        | Some bs \<Rightarrow> if 0 \<in> set bs then Done (Answer EINVAL) else k bs))"

text \<open>\<^verbatim>\<open>{P, L} || <<P:32/little, L:32/little>> <= Bin\<close>.\<close>

definition int_le :: "bytes \<Rightarrow> int" where
  "int_le bs = uint (get_le bs :: 64 word)"

fun pairs_u32 :: "bytes \<Rightarrow> (int \<times> int) list" where
  "pairs_u32 (a # b # c # d # e # f # g # h # rest) =
     (int_le [a, b, c, d], int_le [e, f, g, h]) # pairs_u32 rest"
| "pairs_u32 bs = []"

definition iovec_specs :: "int \<Rightarrow> int \<Rightarrow> ((int \<times> int) list \<Rightarrow> call_prog) \<Rightarrow> call_prog" where
  "iovec_specs ptr n k =
     (if to_u32 n > 1024 then Done (Answer EINVAL)
      else Load (to_u32 ptr) (to_u32 n * 8) (\<lambda>b.
        case b of None \<Rightarrow> Done (Answer EFAULT) | Some bs \<Rightarrow> k (pairs_u32 bs)))"

fun gather :: "(int \<times> int) list \<Rightarrow> bytes \<Rightarrow> (bytes \<Rightarrow> call_prog) \<Rightarrow> call_prog" where
  "gather [] acc k = k acc"
| "gather ((p, l) # specs) acc k =
     Load p l (\<lambda>b. gather specs (acc @ (case b of Some bs \<Rightarrow> bs | None \<Rightarrow> [])) k)"

definition read_iovecs :: "int \<Rightarrow> int \<Rightarrow> (bytes \<Rightarrow> call_prog) \<Rightarrow> call_prog" where
  "read_iovecs ptr len k = iovec_specs ptr len (\<lambda>specs. gather specs [] k)"

fun scatter :: "(int \<times> int) list \<Rightarrow> bytes \<Rightarrow> call_prog \<Rightarrow> call_prog" where
  "scatter [] bs k = k"
| "scatter ((p, l) # specs) bs k =
     (if bs = [] then k
      else Store p (take (nat l) bs) (\<lambda>_. scatter specs (drop (nat l) bs) k))"

definition total :: "(int \<times> int) list \<Rightarrow> int" where
  "total specs = sum_list (map snd specs)"

subsection \<open>Closing\<close>

definition close_entry :: "wasi_fd \<Rightarrow> call_prog \<Rightarrow> call_prog" where
  "close_entry e k =
     (case e_type e of
        File \<Rightarrow> (case e_handle e of Some h \<Rightarrow> ask (Rq_close h) (\<lambda>_. k) | None \<Rightarrow> k)
      | Dir \<Rightarrow> (case e_root e of Some r \<Rightarrow> ask (Rq_forget r) (\<lambda>_. k) | None \<Rightarrow> k)
      | Stdio \<Rightarrow> k)"

text \<open>\<^verbatim>\<open>close_all/1\<close>, over the entries in the order of \<^verbatim>\<open>maps:values\<close>.\<close>

fun close_entries :: "wasi_fd list \<Rightarrow> call_prog \<Rightarrow> call_prog" where
  "close_entries [] k = k"
| "close_entries (e # es) k = close_entry e (close_entries es k)"

definition close_all :: "int list \<Rightarrow> fd_table \<Rightarrow> call_prog" where
  "close_all order t =
     close_entries (List.map_filter (fds t) order) (Done (Saved ESUCCESS (t\<lparr>fds := Map.empty\<rparr>)))"

text \<open>The descriptor is handed to the guest, or given up again.\<close>

definition emit_fd :: "int \<Rightarrow> int \<Rightarrow> fd_table \<Rightarrow> call_prog" where
  "emit_fd ptr fd t =
     write_u32 ptr fd (\<lambda>e.
       if e = ESUCCESS then Done (Saved ESUCCESS t)
       else (case fds t fd of
               Some en \<Rightarrow> close_entry en (Done (Saved e (fd_remove t fd)))
             | None \<Rightarrow> Done (Saved e (fd_remove t fd))))"

subsection \<open>The first table\<close>

definition new_fd :: "fd_type \<Rightarrow> nat \<Rightarrow> wasi_fd" where
  "new_fd ty ft = \<lparr>e_type = ty, e_filetype = ft, e_rights = 0, e_inheriting = 0, e_device = No_device,
     e_host_path = None, e_root = None, e_guest_path = None, e_handle = None, e_offset = 0,
     e_append = False, e_syncflags = 0, e_preopen = False\<rparr>"

definition stdio_entry :: "device \<Rightarrow> int \<Rightarrow> wasi_fd" where
  "stdio_entry dev right =
     (new_fd Stdio 2)\<lparr>e_rights := (if dev = No_device then 0 else right), e_device := dev\<rparr>"

text \<open>
  Each directory of the configuration is its guest path, its host path and whether it may be written. One
  that cannot be opened leaves its number out.
\<close>

fun preopen_rights :: "bool \<Rightarrow> int \<times> int" where
  "preopen_rights True = (RIGHTS_DIR_WRITE, RIGHTS_DIR_WRITE OR RIGHTS_FILE_WRITE)"
| "preopen_rights False = (RIGHTS_DIR_READ, RIGHTS_DIR_READ OR RIGHTS_FILE_READ)"

fun preopen_entries :: "(bytes \<times> eterm \<times> bool) list \<Rightarrow> (int \<times> wasi_fd) list \<Rightarrow> int
    \<Rightarrow> ((int \<times> wasi_fd) list \<Rightarrow> int \<Rightarrow> call_prog) \<Rightarrow> call_prog" where
  "preopen_entries [] acc fd k = k acc fd"
| "preopen_entries ((guest, host, writable) # dirs) acc fd k =
     ask (Rq_preopen host) (\<lambda>r.
       case r of
         Err _ \<Rightarrow> preopen_entries dirs acc (fd + 1) k
       | Ok_with v \<Rightarrow>
           on_handle (native_of v) (\<lambda>root.
             preopen_entries dirs
               ((fd, (new_fd Dir 3)\<lparr>e_rights := fst (preopen_rights writable),
                  e_inheriting := snd (preopen_rights writable), e_host_path := Some host,
                  e_root := Some root, e_guest_path := Some guest, e_preopen := True\<rparr>) # acc)
               (fd + 1) k)
       | _ \<Rightarrow> Done Raised)"

record p1_config =
  stdin :: device
  stdout :: device
  stderr :: device
  dirs :: "(bytes \<times> eterm \<times> bool) list"
  readdir_batch_bytes :: int

definition initial_state :: "p1_config \<Rightarrow> call_prog" where
  "initial_state C =
     preopen_entries (dirs C) [] 3 (\<lambda>preopens nxt.
       let all = [(0, stdio_entry (stdin C) FD_READ), (1, stdio_entry (stdout C) FD_WRITE),
                  (2, stdio_entry (stderr C) FD_WRITE)] @ preopens
       in Done (Saved ESUCCESS \<lparr>fds = map_of all, next_fd = nxt, baseline = fst ` set all\<rparr>))"

text \<open>What the snapshot hook asks of a table.\<close>

definition eligible :: "fd_table \<Rightarrow> bool" where
  "eligible t \<longleftrightarrow> dom (fds t) = baseline t"

end
