(* ===== verification/P1_Files.thy ===== *)
theory P1_Files
  imports P1_Table
begin

text \<open>
  The \<^verbatim>\<open>fd_*\<close> system calls of \<^verbatim>\<open>wasi_preview1.erl\<close>: what a guest does with a descriptor it has. One
  definition per clause of \<^verbatim>\<open>handle/5\<close>, with its table as the last argument.
\<close>

subsection \<open>Closing, moving and asking about descriptors\<close>

definition p1_fd_close :: "int \<Rightarrow> fd_table \<Rightarrow> call_prog" where
  "p1_fd_close fd t =
     (case fd_lookup t fd of
        None \<Rightarrow> Done (Answer EBADF)
      | Some e \<Rightarrow>
          if e_type e = File then on_handle (e_handle e) (\<lambda>h. ask (Rq_close h) (\<lambda>_. Done (Saved ESUCCESS (fd_remove t fd))))
          else Done (Saved ESUCCESS (fd_remove t fd)))"

definition p1_fd_renumber :: "int \<Rightarrow> int \<Rightarrow> fd_table \<Rightarrow> call_prog" where
  "p1_fd_renumber src dst t =
     (case fd_lookup t src of
        None \<Rightarrow> Done (Answer EBADF)
      | Some e \<Rightarrow>
          if e_preopen e then Done (Answer ENOTSUP)
          else (case fd_lookup t dst of
                  None \<Rightarrow> Done (Answer EBADF)
                | Some old \<Rightarrow>
                    close_entry old (Done (Saved ESUCCESS (fd_remove (fd_put t dst e) src)))))"

definition fdflags :: "wasi_fd \<Rightarrow> int" where
  "fdflags e = (if e_append e then FDFLAGS_APPEND else 0) OR e_syncflags e"

definition p1_fd_fdstat_get :: "int \<Rightarrow> int \<Rightarrow> fd_table \<Rightarrow> call_prog" where
  "p1_fd_fdstat_get fd out t =
     (case fd_lookup t fd of
        None \<Rightarrow> Done (Answer EBADF)
      | Some e \<Rightarrow>
          write_mem out ([of_nat (e_filetype e), 0] @ u16 (fdflags e) @ u32 0 @ u64 (e_rights e) @ u64 (e_inheriting e))
            (\<lambda>r. Done (Answer r)))"

definition p1_fd_fdstat_set_rights :: "int \<Rightarrow> int \<Rightarrow> int \<Rightarrow> fd_table \<Rightarrow> call_prog" where
  "p1_fd_fdstat_set_rights fd rights inheriting t =
     (case fd_lookup t fd of
        None \<Rightarrow> Done (Answer EBADF)
      | Some e \<Rightarrow>
          if rights AND NOT (e_rights e) \<noteq> 0 \<or> inheriting AND NOT (e_inheriting e) \<noteq> 0 then Done (Answer ENOTCAPABLE)
          else Done (Saved ESUCCESS (fd_put t fd (e\<lparr>e_rights := rights, e_inheriting := inheriting\<rparr>))))"

definition p1_fd_fdstat_set_flags :: "int \<Rightarrow> int \<Rightarrow> fd_table \<Rightarrow> call_prog" where
  "p1_fd_fdstat_set_flags fd flags t =
     (case fd_lookup t fd of
        None \<Rightarrow> Done (Answer EBADF)
      | Some e \<Rightarrow>
          Done (Saved ESUCCESS
            (fd_put t fd (e\<lparr>e_append := wants flags FDFLAGS_APPEND, e_syncflags := flags AND SYNCFLAGS\<rparr>))))"

definition p1_fd_prestat_get :: "int \<Rightarrow> int \<Rightarrow> fd_table \<Rightarrow> call_prog" where
  "p1_fd_prestat_get fd out t =
     (case fd_lookup t fd of
        Some e \<Rightarrow>
          (if e_preopen e then
             (case e_guest_path e of
                Some g \<Rightarrow> write_mem out ([0, 0, 0, 0] @ u32 (int (length g))) (\<lambda>r. Done (Answer r))
              | None \<Rightarrow> Done Raised)
           else Done (Answer EBADF))
      | None \<Rightarrow> Done (Answer EBADF))"

definition p1_fd_prestat_dir_name :: "int \<Rightarrow> int \<Rightarrow> int \<Rightarrow> fd_table \<Rightarrow> call_prog" where
  "p1_fd_prestat_dir_name fd ptr len t =
     (case fd_lookup t fd of
        Some e \<Rightarrow>
          (if e_preopen e then
             (case e_guest_path e of
                Some g \<Rightarrow>
                  (if int (length g) \<le> len then write_mem ptr g (\<lambda>r. Done (Answer r)) else Done (Answer ENAMETOOLONG))
              | None \<Rightarrow> Done (Answer ENAMETOOLONG))
           else Done (Answer EBADF))
      | None \<Rightarrow> Done (Answer EBADF))"

definition p1_fd_sync :: "int \<Rightarrow> fd_table \<Rightarrow> call_prog" where
  "p1_fd_sync fd t = Done (Answer ESUCCESS)"

definition p1_fd_advise :: "int \<Rightarrow> fd_table \<Rightarrow> call_prog" where
  "p1_fd_advise fd t = Done (Answer ESUCCESS)"

subsection \<open>Offsets\<close>

text \<open>A size that cannot be had counts as zero; an exception goes on.\<close>

definition file_size :: "nat option \<Rightarrow> (int \<Rightarrow> call_prog) \<Rightarrow> call_prog" where
  "file_size h k =
     on_handle h (\<lambda>i. ask (Rq_size i) (\<lambda>r. case r of Ok_with (TInt n) \<Rightarrow> k n | Ok_with _ \<Rightarrow> Done Raised | _ \<Rightarrow> k 0))"

definition p1_fd_seek :: "int \<Rightarrow> int \<Rightarrow> int \<Rightarrow> int \<Rightarrow> fd_table \<Rightarrow> call_prog" where
  "p1_fd_seek fd offset whence out t =
     with_fd t fd FD_SEEK (\<lambda>e.
       if e_type e \<noteq> File then Done (Answer ESPIPE)
       else
         (let go = (\<lambda>from.
            if from + offset < 0 then Done (Answer EINVAL)
            else write_u64 out (from + offset) (save_if (fd_set_offset t fd (from + offset))))
          in if whence = 0 then go 0
             else if whence = 1 then go (e_offset e)
             else if whence = 2 then file_size (e_handle e) go
             else Done (Answer EINVAL)))"

definition p1_fd_tell :: "int \<Rightarrow> int \<Rightarrow> fd_table \<Rightarrow> call_prog" where
  "p1_fd_tell fd out t =
     with_fd t fd FD_TELL (\<lambda>e.
       if e_type e \<noteq> File then Done (Answer ESPIPE) else write_u64 out (e_offset e) (\<lambda>r. Done (Answer r)))"

subsection \<open>Reading\<close>

text \<open>Standard input: a binary is consumed by the offset, a function is called.\<close>

definition stdin_read :: "device \<Rightarrow> int \<Rightarrow> int \<Rightarrow> (bytes option \<Rightarrow> call_prog) \<Rightarrow> call_prog" where
  "stdin_read dev off want k =
     (case dev of
        Bin_device bs \<Rightarrow>
          (if off \<ge> int (length bs) then k None
           else k (Some (take (nat (min want (int (length bs) - off))) (drop (nat off) bs))))
      | Fun_device f \<Rightarrow> Input f want (\<lambda>r. case r of None \<Rightarrow> Done Raised | Some d \<Rightarrow> k d)
      | _ \<Rightarrow> k None)"

definition read_done :: "(int \<times> int) list \<Rightarrow> bytes \<Rightarrow> int \<Rightarrow> fd_table \<Rightarrow> call_prog" where
  "read_done specs bs out t = scatter specs bs (write_u32 out (int (length bs)) (save_if t))"

definition do_read :: "wasi_fd \<Rightarrow> (int \<times> int) list \<Rightarrow> int \<Rightarrow> int \<Rightarrow> fd_table \<Rightarrow> call_prog" where
  "do_read e specs out fd t =
     (case e_type e of
        File \<Rightarrow>
          on_handle (e_handle e) (\<lambda>h. ask (Rq_pread h (e_offset e) (total specs)) (\<lambda>r.
            case r of
              Eof \<Rightarrow> write_u32 out 0 (\<lambda>c. Done (Answer c))
            | Ok_with (TBin bs) \<Rightarrow> read_done specs bs out (fd_bump_offset t fd (int (length bs)))
            | Err n \<Rightarrow> Done (Answer n)
            | _ \<Rightarrow> Done Raised))
      | Stdio \<Rightarrow>
          (if e_device e = No_device then write_u32 out 0 (\<lambda>c. Done (Answer c))
           else stdin_read (e_device e) (e_offset e) (total specs) (\<lambda>r.
             case r of
               None \<Rightarrow> write_u32 out 0 (\<lambda>c. Done (Answer c))
             | Some bs \<Rightarrow> read_done specs bs out (fd_bump_offset t fd (int (length bs)))))
      | Dir \<Rightarrow> Done (Answer EBADF))"

definition p1_fd_read :: "int \<Rightarrow> int \<Rightarrow> int \<Rightarrow> int \<Rightarrow> fd_table \<Rightarrow> call_prog" where
  "p1_fd_read fd iovs n out t =
     with_fd t fd FD_READ (\<lambda>e. iovec_specs iovs n (\<lambda>specs. do_read e specs out fd t))"

definition p1_fd_pread :: "int \<Rightarrow> int \<Rightarrow> int \<Rightarrow> int \<Rightarrow> int \<Rightarrow> fd_table \<Rightarrow> call_prog" where
  "p1_fd_pread fd iovs n offset out t =
     with_fd t fd FD_READ (\<lambda>e.
       if e_type e \<noteq> File then Done (Answer ESPIPE)
       else iovec_specs iovs n (\<lambda>specs.
         on_handle (e_handle e) (\<lambda>h. ask (Rq_pread h offset (total specs)) (\<lambda>r.
           case r of
             Eof \<Rightarrow> write_u32 out 0 (\<lambda>c. Done (Answer c))
           | Ok_with (TBin bs) \<Rightarrow> scatter specs bs (write_u32 out (int (length bs)) (\<lambda>c. Done (Answer c)))
           | Err c \<Rightarrow> Done (Answer c)
           | _ \<Rightarrow> Done Raised))))"

subsection \<open>Writing\<close>

text \<open>A process is sent a message; anything that is no device swallows the data.\<close>

definition write_stdio :: "device \<Rightarrow> bytes \<Rightarrow> call_prog \<Rightarrow> call_prog" where
  "write_stdio dev bs k =
     (case dev of
        Bin_device _ \<Rightarrow> k
      | _ \<Rightarrow> Output dev bs (\<lambda>returned. if returned then k else Done Raised))"

definition do_write :: "wasi_fd \<Rightarrow> bytes \<Rightarrow> int \<Rightarrow> int \<Rightarrow> fd_table \<Rightarrow> call_prog" where
  "do_write e bs out fd t =
     (case e_type e of
        Stdio \<Rightarrow> write_stdio (e_device e) bs (write_u32 out (int (length bs)) (\<lambda>c. Done (Answer c)))
      | File \<Rightarrow>
          (let go = (\<lambda>at. on_handle (e_handle e) (\<lambda>h. ask (Rq_pwrite h at bs) (\<lambda>r.
             case r of
               Ok_with (TInt n) \<Rightarrow> write_u32 out n (save_if (fd_set_offset t fd (at + n)))
             | Err c \<Rightarrow> Done (Answer c)
             | _ \<Rightarrow> Done Raised)))
           in if e_append e then file_size (e_handle e) go else go (e_offset e))
      | Dir \<Rightarrow> Done (Answer EBADF))"

definition p1_fd_write :: "int \<Rightarrow> int \<Rightarrow> int \<Rightarrow> int \<Rightarrow> fd_table \<Rightarrow> call_prog" where
  "p1_fd_write fd iovs n out t =
     with_fd t fd FD_WRITE (\<lambda>e. read_iovecs iovs n (\<lambda>bs. do_write e bs out fd t))"

definition p1_fd_pwrite :: "int \<Rightarrow> int \<Rightarrow> int \<Rightarrow> int \<Rightarrow> int \<Rightarrow> fd_table \<Rightarrow> call_prog" where
  "p1_fd_pwrite fd iovs n offset out t =
     with_fd t fd FD_WRITE (\<lambda>e.
       if e_type e \<noteq> File then Done (Answer ESPIPE)
       else read_iovecs iovs n (\<lambda>bs.
         on_handle (e_handle e) (\<lambda>h. ask (Rq_pwrite h offset bs) (\<lambda>r.
           case r of
             Ok_with (TInt m) \<Rightarrow> write_u32 out m (\<lambda>c. Done (Answer c))
           | Err c \<Rightarrow> Done (Answer c)
           | _ \<Rightarrow> Done Raised))))"

subsection \<open>Sizes and stats\<close>

definition p1_fd_filestat_set_size :: "int \<Rightarrow> int \<Rightarrow> fd_table \<Rightarrow> call_prog" where
  "p1_fd_filestat_set_size fd sz t =
     with_fd t fd FD_FILESTAT_SET_SIZE (\<lambda>e.
       if e_type e \<noteq> File then Done (Answer EBADF)
       else on_handle (e_handle e) (\<lambda>h. ask (Rq_truncate h sz) fs_errno))"

definition p1_fd_allocate :: "int \<Rightarrow> int \<Rightarrow> int \<Rightarrow> fd_table \<Rightarrow> call_prog" where
  "p1_fd_allocate fd offset len t =
     with_fd t fd FD_ALLOCATE (\<lambda>e.
       if e_type e \<noteq> File then Done (Answer EBADF)
       else on_handle (e_handle e) (\<lambda>h. ask (Rq_size h) (\<lambda>r.
         case r of
           Err c \<Rightarrow> Done (Answer c)
         | Ok_with (TInt sz) \<Rightarrow>
             (if sz \<ge> offset + len then Done (Answer ESUCCESS) else ask (Rq_truncate h (offset + len)) fs_errno)
         | _ \<Rightarrow> Done Raised)))"

text \<open>The 64 bytes of a \<^verbatim>\<open>filestat\<close>, from the map of \<^verbatim>\<open>wasi_fs\<close>; a missing field is a \<^verbatim>\<open>badmatch\<close>.\<close>

definition int_field :: "eterm \<Rightarrow> string \<Rightarrow> int option" where
  "int_field i f =
     (case i of TMap kvs \<Rightarrow> (case map_of kvs (Atom f) of Some (TInt n) \<Rightarrow> Some n | _ \<Rightarrow> None) | _ \<Rightarrow> None)"

definition filestat_bytes :: "nat \<Rightarrow> int \<Rightarrow> int \<Rightarrow> int \<Rightarrow> int \<Rightarrow> int \<Rightarrow> int \<Rightarrow> int \<Rightarrow> bytes" where
  "filestat_bytes ft dev ino nlink sz a m c =
     u64 dev @ u64 ino @ [of_nat ft] @ replicate 7 0 @ u64 nlink @ u64 sz @ u64 a @ u64 m @ u64 c"

definition filestat :: "nat \<Rightarrow> eterm \<Rightarrow> bytes option" where
  "filestat ft i =
     (case map (int_field i) [''dev'', ''inode'', ''nlink'', ''size'', ''atim'', ''mtim'', ''ctim''] of
        [Some dev, Some ino, Some nlink, Some sz, Some a, Some m, Some c] \<Rightarrow>
          Some (filestat_bytes ft dev ino nlink sz a m c)
      | _ \<Rightarrow> None)"

definition filestat_bare :: "nat \<Rightarrow> bytes" where
  "filestat_bare ft = filestat_bytes ft 0 0 1 0 0 0 0"

definition emit_stat :: "int \<Rightarrow> bytes option \<Rightarrow> call_prog" where
  "emit_stat out b = (case b of None \<Rightarrow> Done Raised | Some bs \<Rightarrow> write_mem out bs (\<lambda>c. Done (Answer c)))"

definition p1_fd_filestat_get :: "int \<Rightarrow> int \<Rightarrow> fd_table \<Rightarrow> call_prog" where
  "p1_fd_filestat_get fd out t =
     with_fd t fd FD_FILESTAT_GET (\<lambda>e.
       let answered = (\<lambda>r. case r of
             Ok_with i \<Rightarrow> emit_stat out (filestat (e_filetype e) i)
           | Err c \<Rightarrow> Done (Answer c)
           | _ \<Rightarrow> Done Raised)
       in if e_type e = File then on_handle (e_handle e) (\<lambda>h. ask (Rq_stat_fd h) answered)
          else (case (e_type e, e_root e) of
                  (Dir, Some r) \<Rightarrow> ask (Rq_stat r DOT False) answered
                | _ \<Rightarrow> emit_stat out (Some (filestat_bare (e_filetype e)))))"

subsection \<open>Times\<close>

text \<open>The stamp of \<^verbatim>\<open>stamp/5\<close>: now, the value, or \<^verbatim>\<open>omit\<close>. A value is unsigned as it comes from the guest.\<close>

definition p1_stamp :: "int \<Rightarrow> int \<Rightarrow> int \<Rightarrow> int \<Rightarrow> nat \<Rightarrow> nat option" where
  "p1_stamp flags b nb v tnow =
     (if wants flags nb then Some tnow else if wants flags b then Some (nat (to_u64 v)) else None)"

definition set_times_on :: "(nat option \<Rightarrow> nat option \<Rightarrow> fs_req) \<Rightarrow> int \<Rightarrow> int \<Rightarrow> int \<Rightarrow> call_prog" where
  "set_times_on rq atim mtim flags =
     (if (wants flags 0x1 \<and> wants flags 0x2) \<or> (wants flags 0x4 \<and> wants flags 0x8) then Done (Answer EINVAL)
      else Now (\<lambda>tnow. ask (rq (p1_stamp flags 0x1 0x2 atim tnow) (p1_stamp flags 0x4 0x8 mtim tnow)) fs_errno))"

definition p1_fd_filestat_set_times :: "int \<Rightarrow> int \<Rightarrow> int \<Rightarrow> int \<Rightarrow> fd_table \<Rightarrow> call_prog" where
  "p1_fd_filestat_set_times fd atim mtim flags t =
     with_fd t fd FD_FILESTAT_SET_TIMES (\<lambda>e.
       case e_type e of
         File \<Rightarrow> on_handle (e_handle e) (\<lambda>h. set_times_on (Rq_set_times_fd h) atim mtim flags)
       | Dir \<Rightarrow> on_handle (e_root e) (\<lambda>r. set_times_on (\<lambda>a m. Rq_set_times r DOT a m False) atim mtim flags)
       | Stdio \<Rightarrow> Done (Answer EBADF))"

subsection \<open>Listing\<close>

definition p1_fd_readdir :: "int \<Rightarrow> int \<Rightarrow> int \<Rightarrow> int \<Rightarrow> int \<Rightarrow> int \<Rightarrow> fd_table \<Rightarrow> call_prog" where
  "p1_fd_readdir ceiling fd buf buf_len cookie out t =
     with_fd t fd FD_READDIR (\<lambda>e.
       if e_type e \<noteq> Dir then Done (Answer ENOTDIR)
       else if to_u32 buf_len > ceiling then Done (Answer ENOMEM)
       else on_handle (e_root e) (\<lambda>r. ask (Rq_readdir r (to_u64 cookie) (to_u32 buf_len)) (\<lambda>a.
         case a of
           Ok_with (TBin bs) \<Rightarrow>
             write_mem buf bs (\<lambda>c.
               if c = ESUCCESS then write_u32 out (int (length bs)) (\<lambda>c. Done (Answer c)) else Done (Answer EFAULT))
         | Err c \<Rightarrow> Done (Answer c)
         | _ \<Rightarrow> Done Raised)))"

end
