(* ===== verification/P1_Paths.thy ===== *)
theory P1_Paths
  imports P1_Files
begin

text \<open>
  The \<^verbatim>\<open>path_*\<close> system calls of \<^verbatim>\<open>wasi_preview1.erl\<close>, on the native backend: a guest's path below a
  directory it has, checked, and handed to \<^verbatim>\<open>wasi_fs\<close>. Only a directory that is opened is opened by the
  host path that \<^verbatim>\<open>wasi_path:resolve\<close> answers.
\<close>

definition lookup_follows :: "int \<Rightarrow> bool" where
  "lookup_follows flags \<longleftrightarrow> wants flags SYMLINK_FOLLOW"

definition is_directory :: "eterm \<Rightarrow> bool" where
  "is_directory i \<longleftrightarrow> (case i of TMap kvs \<Rightarrow> map_of kvs (Atom ''type'') = Some (Atom ''directory'') | _ \<Rightarrow> False)"

definition is_symlink :: "eterm \<Rightarrow> bool" where
  "is_symlink i \<longleftrightarrow> (case i of TMap kvs \<Rightarrow> map_of kvs (Atom ''type'') = Some (Atom ''symlink'') | _ \<Rightarrow> False)"

subsection \<open>Trailing slashes\<close>

text \<open>A name that ends in a slash must name a directory; a destination, only if the source is one.\<close>

definition ends_in_slash :: "bytes \<Rightarrow> bool" where
  "ends_in_slash p \<longleftrightarrow> p \<noteq> [] \<and> List.last p = SLASH"

definition must_be_directory :: "nat option \<Rightarrow> bytes \<Rightarrow> nat \<Rightarrow> call_prog \<Rightarrow> call_prog" where
  "must_be_directory root p otherwise k =
     on_handle root (\<lambda>d. ask (Rq_stat d p False) (\<lambda>r.
       case r of
         Ok_with i \<Rightarrow> if is_directory i then k else Done (Answer otherwise)
       | Err c \<Rightarrow> Done (Answer c)
       | _ \<Rightarrow> Done Raised))"

definition trailing_slash_ok :: "nat option \<Rightarrow> bytes \<Rightarrow> call_prog \<Rightarrow> call_prog" where
  "trailing_slash_ok root guest k = (if ends_in_slash guest then must_be_directory root guest ENOTDIR k else k)"

definition dest_slash_ok :: "nat option \<Rightarrow> bytes \<Rightarrow> bytes \<Rightarrow> call_prog \<Rightarrow> call_prog" where
  "dest_slash_ok root src dest k = (if ends_in_slash dest then must_be_directory root src ENOENT k else k)"

subsection \<open>Changing names\<close>

definition mutate_path :: "bool \<Rightarrow> int \<Rightarrow> (nat \<Rightarrow> bytes \<Rightarrow> fs_req) \<Rightarrow> int \<Rightarrow> int \<Rightarrow> int \<Rightarrow> fd_table \<Rightarrow> call_prog" where
  "mutate_path check_slash right rq dirfd ptr len t =
     with_dir t dirfd (\<lambda>e.
       if e_inheriting e AND right = 0 then Done (Answer ENOTCAPABLE)
       else read_path ptr len (\<lambda>guest.
         let go = on_handle (e_root e) (\<lambda>d. ask (rq d guest) fs_errno)
         in if check_slash then trailing_slash_ok (e_root e) guest go else go))"

definition p1_path_create_directory :: "int \<Rightarrow> int \<Rightarrow> int \<Rightarrow> fd_table \<Rightarrow> call_prog" where
  "p1_path_create_directory dirfd ptr len t = mutate_path False PATH_CREATE_DIRECTORY Rq_mkdir dirfd ptr len t"

definition p1_path_unlink_file :: "int \<Rightarrow> int \<Rightarrow> int \<Rightarrow> fd_table \<Rightarrow> call_prog" where
  "p1_path_unlink_file dirfd ptr len t = mutate_path True PATH_UNLINK_FILE Rq_unlink dirfd ptr len t"

definition p1_path_remove_directory :: "int \<Rightarrow> int \<Rightarrow> int \<Rightarrow> fd_table \<Rightarrow> call_prog" where
  "p1_path_remove_directory dirfd ptr len t = mutate_path True PATH_REMOVE_DIRECTORY Rq_rmdir dirfd ptr len t"

definition two_paths :: "int \<Rightarrow> (nat \<Rightarrow> bytes \<Rightarrow> nat \<Rightarrow> bytes \<Rightarrow> fs_req) \<Rightarrow> int \<Rightarrow> int \<Rightarrow> int \<Rightarrow> int \<Rightarrow> int \<Rightarrow> int
    \<Rightarrow> fd_table \<Rightarrow> call_prog" where
  "two_paths right rq fd_a ptr_a len_a fd_b ptr_b len_b t =
     with_dir t fd_a (\<lambda>a.
       if e_inheriting a AND right = 0 then Done (Answer ENOTCAPABLE)
       else with_dir t fd_b (\<lambda>b.
         if e_inheriting b AND PATH_CREATE_FILE = 0 then Done (Answer ENOTCAPABLE)
         else read_path ptr_a len_a (\<lambda>ga. read_path ptr_b len_b (\<lambda>gb.
           trailing_slash_ok (e_root a) ga (dest_slash_ok (e_root a) ga gb
             (on_handle (e_root a) (\<lambda>ra. on_handle (e_root b) (\<lambda>rb. ask (rq ra ga rb gb) fs_errno))))))))"

definition p1_path_rename :: "int \<Rightarrow> int \<Rightarrow> int \<Rightarrow> int \<Rightarrow> int \<Rightarrow> int \<Rightarrow> fd_table \<Rightarrow> call_prog" where
  "p1_path_rename old_fd old_ptr old_len dst_fd dst_ptr dst_len t =
     two_paths PATH_UNLINK_FILE Rq_rename old_fd old_ptr old_len dst_fd dst_ptr dst_len t"

definition p1_path_link :: "int \<Rightarrow> int \<Rightarrow> int \<Rightarrow> int \<Rightarrow> int \<Rightarrow> int \<Rightarrow> int \<Rightarrow> fd_table \<Rightarrow> call_prog" where
  "p1_path_link old_fd flags old_ptr old_len dst_fd dst_ptr dst_len t =
     (if lookup_follows flags then Done (Answer EINVAL)
      else two_paths PATH_CREATE_FILE Rq_link old_fd old_ptr old_len dst_fd dst_ptr dst_len t)"

definition p1_path_symlink :: "int \<Rightarrow> int \<Rightarrow> int \<Rightarrow> int \<Rightarrow> int \<Rightarrow> fd_table \<Rightarrow> call_prog" where
  "p1_path_symlink tgt_ptr tgt_len dirfd ptr len t =
     with_dir t dirfd (\<lambda>e.
       if e_inheriting e AND PATH_CREATE_FILE = 0 then Done (Answer ENOTCAPABLE)
       else read_path tgt_ptr tgt_len (\<lambda>tgt. read_path ptr len (\<lambda>guest.
         trailing_slash_ok (e_root e) guest
           (if tgt \<noteq> [] \<and> hd tgt = SLASH then Done (Answer ENOTCAPABLE)
            else on_handle (e_root e) (\<lambda>d. ask (Rq_symlink d guest tgt) fs_errno)))))"

subsection \<open>Reading names\<close>

definition p1_path_readlink :: "int \<Rightarrow> int \<Rightarrow> int \<Rightarrow> int \<Rightarrow> int \<Rightarrow> int \<Rightarrow> fd_table \<Rightarrow> call_prog" where
  "p1_path_readlink dirfd ptr len buf buf_len out t =
     with_dir t dirfd (\<lambda>e. read_path ptr len (\<lambda>guest.
       on_handle (e_root e) (\<lambda>d. ask (Rq_readlink d guest) (\<lambda>r.
         case r of
           Ok_with (TBin tgt) \<Rightarrow>
             (let n = min (int (length tgt)) buf_len in
              if n < 0 then Done Raised
              else write_mem buf (take (nat n) tgt) (\<lambda>c.
                if c = ESUCCESS then write_u32 out n (\<lambda>c. Done (Answer c)) else Done (Answer EFAULT)))
         | Err c \<Rightarrow> Done (Answer c)
         | _ \<Rightarrow> Done Raised))))"

definition stat_to_filestat :: "eterm \<Rightarrow> bytes option" where
  "stat_to_filestat i =
     (case i of
        TMap kvs \<Rightarrow>
          (case map_of kvs (Atom ''type'') of
             Some ty \<Rightarrow>
               filestat (if ty = Atom ''directory'' then 3 else if ty = Atom ''regular'' then 4
                         else if ty = Atom ''symlink'' then 7 else 0) i
           | None \<Rightarrow> None)
      | _ \<Rightarrow> None)"

definition p1_path_filestat_get :: "int \<Rightarrow> int \<Rightarrow> int \<Rightarrow> int \<Rightarrow> int \<Rightarrow> fd_table \<Rightarrow> call_prog" where
  "p1_path_filestat_get dirfd flags ptr len out t =
     with_dir t dirfd (\<lambda>e. read_path ptr len (\<lambda>guest.
       on_handle (e_root e) (\<lambda>d. ask (Rq_stat d guest (lookup_follows flags)) (\<lambda>r.
         case r of
           Ok_with i \<Rightarrow> emit_stat out (stat_to_filestat i)
         | Err c \<Rightarrow> Done (Answer c)
         | _ \<Rightarrow> Done Raised))))"

definition p1_path_filestat_set_times :: "int \<Rightarrow> int \<Rightarrow> int \<Rightarrow> int \<Rightarrow> int \<Rightarrow> int \<Rightarrow> int \<Rightarrow> fd_table \<Rightarrow> call_prog" where
  "p1_path_filestat_set_times dirfd flags ptr len atim mtim fst_flags t =
     with_dir t dirfd (\<lambda>e.
       if e_inheriting e AND PATH_FILESTAT_SET_TIMES = 0 then Done (Answer ENOTCAPABLE)
       else read_path ptr len (\<lambda>guest. on_handle (e_root e) (\<lambda>d.
         set_times_on (\<lambda>a m. Rq_set_times d guest a m (lookup_follows flags)) atim mtim fst_flags)))"

subsection \<open>Opening\<close>

definition fs_modes :: "int \<Rightarrow> bool \<Rightarrow> fs_mode list" where
  "fs_modes oflags need_write =
     [Read] @ (if need_write then [Write] else []) @ (if wants oflags OFLAGS_CREAT then [Create] else [])
       @ (if wants oflags OFLAGS_TRUNC then [Trunc] else []) @ (if wants oflags OFLAGS_EXCL then [Exclusive] else [])"

definition open_file :: "wasi_fd \<Rightarrow> bytes \<Rightarrow> int \<Rightarrow> int \<Rightarrow> int \<Rightarrow> bool \<Rightarrow> int \<Rightarrow> fd_table \<Rightarrow> call_prog" where
  "open_file dir guest oflags fd_flags rts follow out t =
     (let need_write = wants oflags OFLAGS_CREAT \<or> wants oflags OFLAGS_TRUNC \<or> wants fd_flags FDFLAGS_APPEND
            \<or> wants rts FD_WRITE
      in if (need_write \<and> e_inheriting dir AND PATH_CREATE_FILE = 0)
            \<or> (wants oflags OFLAGS_TRUNC \<and> e_rights dir AND PATH_FILESTAT_SET_SIZE = 0)
         then Done (Answer ENOTCAPABLE)
         else on_handle (e_root dir) (\<lambda>d.
           ask (Rq_open d guest (fs_modes oflags need_write @ (if follow then [Follow] else []))) (\<lambda>r.
             case r of
               Err c \<Rightarrow> Done (Answer c)
             | Ok_with v \<Rightarrow> on_handle (native_of v) (\<lambda>h.
                 case fd_add t ((new_fd File 4)\<lparr>e_rights := rts AND e_inheriting dir,
                     e_inheriting := e_inheriting dir, e_handle := Some h,
                     e_append := wants fd_flags FDFLAGS_APPEND, e_syncflags := fd_flags AND SYNCFLAGS\<rparr>)
                 of (fd, t') \<Rightarrow> emit_fd out fd t')
             | _ \<Rightarrow> Done Raised)))"

definition add_dir_fd :: "wasi_fd \<Rightarrow> eterm \<Rightarrow> int \<Rightarrow> int \<Rightarrow> fd_table \<Rightarrow> call_prog" where
  "add_dir_fd dir full rts out t =
     ask (Rq_preopen full) (\<lambda>r.
       case r of
         Err c \<Rightarrow> Done (Answer c)
       | Ok_with v \<Rightarrow> on_handle (native_of v) (\<lambda>root.
           case fd_add t ((new_fd Dir 3)\<lparr>e_rights := rts AND e_inheriting dir AND RIGHTS_DIR_WRITE,
               e_inheriting := e_inheriting dir, e_host_path := Some full, e_root := Some root\<rparr>)
           of (fd, t') \<Rightarrow> emit_fd out fd t')
       | _ \<Rightarrow> Done Raised)"

definition open_at_1 :: "wasi_fd \<Rightarrow> bytes \<Rightarrow> int \<Rightarrow> int \<Rightarrow> int \<Rightarrow> bool \<Rightarrow> int \<Rightarrow> fd_table \<Rightarrow> call_prog" where
  "open_at_1 dir guest oflags fd_flags rts follow out t =
     (case e_host_path dir of
        None \<Rightarrow> Done Raised
      | Some path \<Rightarrow>
          Resolve path guest (\<not> wants oflags OFLAGS_CREAT) (\<lambda>r.
            case r of
              Inl _ \<Rightarrow> open_file dir guest oflags fd_flags rts follow out t
            | Inr full \<Rightarrow> Classify full (\<lambda>kind.
                if kind = Directory \<and> wants rts FD_WRITE then Done (Answer EISDIR)
                else if kind = Directory \<and> (wants oflags OFLAGS_DIRECTORY \<or> \<not> wants oflags OFLAGS_CREAT) then
                  add_dir_fd dir full rts out t
                else if kind = Directory then Done (Answer EISDIR)
                else if wants oflags OFLAGS_DIRECTORY then Done (Answer ENOTDIR)
                else open_file dir guest oflags fd_flags rts follow out t)))"

definition open_at :: "wasi_fd \<Rightarrow> bytes \<Rightarrow> int \<Rightarrow> int \<Rightarrow> int \<Rightarrow> bool \<Rightarrow> int \<Rightarrow> fd_table \<Rightarrow> call_prog" where
  "open_at dir guest oflags fd_flags rts follow out t =
     (let go = open_at_1 dir guest oflags fd_flags rts follow out t in
      if follow then go
      else on_handle (e_root dir) (\<lambda>d. ask (Rq_stat d guest False) (\<lambda>r.
        case r of
          Ok_with i \<Rightarrow> if is_symlink i then Done (Answer ELOOP) else go
        | _ \<Rightarrow> go)))"

definition p1_path_open :: "int \<Rightarrow> int \<Rightarrow> int \<Rightarrow> int \<Rightarrow> int \<Rightarrow> int \<Rightarrow> int \<Rightarrow> int \<Rightarrow> int \<Rightarrow> fd_table \<Rightarrow> call_prog" where
  "p1_path_open dirfd dirflags ptr len oflags rights_base rights_inh fd_flags out t =
     with_dir t dirfd (\<lambda>e. read_path ptr len (\<lambda>guest.
       trailing_slash_ok (e_root e) guest
         (open_at e guest oflags fd_flags (rights_base AND e_inheriting e) (wants dirflags SYMLINK_FOLLOW) out t)))"

end
