(* ===== verification/P1_Calls.thy ===== *)
theory P1_Calls
  imports P1_Paths
begin

text \<open>
  The system calls together: \<^verbatim>\<open>handle/5\<close> as one function of the call, \<^verbatim>\<open>dispatch/4\<close> around it, and runs of
  calls. And what a guest's rights mean: which request needs which right of which descriptor
  (\<open>licensed\<close>), and which entries a call may leave behind (\<open>derived\<close>). That every call keeps to both, whatever
  the host answers, is the lemma \<open>handle_call_lawful\<close>.
\<close>

subsection \<open>The calls\<close>

datatype wasi_call =
    Fd_close int
  | Fd_renumber int int
  | Fd_fdstat_get int int
  | Fd_fdstat_set_rights int int int
  | Fd_fdstat_set_flags int int
  | Fd_prestat_get int int
  | Fd_prestat_dir_name int int int
  | Fd_sync int
  | Fd_advise int
  | Fd_seek int int int int
  | Fd_tell int int
  | Fd_read int int int int
  | Fd_pread int int int int int
  | Fd_write int int int int
  | Fd_pwrite int int int int int
  | Fd_filestat_set_size int int
  | Fd_allocate int int int
  | Fd_filestat_get int int
  | Fd_filestat_set_times int int int int
  | Fd_readdir int int int int int
  | Path_open int int int int int int int int int
  | Path_filestat_get int int int int int
  | Path_filestat_set_times int int int int int int int
  | Path_create_directory int int int
  | Path_unlink_file int int int
  | Path_remove_directory int int int
  | Path_rename int int int int int int
  | Path_link int int int int int int int
  | Path_symlink int int int int int
  | Path_readlink int int int int int int

fun handle_call :: "int \<Rightarrow> wasi_call \<Rightarrow> fd_table \<Rightarrow> call_prog" where
  "handle_call C (Fd_close fd) = p1_fd_close fd"
| "handle_call C (Fd_renumber src dst) = p1_fd_renumber src dst"
| "handle_call C (Fd_fdstat_get fd out) = p1_fd_fdstat_get fd out"
| "handle_call C (Fd_fdstat_set_rights fd b i) = p1_fd_fdstat_set_rights fd b i"
| "handle_call C (Fd_fdstat_set_flags fd fl) = p1_fd_fdstat_set_flags fd fl"
| "handle_call C (Fd_prestat_get fd out) = p1_fd_prestat_get fd out"
| "handle_call C (Fd_prestat_dir_name fd p l) = p1_fd_prestat_dir_name fd p l"
| "handle_call C (Fd_sync fd) = p1_fd_sync fd"
| "handle_call C (Fd_advise fd) = p1_fd_advise fd"
| "handle_call C (Fd_seek fd off whence out) = p1_fd_seek fd off whence out"
| "handle_call C (Fd_tell fd out) = p1_fd_tell fd out"
| "handle_call C (Fd_read fd iovs n out) = p1_fd_read fd iovs n out"
| "handle_call C (Fd_pread fd iovs n off out) = p1_fd_pread fd iovs n off out"
| "handle_call C (Fd_write fd iovs n out) = p1_fd_write fd iovs n out"
| "handle_call C (Fd_pwrite fd iovs n off out) = p1_fd_pwrite fd iovs n off out"
| "handle_call C (Fd_filestat_set_size fd sz) = p1_fd_filestat_set_size fd sz"
| "handle_call C (Fd_allocate fd off len) = p1_fd_allocate fd off len"
| "handle_call C (Fd_filestat_get fd out) = p1_fd_filestat_get fd out"
| "handle_call C (Fd_filestat_set_times fd a m fl) = p1_fd_filestat_set_times fd a m fl"
| "handle_call C (Fd_readdir fd buf len cookie out) = p1_fd_readdir C fd buf len cookie out"
| "handle_call C (Path_open fd df p l ofl b i ff out) = p1_path_open fd df p l ofl b i ff out"
| "handle_call C (Path_filestat_get fd fl p l out) = p1_path_filestat_get fd fl p l out"
| "handle_call C (Path_filestat_set_times fd fl p l a m ff) = p1_path_filestat_set_times fd fl p l a m ff"
| "handle_call C (Path_create_directory fd p l) = p1_path_create_directory fd p l"
| "handle_call C (Path_unlink_file fd p l) = p1_path_unlink_file fd p l"
| "handle_call C (Path_remove_directory fd p l) = p1_path_remove_directory fd p l"
| "handle_call C (Path_rename fa pa la fb pb lb) = p1_path_rename fa pa la fb pb lb"
| "handle_call C (Path_link fa fl pa la fb pb lb) = p1_path_link fa fl pa la fb pb lb"
| "handle_call C (Path_symlink tp tn fd p l) = p1_path_symlink tp tn fd p l"
| "handle_call C (Path_readlink fd p l buf bl out) = p1_path_readlink fd p l buf bl out"

text \<open>\<^verbatim>\<open>dispatch/4\<close>: an exception becomes EIO and leaves the table as it was.\<close>

fun settle :: "fd_table \<Rightarrow> outcome \<Rightarrow> nat \<times> fd_table" where
  "settle t (Answer e) = (e, t)"
| "settle t (Saved e t') = (e, t')"
| "settle t Raised = (EIO, t)"

definition dispatch :: "'w kernel \<Rightarrow> bool \<Rightarrow> 'w env \<Rightarrow> int \<Rightarrow> wasi_call \<Rightarrow> fd_table \<Rightarrow> 'w machine
    \<Rightarrow> (nat \<times> fd_table \<times> 'w machine) option" where
  "dispatch K dw E C c t M =
     map_option (\<lambda>(r, M'). (fst (settle t r), snd (settle t r), M')) (perform K dw E (handle_call C c t) M)"

subsection \<open>Rights\<close>

definition rights_le :: "int \<Rightarrow> int \<Rightarrow> bool" where
  "rights_le a b \<longleftrightarrow> a AND NOT b = 0"

lemma rights_le_bits: "rights_le a b \<longleftrightarrow> (\<forall>n. bit a n \<longrightarrow> bit b n)"
  by (auto simp: rights_le_def bit_eq_iff bit_and_iff bit_not_iff)

lemma rights_le_refl [simp]: "rights_le a a"
  by (simp add: rights_le_bits)

lemma rights_le_trans: "rights_le a b \<Longrightarrow> rights_le b c \<Longrightarrow> rights_le a c"
  by (simp add: rights_le_bits)

lemma rights_le_and [simp]: "rights_le (a AND b) b"
  by (simp add: rights_le_bits bit_and_iff)

lemma rights_le_and3 [simp]: "rights_le (a AND b AND c) b"
  by (simp add: rights_le_bits bit_and_iff)

lemma rights_le_disjoint: "rights_le a b \<Longrightarrow> b AND r = 0 \<Longrightarrow> a AND r = 0"
  by (auto simp: rights_le_bits bit_eq_iff bit_and_iff)

text \<open>The right a descriptor has, and the right it passes down.\<close>

definition has :: "wasi_fd \<Rightarrow> int \<Rightarrow> bool" where
  "has e r \<longleftrightarrow> e_rights e AND r \<noteq> 0"

definition passes :: "wasi_fd \<Rightarrow> int \<Rightarrow> bool" where
  "passes e r \<longleftrightarrow> e_inheriting e AND r \<noteq> 0"

definition an_entry :: "fd_table \<Rightarrow> wasi_fd \<Rightarrow> bool" where
  "an_entry t e \<longleftrightarrow> (\<exists>fd. fds t fd = Some e)"

definition through_dir :: "fd_table \<Rightarrow> nat \<Rightarrow> (wasi_fd \<Rightarrow> bool) \<Rightarrow> bool" where
  "through_dir t d P \<longleftrightarrow> (\<exists>e. an_entry t e \<and> e_type e = Dir \<and> e_root e = Some d \<and> P e)"

definition through_file :: "fd_table \<Rightarrow> nat \<Rightarrow> (wasi_fd \<Rightarrow> bool) \<Rightarrow> bool" where
  "through_file t h P \<longleftrightarrow> (\<exists>e. an_entry t e \<and> e_type e = File \<and> e_handle e = Some h \<and> P e)"

definition guest_name :: "bytes \<Rightarrow> bool" where
  "guest_name p \<longleftrightarrow> 0 \<notin> set p \<and> length p \<le> 4096"

text \<open>
  What each request needs. \<open>H\<close> are the marks of this call: a handle it has opened and could not hand to the
  guest is closed again.
\<close>

fun licensed :: "fd_table \<Rightarrow> mark set \<Rightarrow> fs_req \<Rightarrow> bool" where
  "licensed t H (Rq_close h) = (Opened h \<in> H \<or> through_file t h (\<lambda>_. True))"
| "licensed t H (Rq_forget d) = (Opened d \<in> H \<or> through_dir t d (\<lambda>_. True))"
| "licensed t H (Rq_preopen host) = (\<exists>e. an_entry t e \<and> e_type e = Dir)"
| "licensed t H (Rq_open d p modes) =
     (guest_name p \<and> through_dir t d (\<lambda>e.
        (passes e PATH_CREATE_FILE \<or> set modes \<subseteq> {Read, Exclusive, Follow})
        \<and> (Trunc \<in> set modes \<longrightarrow> has e PATH_FILESTAT_SET_SIZE)))"
| "licensed t H (Rq_mkdir d p) = (guest_name p \<and> through_dir t d (\<lambda>e. passes e PATH_CREATE_DIRECTORY))"
| "licensed t H (Rq_unlink d p) = (guest_name p \<and> through_dir t d (\<lambda>e. passes e PATH_UNLINK_FILE))"
| "licensed t H (Rq_rmdir d p) = (guest_name p \<and> through_dir t d (\<lambda>e. passes e PATH_REMOVE_DIRECTORY))"
| "licensed t H (Rq_symlink d p tgt) =
     (guest_name p \<and> guest_name tgt \<and> \<not> (tgt \<noteq> [] \<and> hd tgt = SLASH) \<and> through_dir t d (\<lambda>e. passes e PATH_CREATE_FILE))"
| "licensed t H (Rq_readlink d p) = (guest_name p \<and> through_dir t d (\<lambda>_. True))"
| "licensed t H (Rq_stat d p follow) = (guest_name p \<and> through_dir t d (\<lambda>_. True))"
| "licensed t H (Rq_set_times d p a m follow) =
     (guest_name p \<and> through_dir t d (\<lambda>e.
        passes e PATH_FILESTAT_SET_TIMES \<or> (p = DOT \<and> \<not> follow \<and> has e FD_FILESTAT_SET_TIMES)))"
| "licensed t H (Rq_rename d1 p1 d2 p2) =
     (guest_name p1 \<and> guest_name p2 \<and> through_dir t d1 (\<lambda>e. passes e PATH_UNLINK_FILE)
      \<and> through_dir t d2 (\<lambda>e. passes e PATH_CREATE_FILE))"
| "licensed t H (Rq_link d1 p1 d2 p2) =
     (guest_name p1 \<and> guest_name p2 \<and> through_dir t d1 (\<lambda>e. passes e PATH_CREATE_FILE)
      \<and> through_dir t d2 (\<lambda>e. passes e PATH_CREATE_FILE))"
| "licensed t H (Rq_pread h off n) = through_file t h (\<lambda>e. has e FD_READ)"
| "licensed t H (Rq_pwrite h off bs) = through_file t h (\<lambda>e. has e FD_WRITE)"
| "licensed t H (Rq_truncate h n) = through_file t h (\<lambda>e. has e FD_FILESTAT_SET_SIZE \<or> has e FD_ALLOCATE)"
| "licensed t H (Rq_set_times_fd h a m) = through_file t h (\<lambda>e. has e FD_FILESTAT_SET_TIMES)"
| "licensed t H (Rq_stat_fd h) = through_file t h (\<lambda>e. has e FD_FILESTAT_GET)"
| "licensed t H (Rq_size h) = through_file t h (\<lambda>e. has e FD_SEEK \<or> has e FD_WRITE \<or> has e FD_ALLOCATE)"
| "licensed t H (Rq_readdir d c n) = through_dir t d (\<lambda>e. has e FD_READDIR)"
| "licensed t H rq = False"

text \<open>
  What a call leaves in the table. An entry was there before, under the same number or moved by
  \<^verbatim>\<open>fd_renumber\<close>, and has no more rights than it had; or it is new under the next number, was opened through
  a directory of the table, and has no more than that passes down. No entry appears twice.
\<close>

definition narrowed :: "wasi_fd \<Rightarrow> wasi_fd \<Rightarrow> bool" where
  "narrowed e e' \<longleftrightarrow>
     e_type e' = e_type e \<and> e_handle e' = e_handle e \<and> e_root e' = e_root e \<and> e_host_path e' = e_host_path e
     \<and> e_guest_path e' = e_guest_path e \<and> e_device e' = e_device e \<and> e_preopen e' = e_preopen e
     \<and> rights_le (e_rights e') (e_rights e) \<and> rights_le (e_inheriting e') (e_inheriting e)"

definition opened_below :: "wasi_fd \<Rightarrow> mark set \<Rightarrow> wasi_fd \<Rightarrow> bool" where
  "opened_below d H e \<longleftrightarrow>
     rights_le (e_rights e) (e_inheriting d) \<and> e_inheriting e = e_inheriting d \<and> \<not> e_preopen e
     \<and> (e_type e = File \<and> e_root e = None \<and> (\<exists>h. Opened h \<in> H \<and> e_handle e = Some h)
        \<or> e_type e = Dir \<and> e_handle e = None \<and> (\<exists>h. Opened h \<in> H \<and> e_root e = Some h)
          \<and> rights_le (e_rights e) RIGHTS_DIR_WRITE)"

definition kept_entry :: "(int \<times> int) set \<Rightarrow> fd_table \<Rightarrow> int \<Rightarrow> int \<Rightarrow> wasi_fd \<Rightarrow> bool" where
  "kept_entry m t fd0 fd e' \<longleftrightarrow> (\<exists>e. fds t fd0 = Some e \<and> narrowed e e' \<and> (fd = fd0 \<or> (fd0, fd) \<in> m))"

definition new_entry :: "fd_table \<Rightarrow> mark set \<Rightarrow> wasi_fd \<Rightarrow> bool" where
  "new_entry t H e' \<longleftrightarrow> (\<exists>d. an_entry t d \<and> e_type d = Dir \<and> opened_below d H e')"

definition derived :: "(int \<times> int) set \<Rightarrow> fd_table \<Rightarrow> mark set \<Rightarrow> fd_table \<Rightarrow> bool" where
  "derived m t H t' \<longleftrightarrow>
     (\<exists>from. inj_on from (dom (fds t')) \<and>
        (\<forall>fd e'. fds t' fd = Some e' \<longrightarrow>
           kept_entry m t (from fd) fd e'
           \<or> from fd = fd \<and> fd = next_fd t \<and> fd < next_fd t' \<and> new_entry t H e'))
     \<and> next_fd t \<le> next_fd t' \<and> baseline t' = baseline t"

text \<open>The handles of a table.\<close>

definition holds :: "wasi_fd \<Rightarrow> nat \<Rightarrow> bool" where
  "holds e h \<longleftrightarrow> e_handle e = Some h \<or> e_root e = Some h"

definition held_by :: "fd_table \<Rightarrow> nat set" where
  "held_by t = {h. \<exists>e. an_entry t e \<and> holds e h}"

text \<open>A guest's life: calls, and between them collections of handles that the table does not hold.\<close>

fun p1_run :: "'w kernel \<Rightarrow> bool \<Rightarrow> 'w env \<Rightarrow> int \<Rightarrow> (wasi_call + nat) list \<Rightarrow> fd_table \<Rightarrow> 'w machine
    \<Rightarrow> (nat list \<times> fd_table \<times> 'w machine) option" where
  "p1_run K dw E C [] t M = Some ([], t, M)"
| "p1_run K dw E C (Inl c # es) t M =
     (case dispatch K dw E C c t M of
        None \<Rightarrow> None
      | Some (e, t', M') \<Rightarrow> map_option (\<lambda>(r, q). (e # r, q)) (p1_run K dw E C es t' M'))"
| "p1_run K dw E C (Inr i # es) t M =
     p1_run K dw E C es t (M\<lparr>nif := if live (nif M) i \<and> i \<notin> held_by t then file_dtor K i (nif M) else nif M\<rparr>)"

text \<open>
  If no two entries share a handle and what the call opened is new, then what it closed is in the table
  no more.
\<close>

definition one_owner :: "fd_table \<Rightarrow> bool" where
  "one_owner t \<longleftrightarrow>
     (\<forall>fd fd' e e' h. fds t fd = Some e \<longrightarrow> fds t fd' = Some e' \<longrightarrow> holds e h \<longrightarrow> holds e' h \<longrightarrow> fd = fd')"

definition parted :: "fd_table \<Rightarrow> mark set \<Rightarrow> fd_table \<Rightarrow> bool" where
  "parted t H t' \<longleftrightarrow>
     (one_owner t \<longrightarrow> (\<forall>h. Opened h \<in> H \<longrightarrow> h \<notin> held_by t) \<longrightarrow> (\<forall>h \<in> held_by t'. Closed h \<notin> H))"

text \<open>What a call answers: a code of \<^verbatim>\<open>wasi_fs\<close>, success, or one of its own.\<close>

definition call_codes :: "nat set" where
  "call_codes = wasi_codes \<union> {ESUCCESS, EBADF, EFAULT, EINVAL, EIO, EISDIR, ELOOP, ENAMETOOLONG, ENOENT, ENOMEM, ENOTDIR,
     ENOTSUP, ESPIPE, ENOTCAPABLE}"

lemma call_codes_simps [simp]:
  "0 \<in> call_codes" "Suc 7 \<in> call_codes" "n \<in> {8, 21, 28, 29, 31, 32, 37, 44, 48, 54, 58, 70, 76} \<Longrightarrow> n \<in> call_codes"
  "n \<in> wasi_codes \<Longrightarrow> n \<in> call_codes"
  by (auto simp: call_codes_def)

fun ends_well :: "(int \<times> int) set \<Rightarrow> fd_table \<Rightarrow> mark set \<Rightarrow> outcome \<Rightarrow> bool" where
  "ends_well m t H (Answer e) = (e \<in> call_codes \<and> parted t H t)"
| "ends_well m t H (Saved e t') = (e \<in> call_codes \<and> derived m t H t' \<and> parted t H t')"
| "ends_well m t H Raised = parted t H t"

abbreviation lawful :: "(int \<times> int) set \<Rightarrow> fd_table \<Rightarrow> call_prog \<Rightarrow> mark set \<Rightarrow> bool" where
  "lawful m t \<equiv> guarded (licensed t) (ends_well m t)"

text \<open>The numbers that a call moves an entry between.\<close>

fun moves :: "wasi_call \<Rightarrow> (int \<times> int) set" where
  "moves (Fd_renumber src dst) = {(src, dst)}"
| "moves c = {}"

end
