(* ===== verification/P1_Lawful.thy ===== *)
theory P1_Lawful
  imports P1_Calls
begin

text \<open>
  Every system call is lawful: whatever the host answers, it asks only what the rights of its descriptors
  license and leaves a table of derived entries. One lemma for each helper says how it passes lawfulness
  on (the collection \<open>guards\<close>), and one for each call follows from them.
\<close>

named_theorems guards "introduction rules for lawful conversations"

subsection \<open>Tables\<close>

lemma an_entryI: "fds t fd = Some e \<Longrightarrow> an_entry t e"
  by (auto simp: an_entry_def)

lemma narrowed_refl [simp]: "narrowed e e"
  by (simp add: narrowed_def)

lemma narrowed_bookkeeping [simp]:
  "narrowed e (e\<lparr>e_offset := n\<rparr>)" "narrowed e (e\<lparr>e_append := a, e_syncflags := f\<rparr>)"
  by (simp_all add: narrowed_def)

lemma narrowed_rights:
  "rights_le r (e_rights e) \<Longrightarrow> rights_le i (e_inheriting e) \<Longrightarrow> narrowed e (e\<lparr>e_rights := r, e_inheriting := i\<rparr>)"
  by (simp add: narrowed_def)

text \<open>Where entries stay under their numbers.\<close>

lemma derived_here:
  assumes "\<And>fd e'. fds t' fd = Some e' \<Longrightarrow>
      (\<exists>e. fds t fd = Some e \<and> narrowed e e') \<or> fd = next_fd t \<and> fd < next_fd t' \<and> new_entry t H e'"
    and "next_fd t \<le> next_fd t'" and "baseline t' = baseline t"
  shows "derived mv t H t'"
proof -
  have "inj_on id (dom (fds t'))" by simp
  with assms show ?thesis unfolding derived_def kept_entry_def by (intro conjI exI [of _ id]) auto
qed

lemma derived_refl [guards]: "derived mv t H t"
  by (rule derived_here) (auto intro: narrowed_refl)

lemma derived_put: "fds t fd = Some e \<Longrightarrow> narrowed e e' \<Longrightarrow> derived mv t H (fd_put t fd e')"
  by (rule derived_here) (auto simp: fd_put_def split: if_splits intro: narrowed_refl)

lemma derived_remove [guards]: "derived mv t H (fd_remove t fd)"
  by (rule derived_here) (auto simp: fd_remove_def split: if_splits intro: narrowed_refl)

lemma derived_set_offset [guards]: "derived mv t H (fd_set_offset t fd off)"
  by (rule derived_here) (auto simp: fd_set_offset_def narrowed_def split: if_splits option.splits)

lemma derived_bump_offset [guards]: "derived mv t H (fd_bump_offset t fd n)"
  by (rule derived_here) (auto simp: fd_bump_offset_def narrowed_def split: if_splits option.splits)

lemma derived_moved:
  assumes "fds t src = Some e"
  shows "derived {(src, dst)} t H (fd_remove (fd_put t dst e) src)"
proof -
  let ?t = "fd_remove (fd_put t dst e) src"
  have "inj_on (id(dst := src)) (dom (fds ?t))"
    by (auto simp: inj_on_def fd_remove_def fd_put_def split: if_splits)
  with assms show ?thesis
    unfolding derived_def kept_entry_def
    by (intro conjI exI [of _ "id(dst := src)"])
      (auto simp: fd_remove_def fd_put_def split: if_splits intro: narrowed_refl)
qed

lemma derived_add [guards]:
  "an_entry t d \<Longrightarrow> e_type d = Dir \<Longrightarrow> opened_below d H e \<Longrightarrow> derived mv t H (snd (fd_add t e))"
  by (rule derived_here) (auto simp: fd_add_def new_entry_def split: if_splits intro: narrowed_refl)

text \<open>A conversation that has closed nothing.\<close>

definition unclosed :: "mark set \<Rightarrow> bool" where
  "unclosed H \<longleftrightarrow> (\<forall>h. Closed h \<notin> H)"

lemma closed_got [simp]: "Closed h \<notin> got y"
  by (cases y) auto

lemma unclosed_simps [simp]:
  "unclosed {}" "unclosed (A \<union> B) \<longleftrightarrow> unclosed A \<and> unclosed B" "unclosed (got y)"
  "unclosed (insert (Opened h) H) \<longleftrightarrow> unclosed H" "unclosed (Opened ` S)"
  by (auto simp: unclosed_def)

lemma parted_unclosed [simp]: "unclosed H \<Longrightarrow> parted t H t'"
  by (simp add: parted_def unclosed_def)

subsection \<open>Conversations\<close>

lemma guarded_ask [guards]:
  "Q H rq \<Longrightarrow> P H Raised \<Longrightarrow> (\<And>y. told y \<Longrightarrow> guarded Q P (k y) (H \<union> (gone rq \<union> got y))) \<Longrightarrow> guarded Q P (ask rq k) H"
  by (auto simp: ask_def split: fs_result.split)

lemma lawful_answer [guards]: "e \<in> call_codes \<Longrightarrow> unclosed H \<Longrightarrow> lawful mv t (Done (Answer e)) H"
  by simp

lemma lawful_saved [guards]:
  "e \<in> call_codes \<Longrightarrow> derived mv t H t' \<Longrightarrow> parted t H t' \<Longrightarrow> lawful mv t (Done (Saved e t')) H"
  by simp

lemma lawful_raised [guards]: "unclosed H \<Longrightarrow> lawful mv t (Done Raised) H"
  by simp

lemma lawful_fs_errno [guards]: "told r \<Longrightarrow> unclosed H \<Longrightarrow> lawful mv t (fs_errno r) H"
  by (cases r) (simp_all add: fs_errno_def)

lemma lawful_on_handle [guards]: "unclosed H \<Longrightarrow> (\<And>i. h = Some i \<Longrightarrow> lawful mv t (k i) H) \<Longrightarrow> lawful mv t (on_handle h k) H"
  by (simp add: on_handle_def split: option.split)

lemma lawful_with_fd [guards]:
  "unclosed H \<Longrightarrow> (\<And>e. fds t fd = Some e \<Longrightarrow> an_entry t e \<Longrightarrow> has e r \<Longrightarrow> lawful mv t (k e) H) \<Longrightarrow> lawful mv t (with_fd t fd r k) H"
  by (auto simp: with_fd_def fd_lookup_def has_def an_entry_def split: option.split)

lemma lawful_with_dir [guards]:
  "unclosed H \<Longrightarrow> (\<And>e. fds t fd = Some e \<Longrightarrow> an_entry t e \<Longrightarrow> e_type e = Dir \<Longrightarrow> lawful mv t (k e) H) \<Longrightarrow> lawful mv t (with_dir t fd k) H"
  by (auto simp: with_dir_def fd_lookup_def an_entry_def split: option.split)

lemma guarded_write_mem [guards]: "(\<And>c. c \<in> call_codes \<Longrightarrow> guarded Q P (k c) H) \<Longrightarrow> guarded Q P (write_mem a bs k) H"
  by (simp add: write_mem_def)

lemma lawful_save_if [guards]:
  "c \<in> call_codes \<Longrightarrow> derived mv t H t' \<Longrightarrow> unclosed H \<Longrightarrow> lawful mv t (save_if t' c) H"
  by (simp add: save_if_def)

lemma lawful_read_path [guards]: "unclosed H \<Longrightarrow> (\<And>p. guest_name p \<Longrightarrow> lawful mv t (k p) H) \<Longrightarrow> lawful mv t (read_path a n k) H"
  by (auto simp: read_path_def guest_name_def split: option.split)

lemma lawful_iovec_specs [guards]: "unclosed H \<Longrightarrow> (\<And>specs. lawful mv t (k specs) H) \<Longrightarrow> lawful mv t (iovec_specs a n k) H"
  by (auto simp: iovec_specs_def split: option.split)

lemma guarded_gather: "(\<And>bs. guarded Q P (k bs) H) \<Longrightarrow> guarded Q P (gather specs acc k) H"
  by (induction specs acc k rule: gather.induct) auto

lemma lawful_read_iovecs [guards]: "unclosed H \<Longrightarrow> (\<And>bs. lawful mv t (k bs) H) \<Longrightarrow> lawful mv t (read_iovecs a n k) H"
  unfolding read_iovecs_def by (intro lawful_iovec_specs guarded_gather)

lemma guarded_scatter [guards]: "guarded Q P k H \<Longrightarrow> guarded Q P (scatter specs bs k) H"
  by (induction specs bs k rule: scatter.induct) auto

lemma lawful_emit_stat [guards]: "unclosed H \<Longrightarrow> lawful mv t (emit_stat out b) H"
  by (auto simp: emit_stat_def intro!: guards split: option.split)

text \<open>Closing what an entry holds.\<close>

lemma lawful_close_entry:
  assumes "an_entry t e \<or> (\<forall>h. holds e h \<longrightarrow> Opened h \<in> H)" and "unclosed H"
    and "\<And>G. H \<subseteq> G \<Longrightarrow> (\<And>h. Closed h \<in> G \<Longrightarrow> Closed h \<in> H \<or> holds e h) \<Longrightarrow> lawful mv t k G"
  shows "lawful mv t (close_entry e k) H"
proof -
  have "lawful mv t k (insert (Closed h) (H \<union> got y))" if "holds e h" for h y
    using that by (intro assms(3)) auto
  with assms show ?thesis
    by (auto simp: close_entry_def through_file_def through_dir_def holds_def intro!: guards
        split: fd_type.split option.split)
qed

lemma lawful_emit_fd [guards]:
  assumes d: "an_entry t d" "e_type d = Dir" and e: "opened_below d H e" and "unclosed H"
  shows "lawful mv t (emit_fd out (next_fd t) (snd (fd_add t e))) H"
proof -
  let ?t = "fd_remove (snd (fd_add t e)) (next_fd t)"
  have new: "\<forall>h. holds e h \<longrightarrow> Opened h \<in> H" using e by (auto simp: opened_below_def holds_def)
  have "lawful mv t (Done (Saved c ?t)) G"
    if "c \<in> call_codes" "H \<subseteq> G" "\<And>h. Closed h \<in> G \<Longrightarrow> Closed h \<in> H \<or> holds e h" for c G
  proof (intro lawful_saved that)
    show "derived mv t G ?t"
      by (rule derived_here) (auto simp: fd_remove_def fd_add_def split: if_splits)
    have "held_by ?t \<subseteq> held_by t"
      by (auto simp: held_by_def an_entry_def fd_remove_def fd_add_def split: if_splits)
    then show "parted t G ?t"
      using that(2,3) new assms(4) by (auto simp: parted_def unclosed_def) blast
  qed
  then have "lawful mv t (close_entry e (Done (Saved c ?t))) H" if "c \<in> call_codes" for c
    using that new assms(4) by (intro lawful_close_entry) auto
  moreover have "derived mv t H (snd (fd_add t e))" "parted t H (snd (fd_add t e))"
    using d e assms(4) by (auto intro: guards)
  ultimately show ?thesis
    by (auto simp: emit_fd_def fd_add_def intro!: guarded_write_mem)
qed

subsection \<open>The calls\<close>

named_theorems lawful_calls "every system call is lawful"

lemma through_fileI [elim!]:
  "e_handle e = Some h \<Longrightarrow> an_entry t e \<Longrightarrow> e_type e = File \<Longrightarrow> P e \<Longrightarrow> through_file t h P"
  by (auto simp: through_file_def)

lemma through_dirI [elim!]:
  "e_root e = Some d \<Longrightarrow> an_entry t e \<Longrightarrow> e_type e = Dir \<Longrightarrow> P e \<Longrightarrow> through_dir t d P"
  by (auto simp: through_dir_def)

lemma parted_remove:
  assumes "fds t fd = Some e" and "\<And>h. Closed h \<in> H \<Longrightarrow> holds e h"
  shows "parted t H (fd_remove t fd)"
  unfolding parted_def held_by_def an_entry_def fd_remove_def one_owner_def
  using assms by (auto split: if_splits)

lemma lawful_fd_close [lawful_calls]: "lawful mv t (p1_fd_close fd t) {}"
  unfolding p1_fd_close_def
  by (auto simp: fd_lookup_def holds_def intro!: guards parted_remove intro: an_entryI split: option.split)

lemma parted_moved:
  assumes "fds t src = Some e" and "fds t dst = Some old" and "\<And>h. Closed h \<in> H \<Longrightarrow> holds old h"
  shows "parted t H (fd_remove (fd_put t dst e) src)"
  unfolding parted_def
proof (intro impI ballI)
  fix h assume one: "one_owner t" and "h \<in> held_by (fd_remove (fd_put t dst e) src)"
  then obtain fd e' where "holds e' h" "fd \<noteq> src" "fd = dst \<and> e' = e \<or> fd \<noteq> dst \<and> fds t fd = Some e'"
    by (auto simp: held_by_def an_entry_def fd_remove_def fd_put_def split: if_splits)
  then have "\<not> holds old h" using one assms(1,2) unfolding one_owner_def by metis
  then show "Closed h \<notin> H" using assms(3) by blast
qed

lemma lawful_fd_renumber [lawful_calls]: "lawful {(src, dst)} t (p1_fd_renumber src dst t) {}"
  unfolding p1_fd_renumber_def
  by (auto simp: fd_lookup_def intro!: lawful_close_entry lawful_saved lawful_answer derived_moved
      intro: parted_moved an_entryI split: option.split)

lemma lawful_fdstat [lawful_calls]:
  "lawful mv t (p1_fd_fdstat_get fd out t) {}" "lawful mv t (p1_fd_fdstat_set_flags fd fl t) {}"
  "lawful mv t (p1_fd_prestat_get fd out t) {}" "lawful mv t (p1_fd_prestat_dir_name fd p l t) {}"
  "lawful mv t (p1_fd_sync fd t) {}" "lawful mv t (p1_fd_advise fd t) {}"
  unfolding p1_fd_fdstat_get_def p1_fd_fdstat_set_flags_def p1_fd_prestat_get_def p1_fd_prestat_dir_name_def
    p1_fd_sync_def p1_fd_advise_def
  by (auto simp: fd_lookup_def intro!: guards intro: derived_put split: option.split)

lemma lawful_set_rights [lawful_calls]: "lawful mv t (p1_fd_fdstat_set_rights fd b i t) {}"
  unfolding p1_fd_fdstat_set_rights_def
  by (auto simp: fd_lookup_def rights_le_def intro!: guards narrowed_rights intro: derived_put split: option.split)

lemma lawful_file_size:
  assumes "an_entry t e" "e_type e = File" "has e FD_SEEK \<or> has e FD_WRITE \<or> has e FD_ALLOCATE"
    and "\<And>n G. unclosed G \<Longrightarrow> lawful mv t (k n) G" and "unclosed H"
  shows "lawful mv t (file_size (e_handle e) k) H"
  unfolding file_size_def using assms
  by (auto intro!: guards split: reply_kind.split eterm.split)

lemma lawful_seek [lawful_calls]: "lawful mv t (p1_fd_seek fd off whence out t) {}"
  unfolding p1_fd_seek_def Let_def
  by (auto intro!: guards lawful_file_size)

lemma lawful_tell [lawful_calls]: "lawful mv t (p1_fd_tell fd out t) {}"
  unfolding p1_fd_tell_def by (auto intro!: guards)

lemma lawful_stdin_read: "unclosed H \<Longrightarrow> (\<And>b. lawful mv t (k b) H) \<Longrightarrow> lawful mv t (stdin_read dev off want k) H"
  by (auto simp: stdin_read_def split: device.split option.split)

lemma lawful_do_read:
  "an_entry t e \<Longrightarrow> has e FD_READ \<Longrightarrow> unclosed H \<Longrightarrow> lawful mv t (do_read e specs out fd t) H"
  unfolding do_read_def read_done_def
  by (auto intro!: guards lawful_stdin_read split: fd_type.split reply_kind.split eterm.split option.split)

lemma lawful_read [lawful_calls]: "lawful mv t (p1_fd_read fd iovs n out t) {}"
  unfolding p1_fd_read_def by (auto intro!: guards lawful_do_read)

lemma lawful_pread [lawful_calls]: "lawful mv t (p1_fd_pread fd iovs n off out t) {}"
  unfolding p1_fd_pread_def by (auto intro!: guards split: reply_kind.split eterm.split)

lemma lawful_write_stdio: "unclosed H \<Longrightarrow> lawful mv t k H \<Longrightarrow> lawful mv t (write_stdio dev bs k) H"
  by (auto simp: write_stdio_def split: device.split)

lemma lawful_do_write:
  "an_entry t e \<Longrightarrow> has e FD_WRITE \<Longrightarrow> unclosed H \<Longrightarrow> lawful mv t (do_write e bs out fd t) H"
  unfolding do_write_def Let_def
  by (auto intro!: guards lawful_write_stdio lawful_file_size split: fd_type.split reply_kind.split eterm.split)

lemma lawful_write [lawful_calls]: "lawful mv t (p1_fd_write fd iovs n out t) {}"
  unfolding p1_fd_write_def by (auto intro!: guards lawful_do_write)

lemma lawful_pwrite [lawful_calls]: "lawful mv t (p1_fd_pwrite fd iovs n off out t) {}"
  unfolding p1_fd_pwrite_def by (auto intro!: guards split: reply_kind.split eterm.split)

lemma lawful_set_size [lawful_calls]: "lawful mv t (p1_fd_filestat_set_size fd sz t) {}"
  unfolding p1_fd_filestat_set_size_def by (auto intro!: guards)

lemma lawful_allocate [lawful_calls]: "lawful mv t (p1_fd_allocate fd off len t) {}"
  unfolding p1_fd_allocate_def by (auto intro!: guards split: reply_kind.split eterm.split)

lemma guest_name_dot [simp]: "guest_name DOT"
  by (simp add: guest_name_def)

lemma lawful_filestat [lawful_calls]: "lawful mv t (p1_fd_filestat_get fd out t) {}"
  unfolding p1_fd_filestat_get_def Let_def
  by (auto intro!: guards split: fd_type.split reply_kind.split option.split)

lemma lawful_set_times_on:
  "unclosed H \<Longrightarrow> (\<And>a m. licensed t H (rq a m) \<and> gone (rq a m) = {}) \<Longrightarrow> lawful mv t (set_times_on rq atim mtim flags) H"
  by (auto simp: set_times_on_def intro!: guards)

lemma lawful_set_times [lawful_calls]: "lawful mv t (p1_fd_filestat_set_times fd a m fl t) {}"
  unfolding p1_fd_filestat_set_times_def
  by (auto intro!: guards lawful_set_times_on split: fd_type.split)

lemma lawful_readdir [lawful_calls]: "lawful mv t (p1_fd_readdir C fd buf len cookie out t) {}"
  unfolding p1_fd_readdir_def by (auto intro!: guards split: reply_kind.split eterm.split)

subsection \<open>Paths\<close>

lemma lawful_must_be_directory [guards]:
  "an_entry t e \<Longrightarrow> e_type e = Dir \<Longrightarrow> guest_name p \<Longrightarrow> c \<in> call_codes \<Longrightarrow> unclosed H \<Longrightarrow> (\<And>G. unclosed G \<Longrightarrow> lawful mv t k G)
    \<Longrightarrow> lawful mv t (must_be_directory (e_root e) p c k) H"
  unfolding must_be_directory_def by (auto intro!: guards split: reply_kind.split)

lemma lawful_slash [guards]:
  assumes "an_entry t e" "e_type e = Dir" "guest_name p" "unclosed H" "\<And>G. unclosed G \<Longrightarrow> lawful mv t k G"
  shows "lawful mv t (trailing_slash_ok (e_root e) p k) H" "lawful mv t (dest_slash_ok (e_root e) p q k) H"
  using assms by (auto simp: trailing_slash_ok_def dest_slash_ok_def intro!: lawful_must_be_directory)

lemma lawful_mutate_path:
  assumes "\<And>e d p G. an_entry t e \<Longrightarrow> e_type e = Dir \<Longrightarrow> e_root e = Some d \<Longrightarrow> passes e right \<Longrightarrow> guest_name p
      \<Longrightarrow> licensed t G (rq d p) \<and> gone (rq d p) = {}"
  shows "lawful mv t (mutate_path slash right rq dirfd ptr len t) {}"
  unfolding mutate_path_def Let_def using assms
  by (auto simp: passes_def intro!: guards)

lemma lawful_mutations [lawful_calls]:
  "lawful mv t (p1_path_create_directory dirfd ptr len t) {}"
  "lawful mv t (p1_path_unlink_file dirfd ptr len t) {}"
  "lawful mv t (p1_path_remove_directory dirfd ptr len t) {}"
  unfolding p1_path_create_directory_def p1_path_unlink_file_def p1_path_remove_directory_def
  by (auto intro!: lawful_mutate_path guards)

lemma lawful_two_paths:
  assumes "\<And>a b ra rb ga gb G. an_entry t a \<Longrightarrow> e_type a = Dir \<Longrightarrow> e_root a = Some ra \<Longrightarrow> passes a right \<Longrightarrow>
      an_entry t b \<Longrightarrow> e_type b = Dir \<Longrightarrow> e_root b = Some rb \<Longrightarrow> passes b PATH_CREATE_FILE \<Longrightarrow>
      guest_name ga \<Longrightarrow> guest_name gb \<Longrightarrow> licensed t G (rq ra ga rb gb) \<and> gone (rq ra ga rb gb) = {}"
  shows "lawful mv t (two_paths right rq fa pa la fb pb lb t) {}"
  unfolding two_paths_def using assms
  by (auto simp: passes_def intro!: guards)

lemma lawful_rename_link [lawful_calls]:
  "lawful mv t (p1_path_rename fa pa la fb pb lb t) {}" "lawful mv t (p1_path_link fa fl pa la fb pb lb t) {}"
  unfolding p1_path_rename_def p1_path_link_def
  by (auto intro!: lawful_two_paths guards)

lemma lawful_symlink [lawful_calls]: "lawful mv t (p1_path_symlink tp tn fd p l t) {}"
  unfolding p1_path_symlink_def by (auto simp: passes_def intro!: guards)

lemma lawful_readlink [lawful_calls]: "lawful mv t (p1_path_readlink fd p l buf bl out t) {}"
  unfolding p1_path_readlink_def Let_def by (auto intro!: guards split: reply_kind.split eterm.split)

lemma lawful_path_filestat [lawful_calls]:
  "lawful mv t (p1_path_filestat_get fd fl p l out t) {}"
  "lawful mv t (p1_path_filestat_set_times fd fl p l a m ff t) {}"
  unfolding p1_path_filestat_get_def p1_path_filestat_set_times_def
  by (auto simp: passes_def intro!: guards lawful_set_times_on split: reply_kind.split)

lemma lawful_open_file:
  assumes "an_entry t d" "e_type d = Dir" "guest_name p" "unclosed H"
  shows "lawful mv t (open_file d p ofl ff (r AND e_inheriting d) follow out t) H"
proof -
  have e: "opened_below d (insert (Opened h) G) ((new_fd File 4)\<lparr>e_rights := r AND e_inheriting d AND e_inheriting d,
      e_inheriting := e_inheriting d, e_handle := Some h, e_append := a, e_syncflags := s\<rparr>)" for G h a s
    by (simp add: opened_below_def new_fd_def)
  show ?thesis
    using assms lawful_emit_fd [OF assms(1,2) e] unfolding open_file_def Let_def fd_add_def
    by (auto simp: passes_def has_def fs_modes_def intro!: guards split: reply_kind.split) 
qed

lemma lawful_add_dir_fd:
  assumes "an_entry t d" "e_type d = Dir" "unclosed H"
  shows "lawful mv t (add_dir_fd d full (r AND e_inheriting d) out t) H"
proof -
  have e: "opened_below d (insert (Opened h) G) ((new_fd Dir 3)\<lparr>e_rights := (r AND e_inheriting d) AND e_inheriting d AND RIGHTS_DIR_WRITE,
      e_inheriting := e_inheriting d, e_host_path := Some f, e_root := Some h\<rparr>)" for G h f
    by (simp add: opened_below_def new_fd_def rights_le_bits bit_and_iff)
  show ?thesis
    using assms lawful_emit_fd [OF assms(1,2) e] unfolding add_dir_fd_def fd_add_def
    by (auto intro!: guards split: reply_kind.split) 
qed

lemma lawful_open_at:
  assumes "an_entry t d" "e_type d = Dir" "guest_name p" "unclosed H"
  shows "lawful mv t (open_at d p ofl ff (r AND e_inheriting d) follow out t) H"
  using assms unfolding open_at_def open_at_1_def Let_def
  by (auto intro!: guards lawful_open_file lawful_add_dir_fd
      split: option.split sum.split reply_kind.split)

lemma lawful_path_open [lawful_calls]: "lawful mv t (p1_path_open fd df p l ofl b i ff out t) {}"
  unfolding p1_path_open_def by (auto intro!: guards lawful_open_at)

lemma handle_call_lawful: "lawful (moves c) t (handle_call C c t) {}"
  by (cases c) (simp_all add: lawful_calls)

end
