(* ===== verification/P1_Rights.thy ===== *)
theory P1_Rights
  imports P1_Lawful
begin

text \<open>
  What the rights of a descriptor table promise. Each call asks \<^verbatim>\<open>wasi_fs\<close> only what a right of one of its
  descriptors allows; over a guest's whole life no right appears that was not there at first; and so a
  guest whose directories were granted for reading changes nothing. None of this depends on the host: the
  kernel, the resolver and the files may do as they like.
\<close>

subsection \<open>One call\<close>

lemma dispatch_lawful:
  assumes "dispatch K dw E C c t M = Some (e, t', M')"
  obtains l where "asked M' = asked M @ l" "admitted (licensed t) {} l" "derived (moves c) t (marks l) t'"
    "parted t (marks l) t'" "e \<in> call_codes" "fs_run K dw (map (Inl \<circ> fst) l) (nif M) = Some (nif M')"
proof -
  obtain r where run: "perform K dw E (handle_call C c t) M = Some (r, M')" and t': "(e, t') = settle t r"
    using assms by (auto simp: dispatch_def)
  obtain l where l: "asked M' = asked M @ l" "admitted (licensed t) {} l" "ends_well (moves c) t (marks l) r"
      "fs_run K dw (map (Inl \<circ> fst) l) (nif M) = Some (nif M')"
    using perform_guarded [OF run handle_call_lawful] by auto
  have "derived (moves c) t (marks l) t'" "e \<in> call_codes"
    using l(3) t' derived_refl by (cases r; simp)+
  moreover have "parted t (marks l) t'"
    using l(3) t' by (cases r) auto
  ultimately show thesis using that l(1,2,4) by (simp add: comp_def)
qed

lemma dispatch_returns:
  assumes "\<And>w d p m. resolves E w d p m \<noteq> None"
  shows "\<exists>e t' M'. dispatch K dw E C c t M = Some (e, t', M')"
proof -
  have "\<forall>h. rq \<noteq> Rq_list h" if "licensed t G rq" for G rq using that by auto
  from perform_returns [OF this assms handle_call_lawful] show ?thesis by (fastforce simp: dispatch_def)
qed

lemma p1_run_returns:
  assumes "\<And>w d p m. resolves E w d p m \<noteq> None"
  shows "\<exists>rs t' M'. p1_run K dw E C es t M = Some (rs, t', M')"
proof (induction es arbitrary: t M)
  case (Cons ev es)
  show ?case
  proof (cases ev)
    case (Inl c)
    obtain e t1 M1 where "dispatch K dw E C c t M = Some (e, t1, M1)" using dispatch_returns [OF assms] by blast
    with Cons.IH [of t1 M1] Inl show ?thesis by auto
  qed (use Cons.IH in simp)
qed simp

subsection \<open>Bounds\<close>

text \<open>Directories and files have no right outside \<open>B\<close>, and pass none down.\<close>

definition bounded :: "int \<Rightarrow> fd_table \<Rightarrow> bool" where
  "bounded B t \<longleftrightarrow>
     (\<forall>e. an_entry t e \<longrightarrow> e_type e \<noteq> Stdio \<longrightarrow> rights_le (e_rights e) B \<and> rights_le (e_inheriting e) B)"

lemma bounded_derived: "bounded B t \<Longrightarrow> derived mv t H t' \<Longrightarrow> bounded B t'"
  unfolding bounded_def
proof (intro allI impI)
  fix e' assume B: "\<forall>e. an_entry t e \<longrightarrow> e_type e \<noteq> Stdio \<longrightarrow> rights_le (e_rights e) B \<and> rights_le (e_inheriting e) B"
    and d: "derived mv t H t'" and e': "an_entry t' e'" and ty: "e_type e' \<noteq> Stdio"
  from d e' consider e where "an_entry t e" "narrowed e e'"
    | e where "an_entry t e" "e_type e = Dir" "opened_below e H e'"
    unfolding derived_def kept_entry_def new_entry_def an_entry_def by metis
  then show "rights_le (e_rights e') B \<and> rights_le (e_inheriting e') B"
  proof cases
    case 1
    with B ty show ?thesis by (auto simp: narrowed_def intro: rights_le_trans)
  next
    case 2
    with B have "rights_le (e_inheriting e) B" by simp
    with 2 show ?thesis by (auto simp: opened_below_def intro: rights_le_trans)
  qed
qed

text \<open>A run, call by call.\<close>

lemma p1_run_keeps:
  assumes "p1_run K dw E C es t M = Some (rs, t', M')"
    and "\<And>c t H t'. Inl c \<in> set es \<Longrightarrow> I t \<Longrightarrow> derived (moves c) t H t' \<Longrightarrow> I t'"
    and "\<And>t rq H. I t \<Longrightarrow> licensed t H rq \<Longrightarrow> Q rq"
    and "I t"
  shows "I t' \<and> (\<exists>l. asked M' = asked M @ l \<and> (\<forall>(rq, r) \<in> set l. Q rq))"
  using assms(1,2,4)
proof (induction es arbitrary: rs t M)
  case Nil
  then show ?case by auto
next
  case (Cons ev es)
  have keep: "I t'" if "Inl c \<in> set es" "I t" "derived (moves c) t H t'" for c t H t'
    by (rule Cons.prems(2) [OF _ that(2,3)]) (use that(1) in simp)
  show ?case
  proof (cases ev)
    case (Inl c)
    with Cons.prems(1) obtain e t1 M1 rs1 where step: "dispatch K dw E C c t M = Some (e, t1, M1)"
      and rest: "p1_run K dw E C es t1 M1 = Some (rs1, t', M')"
      by (auto split: option.splits)
    from step obtain l where l: "asked M1 = asked M @ l" "admitted (licensed t) {} l" "derived (moves c) t (marks l) t1"
      by (rule dispatch_lawful)
    have "\<forall>(rq, r) \<in> set l. Q rq"
      by (rule admitted_mono [OF l(2)]) (rule assms(3) [OF Cons.prems(3)])
    moreover have "I t1" using Cons.prems(2) [OF _ Cons.prems(3) l(3)] Inl by simp
    ultimately show ?thesis using Cons.IH [OF rest keep] l(1) by fastforce
  next
    case (Inr i)
    with Cons.prems(1) obtain s where "p1_run K dw E C es t (M\<lparr>nif := s\<rparr>) = Some (rs, t', M')" by simp
    from Cons.IH [OF this keep Cons.prems(3)] show ?thesis by simp
  qed
qed

subsection \<open>Reading only\<close>

text \<open>The rights that allow a change: of contents, sizes, times or names.\<close>

definition RIGHTS_CHANGE :: int where
  "RIGHTS_CHANGE = FD_WRITE OR FD_ALLOCATE OR FD_FILESTAT_SET_SIZE OR FD_FILESTAT_SET_TIMES OR PATH_CREATE_DIRECTORY
     OR PATH_CREATE_FILE OR PATH_FILESTAT_SET_SIZE OR PATH_FILESTAT_SET_TIMES OR PATH_REMOVE_DIRECTORY
     OR PATH_UNLINK_FILE"

definition read_only :: "fd_table \<Rightarrow> bool" where
  "read_only t \<longleftrightarrow>
     (\<forall>e. an_entry t e \<longrightarrow> e_type e \<noteq> Stdio \<longrightarrow>
        e_rights e AND RIGHTS_CHANGE = 0 \<and> e_inheriting e AND RIGHTS_CHANGE = 0)"

text \<open>The requests that change nothing.\<close>

fun observing :: "fs_req \<Rightarrow> bool" where
  "observing (Rq_open d p modes) = (set modes \<subseteq> {Read, Exclusive, Follow})"
| "observing (Rq_mkdir d p) = False"
| "observing (Rq_unlink d p) = False"
| "observing (Rq_rmdir d p) = False"
| "observing (Rq_symlink d p tgt) = False"
| "observing (Rq_set_times d p a m follow) = False"
| "observing (Rq_rename d1 p1 d2 p2) = False"
| "observing (Rq_link d1 p1 d2 p2) = False"
| "observing (Rq_pwrite h off bs) = False"
| "observing (Rq_truncate h n) = False"
| "observing (Rq_set_times_fd h a m) = False"
| "observing rq = True"

lemma read_only_bounded: "read_only t \<longleftrightarrow> bounded (NOT RIGHTS_CHANGE) t"
  by (auto simp: read_only_def bounded_def rights_le_def)

lemma changing_rights:
  "rights_le FD_WRITE RIGHTS_CHANGE" "rights_le FD_ALLOCATE RIGHTS_CHANGE" "rights_le FD_FILESTAT_SET_SIZE RIGHTS_CHANGE"
  "rights_le FD_FILESTAT_SET_TIMES RIGHTS_CHANGE" "rights_le PATH_CREATE_DIRECTORY RIGHTS_CHANGE"
  "rights_le PATH_CREATE_FILE RIGHTS_CHANGE" "rights_le PATH_FILESTAT_SET_SIZE RIGHTS_CHANGE"
  "rights_le PATH_FILESTAT_SET_TIMES RIGHTS_CHANGE" "rights_le PATH_REMOVE_DIRECTORY RIGHTS_CHANGE"
  "rights_le PATH_UNLINK_FILE RIGHTS_CHANGE"
  by (simp_all add: RIGHTS_CHANGE_def rights_le_bits bit_or_iff)

lemma without_change: "a AND RIGHTS_CHANGE = 0 \<Longrightarrow> rights_le r RIGHTS_CHANGE \<Longrightarrow> a AND r = 0"
  by (auto simp: rights_le_bits bit_eq_iff bit_and_iff)

lemma read_only_through:
  assumes "read_only t" "rights_le r RIGHTS_CHANGE"
  shows "through_file t h (\<lambda>e. has e r) \<longleftrightarrow> False" "through_dir t d (\<lambda>e. passes e r) \<longleftrightarrow> False"
    and "an_entry t e \<Longrightarrow> e_type e \<noteq> Stdio \<Longrightarrow> \<not> has e r \<and> \<not> passes e r"
  using assms without_change
  by (auto simp: through_file_def through_dir_def has_def passes_def read_only_def)

lemma read_only_observes: "read_only t \<Longrightarrow> licensed t H rq \<Longrightarrow> observing rq"
proof (cases rq)
  case (Rq_open d p modes)
  moreover assume "read_only t" "licensed t H rq"
  ultimately show ?thesis
    using read_only_through(3) [OF _ changing_rights(6)] by (auto simp: through_dir_def)
next
  case (Rq_set_times d p a m fo)
  moreover assume "read_only t" "licensed t H rq"
  ultimately show ?thesis
    using read_only_through(3) [OF _ changing_rights(8)] read_only_through(3) [OF _ changing_rights(4)]
    by (auto simp: through_dir_def)
next
  case (Rq_truncate h n)
  moreover assume "read_only t" "licensed t H rq"
  ultimately show ?thesis
    using read_only_through(3) [OF _ changing_rights(3)] read_only_through(3) [OF _ changing_rights(2)]
    by (auto simp: through_file_def)
qed (auto simp: read_only_through changing_rights)

subsection \<open>The first table\<close>

text \<open>An entry that the configuration gives, with the rights of its access.\<close>

definition configured :: "(bytes \<times> eterm \<times> bool) list \<Rightarrow> wasi_fd \<Rightarrow> bool" where
  "configured ds e \<longleftrightarrow> e_type e = Dir \<and> (\<exists>(g, h, w) \<in> set ds. (e_rights e, e_inheriting e) = preopen_rights w)"

lemma configured_Cons:
  "configured ((g, h, w) # ds) e \<longleftrightarrow>
     configured ds e \<or> e_type e = Dir \<and> (e_rights e, e_inheriting e) = preopen_rights w"
  by (auto simp: configured_def)

lemma preopen_entries_guarded:
  assumes raised: "\<And>G. P G Raised" and asks: "\<And>G h. Q G (Rq_preopen h)"
    and go: "\<And>acc' n G. (\<And>m e. (m, e) \<in> set acc' \<Longrightarrow> (m, e) \<in> set acc \<or> configured ds e) \<Longrightarrow> guarded Q P (k acc' n) G"
  shows "guarded Q P (preopen_entries ds acc fd k) H"
  using go
proof (induction ds arbitrary: acc fd H)
  case Nil
  then show ?case by simp
next
  case (Cons d ds)
  obtain g h w where d: "d = (g, h, w)" by (cases d)
  have err: "guarded Q P (preopen_entries ds acc n k) G" for n G
  proof (rule Cons.IH)
    fix acc' n G assume "\<And>m e. (m, e) \<in> set acc' \<Longrightarrow> (m, e) \<in> set acc \<or> configured ds e"
    then show "guarded Q P (k acc' n) G" by (intro Cons.prems) (auto simp: d configured_Cons)
  qed
  have new: "guarded Q P (preopen_entries ds ((fd, e) # acc) n k) G"
    if e: "e_type e = Dir" "(e_rights e, e_inheriting e) = preopen_rights w" for n e G
  proof (rule Cons.IH)
    fix acc' n G assume "\<And>m e'. (m, e') \<in> set acc' \<Longrightarrow> (m, e') \<in> set ((fd, e) # acc) \<or> configured ds e'"
    then show "guarded Q P (k acc' n) G" by (intro Cons.prems) (use e in \<open>auto simp: d configured_Cons\<close>)
  qed
  show ?case
    unfolding d preopen_entries.simps
    by (intro guarded_ask asks raised)
      (auto simp: on_handle_def new_fd_def raised intro!: err new split: reply_kind.split option.split)
qed

lemma initial_state_guarded:
  assumes "\<And>G. P G Raised" and "\<And>G h. Q G (Rq_preopen h)"
    and "\<And>G t. baseline t = dom (fds t)
        \<Longrightarrow> (\<And>fd e. fds t fd = Some e \<Longrightarrow> e_type e = Stdio \<or> configured (dirs C) e) \<Longrightarrow> P G (Saved ESUCCESS t)"
  shows "guarded Q P (initial_state C) H"
  unfolding initial_state_def Let_def
proof (rule preopen_entries_guarded)
  show "P G Raised" for G by (rule assms(1))
  show "Q G (Rq_preopen h)" for G h by (rule assms(2))
  fix acc :: "(int \<times> wasi_fd) list" and n G
  assume acc: "\<And>m e. (m, e) \<in> set acc \<Longrightarrow> (m, e) \<in> set [] \<or> configured (dirs C) e"
  let ?all = "[(0, stdio_entry (stdin C) FD_READ), (1, stdio_entry (stdout C) FD_WRITE),
      (2, stdio_entry (stderr C) FD_WRITE)] @ acc"
  have "e_type e = Stdio \<or> configured (dirs C) e" if "map_of ?all fd = Some e" for fd e
    using map_of_SomeD [OF that] acc by (auto simp: stdio_entry_def new_fd_def)
  then show "guarded Q P (Done (Saved ESUCCESS \<lparr>fds = map_of ?all, next_fd = n, baseline = fst ` set ?all\<rparr>)) G"
    unfolding guarded.simps by (intro assms(3)) (auto simp only: fd_table.simps dom_map_of_conv_image_fst)
qed

lemma read_only_configured:
  assumes "\<forall>(g, h, w) \<in> set ds. \<not> w" and "configured ds e"
  shows "e_rights e AND RIGHTS_CHANGE = 0 \<and> e_inheriting e AND RIGHTS_CHANGE = 0"
proof -
  have "fst (preopen_rights False) AND RIGHTS_CHANGE = 0" "snd (preopen_rights False) AND RIGHTS_CHANGE = 0"
    by (simp_all add: RIGHTS_CHANGE_def RIGHTS_DIR_READ_def RIGHTS_FILE_READ_def right_defs)
  moreover have "(e_rights e, e_inheriting e) = preopen_rights False"
    using assms by (auto simp: configured_def)
  ultimately show ?thesis by (metis fst_conv snd_conv)
qed

lemma read_only_start:
  assumes "\<forall>(g, h, w) \<in> set (dirs C). \<not> w"
  shows "guarded (\<lambda>_. observing) (\<lambda>_ r. \<forall>e t. r = Saved e t \<longrightarrow> read_only t) (initial_state C) H"
  by (rule initial_state_guarded) (auto simp: read_only_def an_entry_def dest: read_only_configured [OF assms])

subsection \<open>A sample\<close>

text \<open>An instance with one preopen, \<^verbatim>\<open>/\<close>, over the kernel in memory, and a path in its memory.\<close>

definition sample_env :: "mem env" where
  "sample_env = \<lparr>resolves = (\<lambda>w d p m. Some (Inr (TBin (SLASH # p)))), classifies = (\<lambda>w d. Regular),
     clock = (\<lambda>w. 0), takes = (\<lambda>w d bs. True), gives = (\<lambda>w n k. None)\<rparr>"

definition sample_config :: "bool \<Rightarrow> p1_config" where
  "sample_config writable = \<lparr>stdin = No_device, stdout = Process 1, stderr = No_device,
     dirs = [(bytes_of ''/'', TList [TInt 47], writable)], readdir_batch_bytes = 1048576\<rparr>"

definition sample_machine :: "mem machine" where
  "sample_machine = \<lparr>nif = \<lparr>kern = sample, handles = []\<rparr>, memory = bytes_of ''a/b'' @ replicate 60 0, asked = []\<rparr>"

definition sample_dir :: "bool \<Rightarrow> wasi_fd" where
  "sample_dir writable = (new_fd Dir 3)\<lparr>e_rights := fst (preopen_rights writable),
     e_inheriting := snd (preopen_rights writable), e_host_path := Some (TList [TInt 47]), e_root := Some 0,
     e_guest_path := Some [SLASH], e_preopen := True\<rparr>"

definition sample_table :: "bool \<Rightarrow> fd_table" where
  "sample_table writable = \<lparr>fds = [3 \<mapsto> sample_dir writable, 2 \<mapsto> stdio_entry No_device FD_WRITE,
     1 \<mapsto> stdio_entry (Process 1) FD_WRITE, 0 \<mapsto> stdio_entry No_device FD_READ],
     next_fd = 4, baseline = {0, 1, 2, 3}\<rparr>"

definition sample_started :: "mem machine" where
  "sample_started = \<lparr>nif = snd (the (fs_preopen mem_kernel (TList [TInt 47]) (nif sample_machine))),
     memory = memory sample_machine, asked = [(Rq_preopen (TList [TInt 47]), Ret (mk_ok (native (TRes 0))))]\<rparr>"

lemma sample_preopen:
  "fs_preopen mem_kernel (TList [TInt 47]) (nif sample_machine)
    = Some (Ret (mk_ok (native (TRes 0))), nif sample_started)"
  by (simp add: sample_started_def sample_machine_def fs_preopen_def nif_case_def open_dir_nif_def finish_open_def
      new_handle_def sys_def cstr_def give_fd_def MAX_PATH_LEN_def mk_ok_def sample_simps)

lemma sample_start:
  "perform mem_kernel False sample_env (initial_state (sample_config w)) sample_machine
    = Some (Saved ESUCCESS (sample_table w), sample_started)"
  by (simp add: initial_state_def sample_config_def ask_def sample_preopen on_handle_def sample_table_def sample_dir_def
      mk_ok_def native_def bytes_of_def) (simp add: sample_started_def sample_machine_def mk_ok_def native_def insert_commute)

lemma sample_env_resolves: "resolves sample_env w d p m \<noteq> None"
  by (simp add: sample_env_def)

lemma bounded_sample: "bounded (RIGHTS_DIR_READ OR RIGHTS_FILE_READ) (sample_table False)"
  by (auto simp: bounded_def an_entry_def sample_table_def sample_dir_def stdio_entry_def new_fd_def
      rights_le_bits bit_or_iff split: if_splits)

subsection \<open>The properties\<close>



text \<open>
  C7. Rights never grow. If the directories and files of a table have no right outside \<open>B\<close> and pass none
  down, then after any sequence of system calls they still do not, whatever rights the guest asked for,
  and whatever the host answered.
\<close>

theorem rights_never_grow:
  assumes "p1_run K dw E C es t M = Some (rs, t', M')" and "bounded B t"
  shows "bounded B t'"
  using p1_run_keeps [where I = "bounded B" and Q = "\<lambda>_. True", OF assms(1) _ _ assms(2)] bounded_derived by blast

theorem rights_never_grow_witness:
  "bounded (RIGHTS_DIR_READ OR RIGHTS_FILE_READ)
     (fst (snd (the (p1_run mem_kernel False sample_env 1048576
        [Inl (Path_open 3 0 0 3 0 (- 1) (- 1) 0 8), Inl (Fd_fdstat_set_rights 4 FD_WRITE 0), Inl (Fd_renumber 4 1)]
        (sample_table False) sample_started))))"
proof -
  let ?es = "[Inl (Path_open 3 0 0 3 0 (- 1) (- 1) 0 8), Inl (Fd_fdstat_set_rights 4 FD_WRITE 0), Inl (Fd_renumber 4 1)]"
  obtain rs t' M' where run: "p1_run mem_kernel False sample_env 1048576 ?es (sample_table False) sample_started
      = Some (rs, t', M')"
    using p1_run_returns [OF sample_env_resolves] by blast
  from rights_never_grow [OF run bounded_sample] run show ?thesis by simp
qed

text \<open>
  C8. A grant for reading stays one. Let every directory of the configuration be granted without write access.
  Then in the whole life of the guest nothing is asked of \<^verbatim>\<open>wasi_fs\<close> that changes a file or a directory: no
  name is made, removed or moved, nothing is written, cut or stamped, and files are opened for reading
  without creating or truncating them.
\<close>

theorem read_only_grants_change_nothing:
  assumes "\<forall>(g, h, w) \<in> set (dirs Cfg). \<not> w" and "asked M0 = []"
    and "perform K dw E (initial_state Cfg) M0 = Some (Saved e t, M1)"
    and "p1_run K dw E (readdir_batch_bytes Cfg) es t M1 = Some (rs, t', M2)"
  shows "\<forall>(rq, r) \<in> set (asked M2). observing rq"
proof -
  obtain l where l: "asked M1 = l" "admitted (\<lambda>_. observing) {} l" and t: "read_only t"
    using perform_guarded [OF assms(3) read_only_start [OF assms(1)]] assms(2) by auto
  have "\<forall>(rq, r) \<in> set l. observing rq" by (rule admitted_mono [OF l(2)])
  moreover have "\<exists>l'. asked M2 = asked M1 @ l' \<and> (\<forall>(rq, r) \<in> set l'. observing rq)"
    using p1_run_keeps [OF assms(4), of read_only observing] t
    by (auto simp: read_only_bounded bounded_derived intro: read_only_observes [unfolded read_only_bounded])
  ultimately show ?thesis using l(1) by auto
qed

theorem read_only_grants_change_nothing_witness:
  "list_all (\<lambda>q. observing (fst q)) (asked (snd (snd (the (p1_run mem_kernel False sample_env 1048576
      [Inl (Path_open 3 0 0 3 1 (- 1) (- 1) 0 8), Inl (Path_unlink_file 3 0 3), Inl (Path_rename 3 0 3 3 0 1)]
      (sample_table False) sample_started)))))"
proof -
  let ?es = "[Inl (Path_open 3 0 0 3 1 (- 1) (- 1) 0 8), Inl (Path_unlink_file 3 0 3), Inl (Path_rename 3 0 3 3 0 1)]"
  obtain rs t' M2 where run: "p1_run mem_kernel False sample_env (readdir_batch_bytes (sample_config False)) ?es
      (sample_table False) sample_started = Some (rs, t', M2)"
    using p1_run_returns [OF sample_env_resolves] by blast
  have "\<forall>(g, h, w) \<in> set (dirs (sample_config False)). \<not> w" by (simp add: sample_config_def)
  moreover have "asked sample_machine = []" by (simp add: sample_machine_def)
  ultimately have "\<forall>(rq, r) \<in> set (asked M2). observing rq"
    by (rule read_only_grants_change_nothing [OF _ _ sample_start run])
  with run show ?thesis by (simp add: sample_config_def list_all_iff case_prod_beta)
qed

text \<open>
  C13. Every call is answered. Where the resolver returns, a system call returns a code of
  \<^verbatim>\<open>include/wasi.hrl\<close>, whatever its arguments are: success, an error of its own, one that \<^verbatim>\<open>wasi_fs\<close> mapped, or EIO
  for what was raised below it.
\<close>

theorem every_call_is_answered:
  assumes "\<And>w d p m. resolves E w d p m \<noteq> None"
  shows "\<exists>e t' M'. dispatch K dw E C c t M = Some (e, t', M') \<and> e \<in> call_codes"
  using dispatch_returns [OF assms] by (metis dispatch_lawful)

theorem every_call_is_answered_witness:
  "fst (the (dispatch mem_kernel False sample_env 1048576 (Fd_filestat_set_size 3 (2 ^ 64)) (sample_table True)
      sample_started)) \<in> call_codes"
  using every_call_is_answered [OF sample_env_resolves, of mem_kernel False 1048576 "Fd_filestat_set_size 3 (2 ^ 64)"
      "sample_table True" sample_started] by auto

end
