(* ===== verification/P1_Snapshot.thy ===== *)
theory P1_Snapshot
  imports P1_Rights
begin

text \<open>
  Two promises of \<^verbatim>\<open>wasi_preview1.erl\<close> about its table. The snapshot hook lets an instance be captured only
  while exactly the baseline is open; it compares numbers, which is enough as long as none is reused, and
  \<^verbatim>\<open>fd_renumber\<close> reuses them. And a descriptor may be narrowed before it is handed on; the system calls on
  paths do not look at what is narrowed.
\<close>

subsection \<open>Eligible tables\<close>

lemma untouched_step:
  assumes "derived {} t H t'" and "next_fd t0 \<le> next_fd t"
    and "\<And>fd e. fds t fd = Some e \<Longrightarrow> fd < next_fd t0 \<Longrightarrow> \<exists>e0. fds t0 fd = Some e0 \<and> narrowed e0 e"
    and "fds t' fd = Some e'" and "fd < next_fd t0"
  shows "\<exists>e0. fds t0 fd = Some e0 \<and> narrowed e0 e'"
proof -
  from assms(1,2,4,5) obtain e where "fds t fd = Some e" "narrowed e e'"
    unfolding derived_def kept_entry_def by fastforce
  with assms(3) [OF this(1) assms(5)] show ?thesis
    by (auto simp: narrowed_def intro: rights_le_trans)
qed

text \<open>
  C27. Without \<^verbatim>\<open>fd_renumber\<close> an eligible table is the one the configuration built: under every number is the
  entry that was there, with its handle, its paths and at most its rights, and no other entry.
\<close>

theorem eligible_is_untouched:
  assumes "p1_run K dw E C es t M = Some (rs, t', M')"
    and "\<forall>src dst. Inl (Fd_renumber src dst) \<notin> set es"
    and "baseline t = dom (fds t)" and "\<forall>fd \<in> dom (fds t). fd < next_fd t"
    and "eligible t'"
  shows "rel_option narrowed (fds t fd) (fds t' fd)"
proof -
  define I where "I u \<longleftrightarrow> baseline u = dom (fds t) \<and> next_fd t \<le> next_fd u
      \<and> (\<forall>fd e. fds u fd = Some e \<longrightarrow> fd < next_fd t \<longrightarrow> (\<exists>e0. fds t fd = Some e0 \<and> narrowed e0 e))" for u :: fd_table
  have "I t" by (auto simp: I_def assms(3))
  moreover have "I u'" if "Inl c \<in> set es" "I u" and d: "derived (moves c) u H u'" for c u H u'
  proof -
    from that(1) assms(2) have "moves c = {}" by (cases c) auto
    with d have "derived {} u H u'" by simp
    from untouched_step [OF this, of t] that(2) d show ?thesis
      unfolding I_def by (auto simp: derived_def)
  qed
  ultimately have I: "I t'" using p1_run_keeps [OF assms(1), of I "\<lambda>_. True"] by blast
  show ?thesis
  proof (cases "fds t' fd")
    case None
    with I assms(5) show ?thesis by (auto simp: I_def eligible_def domIff)
  next
    case (Some e)
    with I assms(4,5) obtain e0 where "fds t fd = Some e0" "narrowed e0 e"
      unfolding I_def eligible_def by (metis domI)
    with Some show ?thesis by simp
  qed
qed

theorem eligible_is_untouched_witness:
  "rel_option narrowed (fds (sample_table True) 3)
     (fds (fst (snd (the (p1_run mem_kernel False sample_env 1048576 [Inl (Fd_fdstat_set_rights 3 0 0)]
        (sample_table True) sample_started)))) 3)"
proof -
  let ?t = "sample_table True"
  obtain rs t' M' where run: "p1_run mem_kernel False sample_env 1048576 [Inl (Fd_fdstat_set_rights 3 0 0)] ?t sample_started
      = Some (rs, t', M')"
    using p1_run_returns [OF sample_env_resolves] by blast
  have dom: "dom (fds ?t) = {0, 1, 2, 3}" by (auto simp: sample_table_def split: if_splits)
  have "eligible t'"
    using run dom
    by (auto simp: dispatch_def p1_fd_fdstat_set_rights_def fd_lookup_def fd_put_def eligible_def sample_table_def
        split: if_splits)
  with eligible_is_untouched [OF run, of 3] run dom show ?thesis by (simp add: sample_table_def)
qed

lemma guarded_close_entry:
  assumes "\<And>G. P G Raised" and "\<And>G rq. Q G rq" and "\<And>G. guarded Q P k G"
  shows "guarded Q P (close_entry e k) H"
  using assms by (simp add: close_entry_def guarded_ask split: fd_type.split option.split)

text \<open>
  C28. With it one may not be. A file that the guest opened and moves onto the number of a preopen (or of a
  stream) replaces it, and the table counts as the baseline again: a capture is allowed, and the restored
  instance has a preopen where this one has a file.
\<close>

theorem renumbered_file_passes_for_baseline:
  assumes "fds t src = Some e" and "\<not> e_preopen e" and "src \<notin> baseline t"
    and "dom (fds t) = insert src (baseline t)" and "dst \<in> baseline t"
    and "dispatch K dw E C (Fd_renumber src dst) t M = Some (ESUCCESS, t', M')"
  shows "eligible t' \<and> fds t' dst = Some e"
proof -
  have "src \<noteq> dst" using assms(3,5) by blast
  let ?t = "fd_remove (fd_put t dst e) src"
  have "dom (fds ?t) = baseline t"
    using assms(3-5) by (auto simp: fd_remove_def fd_put_def dom_def split: if_splits)
  then have good: "eligible ?t" "fds ?t dst = Some e"
    using \<open>src \<noteq> dst\<close> by (simp_all add: eligible_def fd_remove_def fd_put_def)
  obtain old where old: "fds t dst = Some old" using assms(4,5) by blast
  have "guarded (\<lambda>_ _. True) (\<lambda>_ r. r = Raised \<or> r = Saved ESUCCESS ?t) (handle_call C (Fd_renumber src dst) t) {}"
    using assms(1,2) old
    by (simp add: p1_fd_renumber_def fd_lookup_def guarded_close_entry)
  moreover obtain r where run: "perform K dw E (handle_call C (Fd_renumber src dst) t) M = Some (r, M')"
    and r: "fst (settle t r) = ESUCCESS" "t' = snd (settle t r)"
    using assms(6) by (auto simp: dispatch_def)
  ultimately have "r = Raised \<or> r = Saved ESUCCESS ?t" using perform_guarded [OF run] by fast
  with r good show ?thesis by auto
qed

definition sample_opened :: fd_table where
  "sample_opened = (sample_table True)\<lparr>fds := (fds (sample_table True))(4 \<mapsto> (new_fd File 4)\<lparr>e_handle := Some 1\<rparr>),
     next_fd := 5\<rparr>"

theorem renumbered_file_passes_for_baseline_witness:
  "\<exists>t' M'. dispatch mem_kernel False sample_env 1048576 (Fd_renumber 4 1) sample_opened sample_started
       = Some (ESUCCESS, t', M') \<and> eligible t' \<and> e_type (the (fds t' 1)) = File"
proof -
  obtain t' M' where run: "dispatch mem_kernel False sample_env 1048576 (Fd_renumber 4 1) sample_opened sample_started
      = Some (ESUCCESS, t', M')"
    by (simp add: dispatch_def p1_fd_renumber_def fd_lookup_def close_entry_def sample_opened_def sample_table_def
        stdio_entry_def new_fd_def)
  have "eligible t' \<and> fds t' 1 = Some ((new_fd File 4)\<lparr>e_handle := Some 1\<rparr>)"
    by (rule renumbered_file_passes_for_baseline [OF _ _ _ _ _ run])
      (auto simp: sample_opened_def sample_table_def new_fd_def split: if_splits)
  with run show ?thesis by (simp add: new_fd_def)
qed

subsection \<open>Narrowed directories\<close>

lemma with_dir_rights:
  assumes "fds t fd0 = Some e" and "\<And>x r. k (x\<lparr>e_rights := r\<rparr>) = k x"
  shows "with_dir (fd_put t fd0 (e\<lparr>e_rights := r\<rparr>)) fd k = with_dir t fd k"
  using assms by (simp add: with_dir_def fd_lookup_def fd_put_def)

fun path_call :: "wasi_call \<Rightarrow> bool" where
  "path_call (Path_filestat_get d fl p l out) = True"
| "path_call (Path_filestat_set_times d fl p l a m ff) = True"
| "path_call (Path_create_directory d p l) = True"
| "path_call (Path_unlink_file d p l) = True"
| "path_call (Path_remove_directory d p l) = True"
| "path_call (Path_rename fa pa la fb pb lb) = True"
| "path_call (Path_link fa fl pa la fb pb lb) = True"
| "path_call (Path_symlink tp tn d p l) = True"
| "path_call (Path_readlink d p l buf bl out) = True"
| "path_call c = False"

text \<open>
  C29. The rights of a directory descriptor make no difference to the system calls on paths, \<^verbatim>\<open>path_open\<close>
  apart: whatever \<^verbatim>\<open>fd_fdstat_set_rights\<close> left it, even none at all, the call is the same program, and
  with the inheriting rights kept it still removes files and makes directories.
\<close>

theorem path_calls_ignore_rights:
  assumes "path_call c" and "fds t fd = Some e"
  shows "handle_call C c (fd_put t fd (e\<lparr>e_rights := r\<rparr>)) = handle_call C c t"
  using assms(1)
  by (cases c)
    (simp_all add: p1_path_filestat_get_def p1_path_filestat_set_times_def p1_path_create_directory_def
      p1_path_unlink_file_def p1_path_remove_directory_def p1_path_rename_def p1_path_link_def p1_path_symlink_def
      p1_path_readlink_def mutate_path_def two_paths_def with_dir_rights [OF assms(2)] cong: if_cong)

theorem path_calls_ignore_rights_witness:
  "handle_call 0 (Path_unlink_file 3 0 3) (fd_put (sample_table True) 3 ((sample_dir True)\<lparr>e_rights := 0\<rparr>))
    = handle_call 0 (Path_unlink_file 3 0 3) (sample_table True)"
  by (rule path_calls_ignore_rights) (simp_all add: sample_table_def)

end
