(* ===== verification/Nif_Growth.thy ===== *)
theory Nif_Growth
  imports Fs_Requests
begin

text \<open>
  Handles from one call to the next. Nothing but \<^verbatim>\<open>close\<close> and the collector takes a descriptor out of
  a handle or destroys its lock, and a call that answers a new handle answers the next index, open. So a
  handle that is open stays open until it is closed, whatever else is called; \<open>P1_Owners\<close> rests on it.
\<close>

definition open_handle :: "'w nif \<Rightarrow> nat \<Rightarrow> bool" where
  "open_handle s i \<longleftrightarrow> live s i \<and> h_fd (handle s i) \<noteq> None"

definition grown :: "nat set \<Rightarrow> 'w nif \<Rightarrow> 'w nif \<Rightarrow> bool" where
  "grown C s s' \<longleftrightarrow> length (handles s) \<le> length (handles s') \<and>
     (\<forall>i. live s i \<longrightarrow> i \<notin> C \<longrightarrow> live s' i \<and> h_fd (handle s' i) = h_fd (handle s i))"

lemma grown_refl [simp]: "grown C s s"
  by (simp add: grown_def)

lemma grown_trans: "grown C s s' \<Longrightarrow> grown D s' s'' \<Longrightarrow> grown (C \<union> D) s s''"
  by (auto simp: grown_def)

lemma grown_open: "grown C s s' \<Longrightarrow> open_handle s i \<Longrightarrow> i \<notin> C \<Longrightarrow> open_handle s' i"
  by (simp add: grown_def open_handle_def)

lemma grown_handles: "handles s' = handles s \<Longrightarrow> grown C s0 s' \<longleftrightarrow> grown C s0 s"
  by (simp add: grown_def live_def handle_def)

subsection \<open>The parts of a call\<close>

lemma grown_sys [simp]: "grown C s0 (snd (sys f s)) \<longleftrightarrow> grown C s0 s"
  by (rule grown_handles) (simp add: sys_def split_beta)

lemma handles_sys [simp]: "handles (snd (sys f s)) = handles s"
  by (simp add: sys_def split_beta)

lemma grown_sys_do [simp]: "grown C s0 (sys_do f s) \<longleftrightarrow> grown C s0 s"
  by (rule grown_handles) simp

lemma grown_update:
  assumes "grown C s0 s" and "\<And>h. h_fd (f h) = h_fd h" and "\<And>h. h_lock (f h) = No_mutex \<Longrightarrow> h_lock h = No_mutex"
  shows "grown C s0 (upd_handle i f s)"
  using assms by (cases "i < length (handles s)") (auto simp: grown_def live_def handle_def nth_list_update)

lemma grown_elsewhere:
  assumes "grown C s0 s" and "i \<in> C \<or> length (handles s0) \<le> i"
  shows "grown C s0 (upd_handle i f s)"
  using assms by (cases "i < length (handles s)") (auto simp: grown_def live_def handle_def nth_list_update)

lemma grown_mutex [simp]: "grown C s0 s \<Longrightarrow> grown C s0 (mutex_lock i s)" "grown C s0 s \<Longrightarrow> grown C s0 (mutex_unlock i s)"
  unfolding mutex_lock_def mutex_unlock_def by (rule grown_update; simp)+

lemma grown_lock [simp]: "grown C s0 s \<Longrightarrow> grown C s0 (snd (handle_lock i s))"
  by (simp add: handle_lock_def Let_def split: option.split)

lemma grown_locked_call [simp]: "grown C s0 s \<Longrightarrow> grown C s0 (snd (locked_call i g s))"
  by (simp add: locked_call_def split_beta split: sum.split)

lemma grown_set_dirp [simp]: "grown C s0 s \<Longrightarrow> grown C s0 (upd_handle i (h_dirp_update g) s)"
  by (rule grown_update) simp_all

lemma grown_drop_dirp [simp]: "grown C s0 s \<Longrightarrow> grown C s0 (drop_dirp K i s)"
  by (simp add: drop_dirp_def split: option.split)

lemma grown_drop_fd: "grown C s0 s \<Longrightarrow> i \<in> C \<or> length (handles s0) \<le> i \<Longrightarrow> grown C s0 (drop_fd K i s)"
  by (auto simp: drop_fd_def intro: grown_elsewhere split: option.split)

lemma grown_dtor: "grown C s0 s \<Longrightarrow> i \<in> C \<or> length (handles s0) \<le> i \<Longrightarrow> grown C s0 (file_dtor K i s)"
  unfolding file_dtor_def by (intro grown_elsewhere grown_drop_fd grown_drop_dirp)

lemma grown_append: "grown C s0 s \<Longrightarrow> handles s' = handles s @ hs \<Longrightarrow> grown C s0 s'"
  by (auto simp: grown_def live_def handle_def nth_append)

lemma grown_new_handle [simp]: "grown C s0 s \<Longrightarrow> grown C s0 (snd (new_handle K fd d s))"
proof -
  assume g: "grown C s0 s"
  then have n: "length (handles s0) \<le> length (handles s)" by (simp add: grown_def)
  let ?h = "\<lparr>h_lock = No_mutex, h_fd = Some fd, h_is_dir = d, h_dirp = None\<rparr>"
  let ?s1 = "snd (sys (alloc_resource K) s)"
  let ?s2 = "?s1\<lparr>handles := handles ?s1 @ [?h]\<rparr>"
  have "grown C s0 ?s2" by (rule grown_append [OF g]) simp
  then show ?thesis
    using g n by (auto simp: new_handle_def Let_def split_beta intro!: grown_dtor grown_elsewhere split: bool.split)
qed

lemma grown_openers [simp]:
  "grown C s0 s \<Longrightarrow> grown C s0 (snd (dir_dup K i s))" "grown C s0 s \<Longrightarrow> grown C s0 (snd (finish_open K fd d s))"
  by (simp_all add: dir_dup_def finish_open_def split_beta split: sum.split option.split)

lemma grown_open_base [simp]: "grown C s0 s \<Longrightarrow> grown C s0 (snd (open_base K a s))"
  by (simp add: open_base_def split_beta split: option.split sum.split)

subsection \<open>The functions\<close>

lemma grown_openings:
  "grown C s0 s \<Longrightarrow> grown C s0 (snd (open_at_nif K argv s))" "grown C s0 s \<Longrightarrow> grown C s0 (snd (open_dir_nif K argv s))"
  "grown C s0 s \<Longrightarrow> grown C s0 (snd (dup_nif K argv s))"
  by (simp_all add: open_at_nif_def open_dir_nif_def dup_nif_def Let_def split_beta split: list.split option.split sum.split)

lemma grown_path_ops:
  "grown C s0 s \<Longrightarrow> grown C s0 (snd (path_op_nif K argv s))" "grown C s0 s \<Longrightarrow> grown C s0 (snd (path_op2_nif K argv s))"
  by (simp_all add: path_op_nif_def path_op2_nif_def Let_def split_beta split: list.split option.split sum.split)

lemma grown_io:
  "grown C s0 s \<Longrightarrow> grown C s0 (snd (pread_nif K argv s))" "grown C s0 s \<Longrightarrow> grown C s0 (snd (pwrite_nif K argv s))"
  "grown C s0 s \<Longrightarrow> grown C s0 (snd (futimes_nif K argv s))" "grown C s0 s \<Longrightarrow> grown C s0 (snd (fstat_nif K argv s))"
  "grown C s0 s \<Longrightarrow> grown C s0 (snd (ftruncate_nif K argv s))" "grown C s0 s \<Longrightarrow> grown C s0 (snd (fsync_nif K argv s))"
  by (simp_all add: pread_nif_def pwrite_nif_def futimes_nif_def fstat_nif_def ftruncate_nif_def fsync_nif_def
      Let_def split_beta split: list.split option.split sum.split bool.split)

lemma grown_stream [simp]: "grown C s0 s \<Longrightarrow> grown C s0 (snd (open_stream K i f s))"
  by (simp add: open_stream_def split_beta split: option.split sum.split)

lemma grown_batch [simp]: "grown C s0 s \<Longrightarrow> grown C s0 (snd (readdir_batch K d c n s))"
  by (simp add: readdir_batch_def Let_def split_beta split: option.split bool.split)

lemma grown_readdir: "grown C s0 s \<Longrightarrow> grown C s0 (snd (readdir_nif K argv s))"
  by (simp add: readdir_nif_def split_beta split: list.split option.split sum.split)

lemma grown_kern [simp]: "grown C s0 (s\<lparr>kern := w\<rparr>) \<longleftrightarrow> grown C s0 s"
  by (rule grown_handles) simp

lemma grown_names: "readdir_names_nif K argv s = Some y \<Longrightarrow> grown C s0 s \<Longrightarrow> grown C s0 (snd y)"
  by (auto simp: readdir_names_nif_def Let_def split_beta split: list.splits option.splits sum.splits if_splits)

text \<open>What a call closes.\<close>

fun closed_by :: "nif_fun \<Rightarrow> eterm list \<Rightarrow> nat set" where
  "closed_by Close [TRes i] = {i}"
| "closed_by f argv = {}"

lemma grown_close: "grown (closed_by Close argv) s (snd (close_nif K argv s))"
proof (cases "\<exists>i. argv = [TRes i]")
  case True
  then show ?thesis by (auto simp: close_nif_def intro!: grown_mutex(2) grown_drop_fd)
next
  case False
  then have "close_nif K argv s = (Badarg, s)" unfolding close_nif_def
    by (auto split: list.split option.split elim!: get_resource.elims)
  then show ?thesis by simp
qed

lemma run_fun_grown: "run_fun K f argv s = Some (r, s') \<Longrightarrow> grown (closed_by f argv) s s'"
proof (cases f)
  case Close
  moreover assume "run_fun K f argv s = Some (r, s')"
  ultimately show ?thesis using grown_close [of argv s K] by simp
next
  case Readdir_names
  moreover assume "run_fun K f argv s = Some (r, s')"
  ultimately show ?thesis using grown_names by fastforce
qed (auto dest!: arg_cong [where f = snd] simp: grown_openings grown_path_ops grown_io grown_readdir)

subsection \<open>New handles\<close>

text \<open>An answer that names a handle names the next index, which is open.\<close>

declare mk_errno.simps [simp del]

definition hands_out :: "'w nif \<Rightarrow> nif_result \<Rightarrow> bool" where
  "hands_out s r \<longleftrightarrow> (\<forall>i. r = Term (mk_ok (TRes i)) \<longrightarrow> i = length (handles s))"

lemma error_no_handle [simp]: "mk_errno e \<noteq> mk_ok t"
  by (cases e) (auto simp: mk_errno.simps mk_ok_def)

lemma hands_out_other [simp]: "hands_out s Badarg" "hands_out s (Term (mk_errno e))"
  by (simp_all add: hands_out_def)

lemma length_locked [simp]: "length (handles (snd (handle_lock i s))) = length (handles s)"
  by (simp add: handle_lock_def Let_def split: option.split)

lemma length_dup [simp]: "length (handles (snd (dir_dup K i s))) = length (handles s)"
  by (simp add: dir_dup_def split_beta split: sum.split)

lemma open_base_parts [simp]:
  "length (handles (snd (open_base K a s))) = length (handles s)" "fst (open_base K a s) = Inl x \<Longrightarrow> hands_out s x"
  by (auto simp: open_base_def split_beta split: option.splits sum.splits prod.splits)

lemma new_handle_next: "fst (new_handle K fd d s) = Some i \<Longrightarrow> i = length (handles s)"
  by (simp add: new_handle_def Let_def split_beta split: bool.splits)

lemma hands_out_finish [simp]: "length (handles s) = length (handles s0) \<Longrightarrow> hands_out s0 (fst (finish_open K fd d s))"
  using new_handle_next [of K fd d s]
  by (auto simp: hands_out_def finish_open_def split_beta split: option.split) (simp_all add: mk_ok_def)

lemma hands_out_openers:
  "hands_out s (fst (open_at_nif K argv s))" "hands_out s (fst (open_dir_nif K argv s))" "hands_out s (fst (dup_nif K argv s))"
  by (simp_all add: open_at_nif_def open_dir_nif_def dup_nif_def Let_def split_beta split: list.split option.split sum.split)

lemma run_fun_hands_out:
  assumes "run_fun K f argv s = Some (Term (mk_ok (TRes i)), s')"
  shows "i = length (handles s) \<and> open_handle s' i"
proof -
  have a: "answers f s' (mk_ok (TRes i))" using run_fun_shape [OF assms] by simp
  then have "open_handle s' i" by (cases f) (auto simp: mk_ok_def open_handle_def)
  moreover have "hands_out s (Term (mk_ok (TRes i)))"
    using a assms hands_out_openers [where s = s and argv = argv and K = K]
    by (cases f) (auto simp: mk_ok_def fst_def split: prod.splits)
  ultimately show ?thesis by (simp add: hands_out_def)
qed

end
