(* ===== verification/P1_Owners.thy ===== *)
theory P1_Owners
  imports P1_Snapshot Nif_Growth
begin

text \<open>
  Who owns the handles of the NIF. Every directory and file of a guest's table holds a handle; the table
  is \<open>sound\<close> when each of them is open and no two entries share one. Every system call keeps it so: what it
  closes it takes out of the table, and what it opens is new. A guest that closes, moves and opens
  descriptors in any order can therefore never act on a handle that was closed, or on another's.
\<close>

subsection \<open>Requests\<close>

declare mk_errno.simps [simp del]

lemma ok_terms [simp]:
  "mk_ok v = mk_ok w \<longleftrightarrow> v = w" "native v = native w \<longleftrightarrow> v = w" "atom_ok \<noteq> mk_ok v" "mk_ok v \<noteq> atom_ok" "native v \<noteq> TInt n"
  "\<not> is_error (mk_ok v)" "is_ok_of P (mk_ok v) \<longleftrightarrow> P v" "\<not> is_bin (native v)" "\<not> is_stat (native v)"
  "native v \<noteq> TList l" "native v \<noteq> TBin b" "mk_ok v \<noteq> Atom ''eof''"
  by (simp_all add: mk_ok_def native_def)

lemma opened_reply:
  assumes "answers (fst (rq_call dw rq)) s t" and "rq_case rq t = Ret u" and "Opened h \<in> got (fs_reply u)"
  shows "t = mk_ok (TRes h)"
proof -
  have "u = mk_ok (native (TRes h))"
    using assms(3)
    by (cases u rule: fs_reply.cases) (auto simp: mk_ok_def native_def split: if_splits eterm.splits elim!: native_of.elims)
  with assms(2) have r: "rq_case rq t = Ret (mk_ok (native (TRes h)))" by simp
  have no: "error_code e \<noteq> Ret (mk_ok w)" for e w
    by (simp add: error_code_def mk_ok_def)
  have valued: "\<exists>v. t = mk_ok v \<and> k v = Ret (mk_ok w)" if "value_case k t = Ret (mk_ok w)" for k w
    using that no by (cases "(k, t)" rule: value_case.cases) (auto simp: mk_ok_def split: if_splits)
  have unit: "unit_case t \<noteq> Ret (mk_ok w)" for w
    using no by (cases t rule: unit_case.cases) (auto simp: mk_ok_def split: if_splits)
  have other: "t = mk_ok w" if "other_case t = Ret (mk_ok w)" for w
    using that no by (cases t rule: other_case.cases) (auto simp: mk_ok_def split: if_splits)
  have sized: "size_of v \<noteq> Ret (mk_ok (native w))" if "is_stat v" for v w
    using that by (auto simp: size_of_def mk_ok_def native_def split: eterm.splits option.splits dest!: map_of_SomeD)
  have listed: "without_dots v \<noteq> Ret (mk_ok (native w))" for v w
    by (simp add: without_dots_def mk_ok_def native_def split: eterm.split)
  show ?thesis
    using assms(1) r no
    by (cases rq) (auto dest!: valued other simp: unit sized listed split: if_splits)
qed

text \<open>The marks of a request say what became of the handles.\<close>

definition moved_on :: "mark set \<Rightarrow> 'w nif \<Rightarrow> 'w nif \<Rightarrow> bool" where
  "moved_on H s s' \<longleftrightarrow> length (handles s) \<le> length (handles s')
     \<and> (\<forall>h. open_handle s h \<longrightarrow> Closed h \<notin> H \<longrightarrow> open_handle s' h)
     \<and> (\<forall>h. Opened h \<in> H \<longrightarrow> length (handles s) \<le> h \<and> (Closed h \<notin> H \<longrightarrow> open_handle s' h))"

lemma open_handle_bound: "open_handle s h \<Longrightarrow> h < length (handles s)"
  by (simp add: open_handle_def live_def)

lemma moved_on_trans: "moved_on H s s' \<Longrightarrow> moved_on G s' s'' \<Longrightarrow> moved_on (H \<union> G) s s''"
  unfolding moved_on_def by (auto intro: order_trans)

lemma request_closes: "closed_by (fst (rq_call dw rq)) (snd (rq_call dw rq)) \<subseteq> {h. Closed h \<in> gone rq}"
  by (cases rq) auto

lemma fs_request_moved_on:
  assumes "fs_request K dw rq s = Some (r, s')"
  shows "moved_on (left_by rq r) s s'"
proof -
  obtain q where q: "run_fun K (fst (rq_call dw rq)) (snd (rq_call dw rq)) s = Some (q, s')"
      "r = (case q of Term t \<Rightarrow> rq_case rq t | Badarg \<Rightarrow> Raise ''badarg'')"
    using assms by (rule fs_requestE)
  let ?C = "closed_by (fst (rq_call dw rq)) (snd (rq_call dw rq))"
  have g: "grown ?C s s'" using q(1) by (rule run_fun_grown)
  show ?thesis
  proof (cases "\<exists>t u. q = Term t \<and> rq_case rq t = Ret u")
    case True
    then obtain t u where t: "q = Term t" "rq_case rq t = Ret u" by blast
    have "h = length (handles s) \<and> open_handle s' h" if "Opened h \<in> left_by rq r" for h
    proof -
      have "Opened h \<in> got (fs_reply u)" using that t q(2) by (cases rq) auto
      moreover have "answers (fst (rq_call dw rq)) s' t" using run_fun_shape [OF q(1)] t(1) by simp
      ultimately have "t = mk_ok (TRes h)" using opened_reply t(2) by blast
      with q(1) t(1) run_fun_hands_out show ?thesis by blast
    qed
    with g request_closes [of dw rq] grown_open [OF g] q(2) t show ?thesis
      by (auto simp: moved_on_def grown_def)
  next
    case False
    have "grown {} s s'"
    proof (cases "\<exists>h. rq = Rq_close h \<or> rq = Rq_forget h")
      case True
      with False q(1) have "s' = s"
        by (cases q) (auto simp: close_nif_def split: option.splits simp del: get_resource.simps)
      then show ?thesis by simp
    next
      case False
      then have "gone rq = {}" by (cases rq) auto
      with g request_closes [of dw rq] show ?thesis by simp
    qed
    moreover have "\<nexists>u. r = Ret u" using False q(2) by (cases q) auto
    then have "left_by rq r = {}" by (cases r) auto
    ultimately show ?thesis by (auto simp: moved_on_def grown_def open_handle_def)
  qed
qed

text \<open>A conversation moves the handles on by its marks.\<close>

lemma perform_moved_on:
  "perform K dw E p M = Some (x, M') \<Longrightarrow> \<exists>l. asked M' = asked M @ l \<and> moved_on (marks l) (nif M) (nif M')"
proof (induction p arbitrary: M)
  case (Done y)
  then show ?case by (auto simp: moved_on_def)
next
  case (Fs rq k)
  from Fs.prems obtain r s where r: "fs_request K dw rq (nif M) = Some (r, s)"
    and go: "perform K dw E (k r) (M\<lparr>nif := s, asked := asked M @ [(rq, r)]\<rparr>) = Some (x, M')"
    by (auto split: option.splits)
  from Fs.IH [OF rangeI go] obtain l where "asked M' = asked M @ (rq, r) # l" "moved_on (marks l) s (nif M')" by auto
  with moved_on_trans [OF fs_request_moved_on [OF r]] show ?case by (intro exI [of _ "(rq, r) # l"]) simp
next
  case (Store a bs k)
  show ?case
  proof (cases "store_bytes (memory M) a bs")
    case None
    with Store.prems show ?thesis by (auto intro: Store.IH)
  next
    case (Some m)
    with Store.prems show ?thesis using Store.IH [OF rangeI, of True "M\<lparr>memory := m\<rparr>"] by simp
  qed
next
  case (Resolve d q must k)
  then show ?case by (auto intro: Resolve.IH split: option.splits)
qed (simp, meson rangeI)+

subsection \<open>Tables\<close>

text \<open>Each kind of entry has its own field for the handle; what a table holds is open, and held once.\<close>

definition tidy :: "wasi_fd \<Rightarrow> bool" where
  "tidy e \<longleftrightarrow> (e_handle e \<noteq> None \<longrightarrow> e_type e = File) \<and> (e_root e \<noteq> None \<longrightarrow> e_type e = Dir)"

definition sound :: "fd_table \<Rightarrow> 'w nif \<Rightarrow> bool" where
  "sound t s \<longleftrightarrow> one_owner t \<and> (\<forall>h \<in> held_by t. open_handle s h) \<and> (\<forall>e. an_entry t e \<longrightarrow> tidy e)"

lemma held_byI: "fds t fd = Some e \<Longrightarrow> holds e h \<Longrightarrow> h \<in> held_by t"
  by (auto simp: held_by_def an_entry_def)

lemma narrowed_holds: "narrowed e e' \<Longrightarrow> holds e' h \<longleftrightarrow> holds e h"
  by (simp add: narrowed_def holds_def)

lemma new_entry_holds: "new_entry t H e \<Longrightarrow> holds e h \<Longrightarrow> Opened h \<in> H"
  by (auto simp: new_entry_def opened_below_def holds_def)

lemma derived_tidy:
  assumes "derived mv t H t'" and "\<And>e. an_entry t e \<Longrightarrow> tidy e" and "an_entry t' e'"
  shows "tidy e'"
proof -
  from assms(1,3) consider e where "an_entry t e" "narrowed e e'" | "new_entry t H e'"
    unfolding derived_def kept_entry_def an_entry_def by metis
  then show ?thesis
    using assms(2) by cases (auto simp: tidy_def narrowed_def new_entry_def opened_below_def)
qed

lemma sound_step:
  assumes "sound t s" and d: "derived mv t H t'" and "parted t H t'" and moved: "moved_on H s s'"
  shows "sound t' s'"
proof -
  have one: "one_owner t" and opened: "\<And>h. h \<in> held_by t \<Longrightarrow> open_handle s h" using assms(1) by (simp_all add: sound_def)
  have fresh: "h \<notin> held_by t" if "Opened h \<in> H" for h
    using that moved opened open_handle_bound by (fastforce simp: moved_on_def)
  with assms(3) one have shut: "Closed h \<notin> H" if "h \<in> held_by t'" for h
    using that by (simp add: parted_def)
  obtain src where inj: "inj_on src (dom (fds t'))"
    and each: "\<And>fd e'. fds t' fd = Some e' \<Longrightarrow>
        kept_entry mv t (src fd) fd e' \<or> src fd = fd \<and> fd = next_fd t \<and> new_entry t H e'"
    using d unfolding derived_def by blast
  have holder: "(\<exists>e. fds t (src fd) = Some e \<and> holds e h) \<or> fd = next_fd t \<and> Opened h \<in> H"
    if "fds t' fd = Some e'" "holds e' h" for fd e' h
    using each [OF that(1)] that(2) narrowed_holds new_entry_holds unfolding kept_entry_def by blast
  have "open_handle s' h" if h: "h \<in> held_by t'" for h
  proof -
    from h obtain fd e' where e': "fds t' fd = Some e'" "holds e' h" by (auto simp: held_by_def an_entry_def)
    have "h \<in> held_by t \<or> Opened h \<in> H" using holder [OF e'] held_byI by blast
    with opened moved shut [OF h] show ?thesis unfolding moved_on_def by blast
  qed
  moreover have "fd = fd'"
    if e: "fds t' fd = Some e" "fds t' fd' = Some e'" "holds e h" "holds e' h" for fd fd' e e' h
  proof (cases "Opened h \<in> H")
    case True
    with holder [OF e(1,3)] holder [OF e(2,4)] fresh held_byI show ?thesis by blast
  next
    case False
    with holder [OF e(1,3)] holder [OF e(2,4)] one have "src fd = src fd'" unfolding one_owner_def by blast
    with inj e(1,2) show ?thesis by (auto simp: inj_on_def)
  qed
  then have "one_owner t'" unfolding one_owner_def by blast
  moreover have "tidy e" if "an_entry t' e" for e
    using derived_tidy [OF d _ that] assms(1) by (simp add: sound_def)
  ultimately show ?thesis by (simp add: sound_def)
qed

lemma sound_collect: "sound t s \<Longrightarrow> i \<notin> held_by t \<Longrightarrow> sound t (file_dtor K i s)"
  unfolding sound_def using grown_open [OF grown_dtor [OF grown_refl, of i "{i}" s K]] by fastforce

lemma sound_dispatch:
  assumes "dispatch K dw E C c t M = Some (e, t', M')" and "sound t (nif M)"
  shows "sound t' (nif M')"
proof -
  from assms(1) obtain r where run: "perform K dw E (handle_call C c t) M = Some (r, M')" by (auto simp: dispatch_def)
  obtain l' where l': "asked M' = asked M @ l'" "moved_on (marks l') (nif M) (nif M')"
    using perform_moved_on [OF run] by blast
  from assms(1) obtain l where "asked M' = asked M @ l" "derived (moves c) t (marks l) t'" "parted t (marks l) t'"
    by (rule dispatch_lawful)
  with l' sound_step [OF assms(2)] show ?thesis by simp
qed

lemma sound_run: "p1_run K dw E C es t M = Some (rs, t', M') \<Longrightarrow> sound t (nif M) \<Longrightarrow> sound t' (nif M')"
proof (induction es arbitrary: rs t M)
  case (Cons ev es)
  show ?case
  proof (cases ev)
    case (Inl c)
    with Cons.prems(1) obtain e t1 M1 rs1 where step: "dispatch K dw E C c t M = Some (e, t1, M1)"
      and rest: "p1_run K dw E C es t1 M1 = Some (rs1, t', M')"
      by (auto split: option.splits)
    show ?thesis by (rule Cons.IH [OF rest sound_dispatch [OF step Cons.prems(2)]])
  next
    case (Inr i)
    with Cons.prems(1) have "p1_run K dw E C es t
        (M\<lparr>nif := if live (nif M) i \<and> i \<notin> held_by t then file_dtor K i (nif M) else nif M\<rparr>) = Some (rs, t', M')"
      by simp
    from Cons.IH [OF this] Cons.prems(2) show ?thesis by (simp add: sound_collect split: if_splits)
  qed
qed simp

subsection \<open>The first table\<close>

definition first_table :: "(int \<times> wasi_fd) list \<Rightarrow> fd_table" where
  "first_table l = \<lparr>fds = map_of l, next_fd = 0, baseline = {}\<rparr>"

lemma sound_fds: "fds t' = fds t \<Longrightarrow> sound t' s \<longleftrightarrow> sound t s"
  by (simp add: sound_def one_owner_def held_by_def an_entry_def)

lemma sound_moved: "sound t s \<Longrightarrow> moved_on H s s' \<Longrightarrow> unclosed H \<Longrightarrow> sound t s'"
  by (simp add: sound_def moved_on_def unclosed_def)

lemma sound_add:
  assumes "sound (first_table l) s" and "moved_on H s s'" and "unclosed H" and "\<And>h. holds e h \<Longrightarrow> Opened h \<in> H"
    and "tidy e"
  shows "sound (first_table ((fd, e) # l)) s'"
proof -
  have old: "open_handle s h" if "map_of l n = Some e'" "holds e' h" for n e' h
    using assms(1) that by (auto simp: sound_def first_table_def held_by_def an_entry_def)
  have kept: "open_handle s' h" if "open_handle s h \<or> Opened h \<in> H" for h
    using assms(2,3) that by (auto simp: moved_on_def unclosed_def)
  have tidy: "tidy e'" if "map_of l n = Some e'" for n e'
    using assms(1) that by (auto simp: sound_def first_table_def an_entry_def)
  have new: "\<not> open_handle s h" if "Opened h \<in> H" for h
    using assms(2) that open_handle_bound by (fastforce simp: moved_on_def)
  have one: "n = n'" if "map_of l n = Some e1" "map_of l n' = Some e2" "holds e1 h" "holds e2 h" for n n' e1 e2 h
    using assms(1) that by (auto simp: sound_def first_table_def one_owner_def)
  show ?thesis
    unfolding sound_def one_owner_def held_by_def an_entry_def first_table_def
    using old kept new one tidy assms(4,5) by (auto split: if_splits) blast+
qed

lemma sound_preopens:
  assumes "perform K dw E (preopen_entries ds acc n k) M = Some (Saved e t, M')" and "sound (first_table acc) (nif M)"
  obtains acc' n' M1 where "perform K dw E (k acc' n') M1 = Some (Saved e t, M')" "sound (first_table acc') (nif M1)"
  using assms
proof (induction ds arbitrary: acc n M thesis)
  case Nil
  then show ?case by simp
next
  case (Cons d ds)
  obtain g host w where d: "d = (g, host, w)" by (cases d)
  from Cons.prems(2) obtain r s where r: "fs_request K dw (Rq_preopen host) (nif M) = Some (r, s)"
    by (auto simp: d ask_def split: option.splits)
  let ?M = "M\<lparr>nif := s, asked := asked M @ [(Rq_preopen host, r)]\<rparr>"
  have moved: "moved_on (left_by (Rq_preopen host) r) (nif M) s" by (rule fs_request_moved_on [OF r])
  have open_left: "unclosed (left_by (Rq_preopen host) r)" by (cases r) (auto simp: unclosed_def)
  from r Cons.prems(2) consider
      (err) "perform K dw E (preopen_entries ds acc (n + 1) k) ?M = Some (Saved e t, M')"
    | (new) root en where "Opened root \<in> left_by (Rq_preopen host) r" "\<And>h. holds en h \<Longrightarrow> h = root" "tidy en"
        "perform K dw E (preopen_entries ds ((n, en) # acc) (n + 1) k) ?M = Some (Saved e t, M')"
  proof (cases r)
    case (Ret u)
    show thesis
    proof (cases "fs_reply u")
      case (Ok_with v)
      with r Ret Cons.prems(2) obtain root where root: "native_of v = Some root"
        by (cases "native_of v") (auto simp: d ask_def on_handle_def)
      show thesis
      proof (rule new)
        show "Opened root \<in> left_by (Rq_preopen host) r" using Ok_with Ret root by simp
        let ?en = "(new_fd Dir 3)\<lparr>e_rights := fst (preopen_rights w), e_inheriting := snd (preopen_rights w),
          e_host_path := Some host, e_root := Some root, e_guest_path := Some g, e_preopen := True\<rparr>"
        show "holds ?en h \<Longrightarrow> h = root" for h by (simp add: holds_def new_fd_def)
        show "tidy ?en" by (simp add: tidy_def new_fd_def)
        show "perform K dw E (preopen_entries ds ((n, ?en) # acc) (n + 1) k) ?M = Some (Saved e t, M')"
          using r Ret Ok_with root Cons.prems(2) by (simp add: d ask_def on_handle_def)
      qed
    qed (use r Ret Cons.prems(2) err in \<open>auto simp: d ask_def\<close>)
  qed (use r Cons.prems(2) in \<open>auto simp: d ask_def\<close>)
  then show ?case
  proof cases
    case err
    have "sound (first_table acc) s" by (rule sound_moved [OF Cons.prems(3) moved open_left])
    then show ?thesis by (intro Cons.IH [OF Cons.prems(1) err]) simp_all
  next
    case new
    have "sound (first_table ((n, en) # acc)) s"
      by (rule sound_add [OF Cons.prems(3) moved open_left _ new(3)]) (use new(1,2) in blast)
    then show ?thesis by (intro Cons.IH [OF Cons.prems(1) new(4)]) simp_all
  qed
qed

lemma sound_start:
  assumes "perform K dw E (initial_state Cfg) M = Some (Saved e t, M')"
  shows "sound t (nif M')"
proof -
  have none: "sound (first_table []) (nif M)"
    by (simp add: sound_def one_owner_def held_by_def an_entry_def first_table_def)
  have stream: "sound (first_table ((m, stdio_entry d r) # l)) s" if "sound (first_table l) s"
    for m d r l and s :: "'a nif"
    by (rule sound_add [OF that, of "{}"]) (simp_all add: moved_on_def stdio_entry_def new_fd_def holds_def tidy_def)
  let ?all = "\<lambda>acc. [(0, stdio_entry (stdin Cfg) FD_READ), (1, stdio_entry (stdout Cfg) FD_WRITE),
    (2, stdio_entry (stderr Cfg) FD_WRITE)] @ acc"
  show ?thesis
  proof (rule sound_preopens [OF assms [unfolded initial_state_def Let_def] none])
    fix acc n and M1 :: "'a machine"
    assume all: "perform K dw E (Done (Saved ESUCCESS \<lparr>fds = map_of (?all acc), next_fd = n, baseline = fst ` set (?all acc)\<rparr>)) M1
        = Some (Saved e t, M')"
      and "sound (first_table acc) (nif M1)"
    from this(2) have "sound (first_table (?all acc)) (nif M1)"
      unfolding append.simps by (intro stream)
    moreover have "M' = M1" "fds t = fds (first_table (?all acc))" using all by (auto simp: first_table_def)
    ultimately show ?thesis using sound_fds by metis
  qed
qed

text \<open>
  C9. The table owns its handles. In an instance that was started from its configuration, after any sequence
  of system calls and collections, what a descriptor of the table holds is open in the NIF, and no other
  descriptor holds it: no call can act on a handle that was closed, or close the one of another descriptor.
\<close>

theorem descriptors_stay_open:
  assumes "perform K dw E (initial_state Cfg) M0 = Some (Saved e t, M1)"
    and "p1_run K dw E C es t M1 = Some (rs, t', M2)"
    and "fds t' fd = Some d" and "holds d h"
  shows "open_handle (nif M2) h \<and> (\<forall>fd' d'. fds t' fd' = Some d' \<and> holds d' h \<longrightarrow> fd' = fd)"
proof -
  have "sound t' (nif M2)" by (rule sound_run [OF assms(2) sound_start [OF assms(1)]])
  with assms(3,4) show ?thesis unfolding sound_def one_owner_def using held_byI by blast
qed

theorem descriptors_stay_open_witness:
  "open_handle (nif (snd (snd (the (p1_run mem_kernel False sample_env 1048576 [Inl (Fd_close 2), Inr 0, Inl (Fd_sync 3)]
       (sample_table True) sample_started))))) 0"
proof -
  let ?es = "[Inl (Fd_close 2), Inr 0, Inl (Fd_sync 3)] :: (wasi_call + nat) list"
  obtain rs t' M2 where run: "p1_run mem_kernel False sample_env 1048576 ?es (sample_table True) sample_started
      = Some (rs, t', M2)"
    using p1_run_returns [OF sample_env_resolves] by blast
  have "fds t' 3 = Some (sample_dir True)"
    using run by (auto simp: dispatch_def p1_fd_close_def p1_fd_sync_def fd_lookup_def fd_remove_def sample_table_def
        stdio_entry_def new_fd_def)
  from descriptors_stay_open [OF sample_start run this, of 0] run show ?thesis
    by (simp add: holds_def sample_dir_def)
qed

end
