(* ===== verification/P1_Teardown.thy ===== *)
theory P1_Teardown
  imports P1_Owners
begin

text \<open>
  The end of an instance. \<^verbatim>\<open>close_all/1\<close> closes what the table still holds, in whatever order; since the
  table is sound, every handle in it is closed, none is asked for twice, and the call returns. What a guest
  closed itself is another matter: \<^verbatim>\<open>fd_close\<close> of a directory only forgets the number.
\<close>

lemma open_update:
  "open_handle (upd_handle i f s) j \<longleftrightarrow>
     (if i = j then j < length (handles s) \<and> h_lock (f (handle s j)) \<noteq> No_mutex \<and> h_fd (f (handle s j)) \<noteq> None
      else open_handle s j)"
  by (auto simp: open_handle_def live_def handle_def nth_list_update)

lemma close_request:
  assumes "open_handle s h" and "rq = Rq_close h \<or> rq = Rq_forget h"
  obtains s' where "fs_request K dw rq s = Some (Ret atom_ok, s')" "\<not> open_handle s' h"
    "\<And>i. i \<noteq> h \<Longrightarrow> open_handle s' i \<longleftrightarrow> open_handle s i"
proof -
  let ?s = "mutex_unlock h (drop_fd K h (drop_dirp K h (mutex_lock h s)))"
  have "live s h" using assms(1) by (simp add: open_handle_def)
  then have "fs_request K dw rq s = Some (Ret atom_ok, ?s)"
    using assms(2) live_resource [of s h]
    by (auto simp: fs_close_def fs_forget_def nif_case_def close_nif_def simp del: get_resource.simps)
  moreover have "\<not> open_handle ?s h"
    by (simp add: mutex_unlock_def open_update)
      (auto simp: drop_fd_def handle_def split: option.split)
  moreover have "open_handle ?s i \<longleftrightarrow> open_handle s i" if "i \<noteq> h" for i
    using that by (simp add: mutex_unlock_def mutex_lock_def drop_fd_def drop_dirp_def open_update split: option.split)
      (simp add: open_handle_def live_def handle_def)
  ultimately show thesis using that by blast
qed

text \<open>One entry, and a list of entries of which no two hold the same handle.\<close>

definition apart :: "wasi_fd \<Rightarrow> wasi_fd \<Rightarrow> bool" where
  "apart e e' \<longleftrightarrow> (\<forall>h. \<not> (holds e h \<and> holds e' h))"

definition closes_only :: "wasi_fd \<Rightarrow> 'w nif \<Rightarrow> 'w nif \<Rightarrow> bool" where
  "closes_only e s s' \<longleftrightarrow> (\<forall>h. open_handle s' h \<longleftrightarrow> open_handle s h \<and> \<not> holds e h)"

lemma perform_close_entry:
  assumes "tidy e" and "\<And>h. holds e h \<Longrightarrow> open_handle (nif M) h"
  obtains M1 where "perform K dw E (close_entry e k) M = perform K dw E k M1" "closes_only e (nif M) (nif M1)"
proof (cases "\<exists>h. holds e h")
  case False
  with assms(1) have "close_entry e k = k"
    by (auto simp: close_entry_def holds_def split: fd_type.split option.split)
  moreover have "closes_only e (nif M) (nif M)" using False by (simp add: closes_only_def)
  ultimately show thesis using that by simp
next
  case True
  then obtain h where h: "holds e h" by blast
  with assms(1) obtain rq where rq: "rq = Rq_close h \<or> rq = Rq_forget h" "close_entry e k = ask rq (\<lambda>_. k)"
    and only: "\<And>i. holds e i \<longleftrightarrow> i = h"
    by (cases "e_type e") (auto simp: close_entry_def holds_def tidy_def)
  obtain s' where s': "fs_request K dw rq (nif M) = Some (Ret atom_ok, s')" "\<not> open_handle s' h"
      "\<And>i. i \<noteq> h \<Longrightarrow> open_handle s' i \<longleftrightarrow> open_handle (nif M) i"
    using close_request [OF assms(2) [OF h] rq(1)] by blast
  show thesis
  proof (rule that)
    show "perform K dw E (close_entry e k) M
      = perform K dw E k (M\<lparr>nif := s', asked := asked M @ [(rq, Ret atom_ok)]\<rparr>)"
      by (simp add: rq(2) ask_def s'(1))
    show "closes_only e (nif M) (nif (M\<lparr>nif := s', asked := asked M @ [(rq, Ret atom_ok)]\<rparr>))"
      using s'(2,3) only by (simp add: closes_only_def) metis
  qed
qed

lemma perform_close_entries:
  assumes "\<And>e. e \<in> set es \<Longrightarrow> tidy e" and "\<And>e h. e \<in> set es \<Longrightarrow> holds e h \<Longrightarrow> open_handle (nif M) h"
    and "sorted_wrt apart es"
  shows "\<exists>M'. perform K dw E (close_entries es (Done x)) M = Some (x, M')
    \<and> (\<forall>h. open_handle (nif M') h \<longleftrightarrow> open_handle (nif M) h \<and> (\<forall>e \<in> set es. \<not> holds e h))"
  using assms
proof (induction es arbitrary: M)
  case (Cons e es)
  obtain M1 where go: "perform K dw E (close_entry e (close_entries es (Done x))) M
      = perform K dw E (close_entries es (Done x)) M1" and only: "closes_only e (nif M) (nif M1)"
    by (rule perform_close_entry [of e M K dw E "close_entries es (Done x)"]) (use Cons.prems in auto)
  have "open_handle (nif M1) h" if "e' \<in> set es" "holds e' h" for e' h
    using Cons.prems(2) [of e' h] Cons.prems(3) only that by (auto simp: closes_only_def apart_def)
  with Cons.IH [of M1] Cons.prems(1,3) obtain M' where
      "perform K dw E (close_entries es (Done x)) M1 = Some (x, M')"
      "\<forall>h. open_handle (nif M') h \<longleftrightarrow> open_handle (nif M1) h \<and> (\<forall>e \<in> set es. \<not> holds e h)"
    by auto
  with go only show ?case by (auto simp: closes_only_def)
qed simp

text \<open>The entries of a sound table, in any order.\<close>

lemma entries_apart:
  assumes "sound t s" and "distinct order"
  shows "sorted_wrt apart (List.map_filter (fds t) order)"
  using assms(2)
proof (induction order)
  case (Cons fd order)
  have "apart e e'" if "fds t fd = Some e" "e' \<in> set (List.map_filter (fds t) order)" for e e'
  proof -
    from that(2) obtain fd' where "fd' \<in> set order" "fds t fd' = Some e'" by (auto simp: map_filter_def)
    moreover from this Cons.prems have "fd \<noteq> fd'" by auto
    ultimately show ?thesis using assms(1) that(1) unfolding sound_def one_owner_def apart_def by blast
  qed
  with Cons show ?case by (auto simp: map_filter_simps split: option.split)
qed (simp add: map_filter_simps)

lemma close_all_closes:
  assumes "sound t (nif M)" and "distinct order" and "set order = dom (fds t)"
  shows "\<exists>M'. perform K dw E (close_all order t) M = Some (Saved ESUCCESS (t\<lparr>fds := Map.empty\<rparr>), M')
    \<and> (\<forall>h. open_handle (nif M') h \<longleftrightarrow> open_handle (nif M) h \<and> h \<notin> held_by t)"
proof -
  let ?es = "List.map_filter (fds t) order"
  have entry: "e \<in> set ?es \<longleftrightarrow> an_entry t e" for e
    using assms(3) by (auto simp: map_filter_def an_entry_def dom_def image_iff)
  have "\<exists>M'. perform K dw E (close_entries ?es (Done (Saved ESUCCESS (t\<lparr>fds := Map.empty\<rparr>)))) M
      = Some (Saved ESUCCESS (t\<lparr>fds := Map.empty\<rparr>), M')
    \<and> (\<forall>h. open_handle (nif M') h \<longleftrightarrow> open_handle (nif M) h \<and> (\<forall>e \<in> set ?es. \<not> holds e h))"
    using assms(1) entry
    by (intro perform_close_entries entries_apart [OF assms(1,2)]) (auto simp: sound_def held_by_def)
  then show ?thesis unfolding close_all_def using entry by (auto simp: held_by_def)
qed

subsection \<open>What a guest closes itself\<close>

text \<open>
  \<^verbatim>\<open>fd_close\<close> of a directory asks nothing of \<^verbatim>\<open>wasi_fs\<close>, unlike \<^verbatim>\<open>close_entry/1\<close>: its handle stays open and is in
  no table, so \<^verbatim>\<open>close_all\<close> does not find it either; only the collector gives it up.
\<close>

lemma closed_directory_stays_open:
  assumes "fds t fd = Some e" and "e_type e = Dir"
  shows "dispatch K dw E C (Fd_close fd) t M = Some (ESUCCESS, fd_remove t fd, M)"
  using assms by (simp add: dispatch_def p1_fd_close_def fd_lookup_def)

text \<open>
  \<^verbatim>\<open>fd_renumber\<close> of a descriptor onto itself should change nothing; it closes the file and removes the
  descriptor.
\<close>

lemma renumber_onto_itself_closes:
  assumes "fds t fd = Some e" and "\<not> e_preopen e" and "tidy e" and "e_handle e = Some h" and "open_handle (nif M) h"
  shows "\<exists>M'. dispatch K dw E C (Fd_renumber fd fd) t M = Some (ESUCCESS, fd_remove (fd_put t fd e) fd, M')
    \<and> \<not> open_handle (nif M') h"
proof -
  let ?k = "Done (Saved ESUCCESS (fd_remove (fd_put t fd e) fd))"
  have "e_type e = File" using assms(3,4) by (simp add: tidy_def)
  with assms(3-5) have "open_handle (nif M) i" if "holds e i" for i
    using that by (auto simp: holds_def tidy_def)
  with assms(3) obtain M1 where "perform K dw E (close_entry e ?k) M = perform K dw E ?k M1"
      "closes_only e (nif M) (nif M1)"
    by (rule perform_close_entry)
  with assms(1,2,4) show ?thesis
    by (auto simp: dispatch_def p1_fd_renumber_def fd_lookup_def closes_only_def holds_def)
qed

subsection \<open>The property\<close>

text \<open>
  C11. The end of an instance closes what it had. Whatever the guest did since it was started,
  \<^verbatim>\<open>close_all\<close> returns, leaves an empty table, and after it no handle that the table held is open, while
  every other handle is as it was.
\<close>

theorem teardown_closes_the_table:
  assumes "perform K dw E (initial_state Cfg) M0 = Some (Saved e t, M1)"
    and "p1_run K dw E C es t M1 = Some (rs, t', M2)"
    and "distinct order" and "set order = dom (fds t')"
  shows "\<exists>M3. perform K dw E (close_all order t') M2 = Some (Saved ESUCCESS (t'\<lparr>fds := Map.empty\<rparr>), M3)
    \<and> (\<forall>h. open_handle (nif M3) h \<longleftrightarrow> open_handle (nif M2) h \<and> h \<notin> held_by t')"
  by (rule close_all_closes [OF sound_run [OF assms(2) sound_start [OF assms(1)]] assms(3,4)])

theorem teardown_closes_the_table_witness:
  "\<exists>M3. perform mem_kernel False sample_env (close_all [0, 1, 2, 3] (sample_table True)) sample_started
      = Some (Saved ESUCCESS ((sample_table True)\<lparr>fds := Map.empty\<rparr>), M3) \<and> \<not> open_handle (nif M3) 0"
proof -
  have run: "p1_run mem_kernel False sample_env 1048576 [] (sample_table True) sample_started
      = Some ([], sample_table True, sample_started)"
    by simp
  have "set [0, 1, 2, 3] = dom (fds (sample_table True))" by (auto simp: sample_table_def split: if_splits)
  moreover have "0 \<in> held_by (sample_table True)"
    by (rule held_byI [of _ 3 "sample_dir True"]) (simp_all add: sample_table_def sample_dir_def holds_def)
  ultimately show ?thesis using teardown_closes_the_table [OF sample_start run, of "[0, 1, 2, 3]"] by auto
qed

end
