(* ===== verification/P1_Inside.thy ===== *)
theory P1_Inside
  imports P1_Teardown
begin

text \<open>
  The whole stack, from the system call down to the kernel. A guest's life in preview 1 is a run of
  requests to \<^verbatim>\<open>wasi_fs\<close>; as long as these are the ones the NIF walks for, the sandbox of \<open>Fs_Requests\<close> holds for
  the guest. Two kinds are not: a directory that \<^verbatim>\<open>path_open\<close> opens by its host path, and a stat or a change
  of times that follows a final link.
\<close>

lemma fs_run_append:
  "fs_run K dw (es @ es') s = (case fs_run K dw es s of None \<Rightarrow> None | Some s' \<Rightarrow> fs_run K dw es' s')"
  by (induction K dw es s rule: fs_run.induct) (auto split: option.splits)

lemma p1_run_requests:
  "p1_run K dw E C es t M = Some (rs, t', M') \<Longrightarrow>
     \<exists>l evs. asked M' = asked M @ l \<and> fs_run K dw evs (nif M) = Some (nif M')
       \<and> (\<forall>rq. Inl rq \<in> set evs \<longrightarrow> rq \<in> fst ` set l)"
proof (induction es arbitrary: rs t M)
  case (Cons ev es)
  show ?case
  proof (cases ev)
    case (Inl c)
    with Cons.prems obtain e t1 M1 rs1 where step: "dispatch K dw E C c t M = Some (e, t1, M1)"
      and rest: "p1_run K dw E C es t1 M1 = Some (rs1, t', M')"
      by (auto split: option.splits)
    from step obtain l where l: "asked M1 = asked M @ l" "fs_run K dw (map (Inl \<circ> fst) l) (nif M) = Some (nif M1)"
      by (rule dispatch_lawful)
    from Cons.IH [OF rest] obtain l' evs where
        "asked M' = asked M1 @ l'" "fs_run K dw evs (nif M1) = Some (nif M')" "\<forall>rq. Inl rq \<in> set evs \<longrightarrow> rq \<in> fst ` set l'"
      by blast
    with l show ?thesis
      by (intro exI [of _ "l @ l'"] exI [of _ "map (Inl \<circ> fst) l @ evs"]) (auto simp: fs_run_append)
  next
    case (Inr i)
    let ?s = "if live (nif M) i \<and> i \<notin> held_by t then file_dtor K i (nif M) else nif M"
    from Inr Cons.prems have "p1_run K dw E C es t (M\<lparr>nif := ?s\<rparr>) = Some (rs, t', M')" by simp
    from Cons.IH [OF this] obtain l evs where
        "asked M' = asked M @ l" "fs_run K dw evs ?s = Some (nif M')" "\<forall>rq. Inl rq \<in> set evs \<longrightarrow> rq \<in> fst ` set l"
      by auto
    then show ?thesis
      by (intro exI [of _ l] exI [of _ "if i \<notin> held_by t then Inr i # evs else evs"]) auto
  qed
qed (auto intro!: exI [of _ "[] :: (fs_req + nat) list"])


definition sample_audit_env :: "mem audit env" where
  "sample_audit_env = \<lparr>resolves = (\<lambda>w d p m. Some (Inl 44)), classifies = (\<lambda>w d. Absent), clock = (\<lambda>w. 0),
     takes = (\<lambda>w d bs. True), gives = (\<lambda>w n k. None)\<rparr>"

definition sample_audit_machine :: "mem audit machine" where
  "sample_audit_machine = \<lparr>nif = sample_nif, memory = bytes_of ''a/b'' @ replicate 60 0, asked = []\<rparr>"


end
