(* ===== verification/P1_Vectors.thy ===== *)
theory P1_Vectors
  imports P1_Rights
begin

text \<open>
  Vectors of the guest's memory. \<^verbatim>\<open>fd_read\<close> scatters what was read over a list of buffers, \<^verbatim>\<open>fd_write\<close> gathers
  what is written from one. Where the buffers are in the memory and do not overlap the two are inverse;
  a short read fills them from the front.
\<close>

definition in_bounds :: "bytes \<Rightarrow> int \<times> int \<Rightarrow> bool" where
  "in_bounds m = (\<lambda>(p, l). 0 \<le> p \<and> 0 \<le> l \<and> p + l \<le> int (length m))"

definition separate :: "int \<times> int \<Rightarrow> int \<times> int \<Rightarrow> bool" where
  "separate = (\<lambda>(p, l) (q, n). p + l \<le> q \<or> q + n \<le> p)"

subsection \<open>Loads and stores\<close>

lemma store_in_bounds:
  assumes "in_bounds m (p, l)" and "int (length bs) \<le> l"
  obtains m' where "store_bytes m p bs = Some m'" "length m' = length m"
    "m' = take (nat p) m @ bs @ drop (nat p + length bs) m"
  using assms that by (auto simp: in_bounds_def store_bytes_def)

lemma load_in_bounds: "in_bounds m (p, l) \<Longrightarrow> load_bytes m p l = Some (take (nat l) (drop (nat p) m))"
  by (simp add: in_bounds_def load_bytes_def)

lemma load_own:
  assumes "store_bytes m p bs = Some m'" and "in_bounds m (p, l)" and "int (length bs) \<le> l"
  shows "\<exists>rest. load_bytes m' p l = Some (bs @ rest) \<and> (int (length bs) = l \<longrightarrow> rest = [])"
proof -
  from assms have m': "m' = take (nat p) m @ bs @ drop (nat p + length bs) m" "length m' = length m"
    by (auto simp: store_bytes_def in_bounds_def split: if_splits)
  have "nat p \<le> length m" using assms(2) unfolding in_bounds_def by auto
  then have "take (nat l) (drop (nat p) m') = bs @ take (nat l - length bs) (drop (nat p + length bs) m)"
    using assms(3) by (simp add: m'(1))
  moreover have "in_bounds m' (p, l)" using assms(2) m'(2) by (simp add: in_bounds_def)
  ultimately show ?thesis using assms(3) by (auto simp: load_in_bounds)
qed

lemma load_other:
  assumes "store_bytes m p bs = Some m'" and "separate (p, int (length bs)) (q, n)"
  shows "load_bytes m' q n = load_bytes m q n"
proof -
  from assms(1) have b: "0 \<le> p" "p + int (length bs) \<le> int (length m)"
    and m': "m' = take (nat p) m @ bs @ drop (nat p + length bs) m"
    by (auto simp: store_bytes_def split: if_splits)
  have len: "length m' = length m" using b m' by simp
  have "take (nat n) (drop (nat q) m') = take (nat n) (drop (nat q) m)" if "0 \<le> q" "0 \<le> n" "q + n \<le> int (length m)"
  proof (rule nth_equalityI)
    show "length (take (nat n) (drop (nat q) m')) = length (take (nat n) (drop (nat q) m))" by (simp add: len)
    fix i assume i: "i < length (take (nat n) (drop (nat q) m'))"
    have inside: "nat q + i < length m" and "int (nat q + i) < q + n" "q \<le> int (nat q + i)" using i len that by auto
    moreover have "p + int (length bs) \<le> q \<or> q + n \<le> p" using assms(2) by (simp add: separate_def)
    ultimately have "nat q + i < nat p \<or> nat p + length bs \<le> nat q + i" using b(1) by linarith
    then consider "nat q + i < nat p" | "nat p + length bs \<le> nat q + i" by blast
    then have "m' ! (nat q + i) = m ! (nat q + i)"
      by cases (use b inside in \<open>auto simp: m' nth_append\<close>)
    with i that len show "take (nat n) (drop (nat q) m') ! i = take (nat n) (drop (nat q) m) ! i" by simp
  qed
  with len show ?thesis by (simp add: load_bytes_def)
qed

subsection \<open>Buffers\<close>

text \<open>What is in the buffers, one after the other; and a list of separate ones within the memory.\<close>

definition contents :: "bytes \<Rightarrow> (int \<times> int) list \<Rightarrow> bytes" where
  "contents m specs = concat (map (\<lambda>(p, l). case load_bytes m p l of Some bs \<Rightarrow> bs | None \<Rightarrow> []) specs)"

definition buffers :: "bytes \<Rightarrow> (int \<times> int) list \<Rightarrow> bool" where
  "buffers m specs \<longleftrightarrow> list_all (in_bounds m) specs \<and> sorted_wrt separate specs"

lemma gather_contents: "perform K dw E (gather specs acc k) M = perform K dw E (k (acc @ contents (memory M) specs)) M"
  by (induction specs acc k rule: gather.induct) (auto simp: contents_def split: option.split)

lemma contents_same:
  "(\<And>p l. (p, l) \<in> set specs \<Longrightarrow> load_bytes m' p l = load_bytes m p l) \<Longrightarrow> contents m' specs = contents m specs"
  unfolding contents_def by (rule arg_cong [where f = concat]) auto

lemma total_simps [simp]: "total [] = 0" "total ((p, l) # specs) = l + total specs"
  by (simp_all add: total_def)

lemma total_nonneg: "list_all (in_bounds m) specs \<Longrightarrow> 0 \<le> total specs"
  by (induction specs) (auto simp: in_bounds_def)

lemma length_contents: "list_all (in_bounds m) specs \<Longrightarrow> int (length (contents m specs)) = total specs"
  by (induction specs) (auto simp: contents_def load_in_bounds in_bounds_def)

lemma scatter_fills:
  assumes "buffers (memory M) specs" and "int (length bs) \<le> total specs"
  shows "\<exists>m. perform K dw E (scatter specs bs k) M = perform K dw E k (M\<lparr>memory := m\<rparr>)
    \<and> length m = length (memory M)
    \<and> take (length bs) (contents m specs) = bs
    \<and> (\<forall>q n. (\<forall>s \<in> set specs. separate s (q, n)) \<longrightarrow> load_bytes m q n = load_bytes (memory M) q n)"
  using assms
proof (induction specs bs k arbitrary: M rule: scatter.induct)
  case (1 bs k)
  then show ?case by (intro exI [of _ "memory M"]) (simp add: contents_def)
next
  case (2 p l specs bs k)
  have b: "in_bounds (memory M) (p, l)" using "2.prems"(1) by (simp add: buffers_def)
  show ?case
  proof (cases "bs = []")
    case True
    then show ?thesis by (intro exI [of _ "memory M"]) simp
  next
    case False
    let ?c = "take (nat l) bs" and ?rest = "drop (nat l) bs"
    have l: "0 \<le> l" and c: "int (length ?c) \<le> l" using b by (auto simp: in_bounds_def)
    obtain m where m: "store_bytes (memory M) p ?c = Some m" "length m = length (memory M)"
      using store_in_bounds [OF b c] by metis
    let ?M = "M\<lparr>memory := m\<rparr>"
    have "buffers (memory ?M) specs" using "2.prems"(1) m(2) by (simp add: buffers_def in_bounds_def)
    moreover have "0 \<le> total specs"
      using "2.prems"(1) total_nonneg by (auto simp: buffers_def)
    then have "int (length ?rest) \<le> total specs" using "2.prems"(2) l by simp
    ultimately obtain m' where m': "perform K dw E (scatter specs ?rest k) ?M = perform K dw E k (?M\<lparr>memory := m'\<rparr>)"
        "length m' = length m" "take (length ?rest) (contents m' specs) = ?rest"
        "\<And>q n. (\<forall>s \<in> set specs. separate s (q, n)) \<Longrightarrow> load_bytes m' q n = load_bytes m q n"
      using "2.IH" [OF False, of ?M] by auto
    have sep: "separate (p, l) s" if "s \<in> set specs" for s using "2.prems"(1) that by (auto simp: buffers_def)
    then have "load_bytes m' p l = load_bytes m p l" by (intro m'(4)) (auto simp: separate_def)
    moreover obtain r where "load_bytes m p l = Some (?c @ r)" "int (length ?c) = l \<longrightarrow> r = []"
      using load_own [OF m(1) b c] by blast
    ultimately have "contents m' ((p, l) # specs) = ?c @ r @ contents m' specs" and r: "int (length ?c) = l \<longrightarrow> r = []"
      by (simp_all add: contents_def)
    then have "take (length bs) (contents m' ((p, l) # specs)) = bs"
      using m'(3) l by (cases "nat l \<le> length bs") (auto simp: min_def)
    moreover have "load_bytes m' q n = load_bytes (memory M) q n" if "\<forall>s \<in> set ((p, l) # specs). separate s (q, n)" for q n
    proof -
      have "separate (p, int (length ?c)) (q, n)" using that c by (auto simp: separate_def)
      with m'(4) that load_other [OF m(1)] show ?thesis by simp
    qed
    ultimately show ?thesis using False m m'(1,2) by (intro exI [of _ m']) simp
  qed
qed

text \<open>
  C26. Reading into buffers and writing from them are inverse. Let the vectors of a guest lie within its
  memory and apart from each other. Data that \<^verbatim>\<open>scatter\<close> puts into them is what \<^verbatim>\<open>read_iovecs\<close> then gathers from
  them: all of it, followed by what was there where the data was shorter than the buffers.
\<close>

theorem scatter_gather_roundtrip:
  assumes "buffers (memory M) specs" and "int (length bs) \<le> total specs"
  shows "\<exists>m rest. perform K dw E (scatter specs bs k) M = perform K dw E k (M\<lparr>memory := m\<rparr>)
    \<and> perform K dw E (gather specs [] k') (M\<lparr>memory := m\<rparr>) = perform K dw E (k' (bs @ rest)) (M\<lparr>memory := m\<rparr>)
    \<and> int (length (bs @ rest)) = total specs"
proof -
  obtain m where m: "perform K dw E (scatter specs bs k) M = perform K dw E k (M\<lparr>memory := m\<rparr>)"
      "length m = length (memory M)" "take (length bs) (contents m specs) = bs"
    using scatter_fills [OF assms] by blast
  have "contents m specs = bs @ drop (length bs) (contents m specs)"
    using m(3) by (metis append_take_drop_id)
  moreover have "int (length (contents m specs)) = total specs"
    using assms(1) m(2) by (intro length_contents) (simp add: buffers_def in_bounds_def)
  ultimately show ?thesis
    using m(1) by (intro exI [of _ m] exI [of _ "drop (length bs) (contents m specs)"]) (simp add: gather_contents)
qed

theorem scatter_gather_roundtrip_witness:
  "\<exists>m. perform mem_kernel False sample_env
       (scatter [(8, 2), (0, 3)] [1, 2, 3, 4, 5]
         (gather [(8, 2), (0, 3)] [] (\<lambda>bs. Done (Answer (if bs = [1, 2, 3, 4, 5] then 0 else 29))))) sample_started
     = Some (Answer 0, sample_started\<lparr>memory := m\<rparr>)"
proof -
  let ?specs = "[(8, 2), (0, 3)] :: (int \<times> int) list" and ?bs = "[1, 2, 3, 4, 5] :: bytes"
  let ?k = "\<lambda>bs. Done (Answer (if bs = ?bs then 0 else 29))"
  have "buffers (memory sample_started) ?specs"
    by (simp add: buffers_def in_bounds_def separate_def sample_started_def sample_machine_def)
  moreover have "int (length ?bs) \<le> total ?specs" by simp
  ultimately obtain m rest where
      "perform mem_kernel False sample_env (scatter ?specs ?bs (gather ?specs [] ?k)) sample_started
        = perform mem_kernel False sample_env (gather ?specs [] ?k) (sample_started\<lparr>memory := m\<rparr>)"
      "perform mem_kernel False sample_env (gather ?specs [] ?k) (sample_started\<lparr>memory := m\<rparr>)
        = perform mem_kernel False sample_env (?k (?bs @ rest)) (sample_started\<lparr>memory := m\<rparr>)"
      "int (length (?bs @ rest)) = total ?specs"
    using scatter_gather_roundtrip [where K = mem_kernel and dw = False and E = sample_env
        and k = "gather ?specs [] ?k" and k' = ?k] by blast
  moreover from this(3) have "rest = []" by simp
  ultimately show ?thesis by (intro exI [of _ m]) simp
qed

subsection \<open>Whole calls\<close>

text \<open>The vectors that a pointer and a count name.\<close>

definition vectors :: "bytes \<Rightarrow> int \<Rightarrow> int \<Rightarrow> (int \<times> int) list option" where
  "vectors m iovs n =
     (if to_u32 n > 1024 then None else map_option pairs_u32 (load_bytes m (to_u32 iovs) (to_u32 n * 8)))"

lemma iovec_specs_vectors:
  "vectors (memory M) iovs n = Some specs \<Longrightarrow> perform K dw E (iovec_specs iovs n k) M = perform K dw E (k specs) M"
  by (auto simp: vectors_def iovec_specs_def split: if_splits)

lemma contents_in_bounds: "contents m specs = contents m (filter (in_bounds m) specs)"
  by (induction specs) (auto simp: contents_def load_bytes_def in_bounds_def split: if_splits)

lemma length_u32 [simp]: "length (u32 v) = 4"
  by (simp add: u32_def)

text \<open>
  C31. What \<^verbatim>\<open>fd_write\<close> writes is what the vectors within the memory contain, in their order. One that
  reaches outside it is skipped: no EFAULT, the others are written, and the count answered is theirs.
\<close>

theorem fd_write_skips_bad_vectors:
  assumes "fds t fd = Some e" and "has e FD_WRITE" and "vectors (memory M) iovs n = Some specs"
  shows "perform K dw E (p1_fd_write fd iovs n out t) M
    = perform K dw E (do_write e (contents (memory M) (filter (in_bounds (memory M)) specs)) out fd t) M"
  using assms
  by (simp add: p1_fd_write_def with_fd_def fd_lookup_def has_def read_iovecs_def iovec_specs_vectors gather_contents
      flip: contents_in_bounds)

theorem fd_write_skips_bad_vectors_witness:
  "perform mem_kernel False sample_env (p1_fd_write 1 0 2 40 (sample_table True))
      (sample_started\<lparr>memory := [32, 0, 0, 0, 2, 0, 0, 0, 60, 0, 0, 0, 100, 0, 0, 0] @ replicate 48 7\<rparr>)
    = perform mem_kernel False sample_env (do_write (stdio_entry (Process 1) FD_WRITE) [7, 7] 40 1 (sample_table True))
        (sample_started\<lparr>memory := [32, 0, 0, 0, 2, 0, 0, 0, 60, 0, 0, 0, 100, 0, 0, 0] @ replicate 48 7\<rparr>)"
proof -
  let ?m = "[32, 0, 0, 0, 2, 0, 0, 0, 60, 0, 0, 0, 100, 0, 0, 0] @ replicate 48 (7 :: byte)"
  let ?M = "sample_started\<lparr>memory := ?m\<rparr>"
  have v: "vectors (memory ?M) 0 2 = Some [(32, 2), (60, 100)]"
    by (simp add: vectors_def load_bytes_def to_u32_def int_le_def)
  have e: "fds (sample_table True) 1 = Some (stdio_entry (Process 1) FD_WRITE)" by (simp add: sample_table_def)
  have r: "has (stdio_entry (Process 1) FD_WRITE) FD_WRITE" by (simp add: has_def stdio_entry_def right_defs)
  have "contents (memory ?M) (filter (in_bounds (memory ?M)) [(32, 2), (60, 100)]) = [7, 7]"
    by (simp add: in_bounds_def contents_def load_bytes_def numeral_2_eq_2)
  with fd_write_skips_bad_vectors [OF e r v, of mem_kernel False sample_env 40] show ?thesis by (simp only:)
qed

text \<open>
  C12. What \<^verbatim>\<open>fd_read\<close> of a file answers. Let the vectors be buffers within the memory and apart from each
  other and from the place of the count. If \<^verbatim>\<open>wasi_fs:pread\<close> at the offset of the descriptor answers
  data that fits, then the call succeeds, the buffers are filled with the data from the front, the count is its
  length, and the offset of this descriptor, and of no other, has moved on by it.
\<close>

theorem fd_read_fills_buffers:
  assumes "fds t fd = Some e" and "has e FD_READ" and "e_type e = File" and "e_handle e = Some h"
    and "vectors (memory M) iovs n = Some specs" and "buffers (memory M) ((to_u32 out, 4) # specs)"
    and "fs_request K dw (Rq_pread h (e_offset e) (total specs)) (nif M) = Some (Ret (mk_ok (TBin bs)), s')"
    and "int (length bs) \<le> total specs"
  shows "\<exists>M'. perform K dw E (p1_fd_read fd iovs n out t) M
      = Some (Saved ESUCCESS (t\<lparr>fds := (fds t)(fd \<mapsto> e\<lparr>e_offset := e_offset e + int (length bs)\<rparr>)\<rparr>), M')
    \<and> take (length bs) (contents (memory M') specs) = bs
    \<and> load_bytes (memory M') (to_u32 out) 4 = Some (u32 (int (length bs))) \<and> nif M' = s'"
proof -
  let ?M1 = "M\<lparr>nif := s', asked := asked M @ [(Rq_pread h (e_offset e) (total specs), Ret (mk_ok (TBin bs)))]\<rparr>"
  let ?t = "fd_bump_offset t fd (int (length bs))"
  let ?k = "write_u32 out (int (length bs)) (save_if ?t)"
  have go: "perform K dw E (p1_fd_read fd iovs n out t) M = perform K dw E (scatter specs bs ?k) ?M1"
    using assms(1-5,7)
    by (simp add: p1_fd_read_def with_fd_def fd_lookup_def has_def iovec_specs_vectors do_read_def on_handle_def ask_def
        mk_ok_def read_done_def)
  have specs: "buffers (memory ?M1) specs" and here: "in_bounds (memory M) (to_u32 out, 4)"
    and apart: "\<And>s. s \<in> set specs \<Longrightarrow> separate (to_u32 out, 4) s"
    using assms(6) by (simp_all add: buffers_def)
  obtain m where m: "perform K dw E (scatter specs bs ?k) ?M1 = perform K dw E ?k (?M1\<lparr>memory := m\<rparr>)"
      "length m = length (memory ?M1)" "take (length bs) (contents m specs) = bs"
    using scatter_fills [OF specs assms(8), of K dw E ?k] by blast
  have out: "in_bounds m (to_u32 out, 4)" using here m(2) by (simp add: in_bounds_def)
  have four: "int (length (u32 (int (length bs)))) \<le> 4" by simp
  obtain m' where m': "store_bytes m (to_u32 out) (u32 (int (length bs))) = Some m'"
    using store_in_bounds [OF out four] by blast
  have "contents m' specs = contents m specs"
    by (intro contents_same) (simp add: load_other [OF m'] apart)
  moreover have "load_bytes m' (to_u32 out) 4 = Some (u32 (int (length bs)))"
    using load_own [OF m' out four] by auto
  moreover have "perform K dw E ?k (?M1\<lparr>memory := m\<rparr>) = Some (Saved ESUCCESS ?t, ?M1\<lparr>memory := m'\<rparr>)"
    using m' by (simp add: write_mem_def save_if_def)
  ultimately show ?thesis
    using go m assms(1) by (intro exI [of _ "?M1\<lparr>memory := m'\<rparr>"]) (simp add: fd_bump_offset_def)
qed

definition sample_reader :: fd_table where
  "sample_reader = \<lparr>fds = [4 \<mapsto> (new_fd File 4)\<lparr>e_rights := FD_READ, e_handle := Some 0, e_offset := 1\<rparr>],
     next_fd = 5, baseline = {}\<rparr>"

theorem fd_read_fills_buffers_witness:
  "\<exists>M'. perform mem_kernel False sample_env (p1_fd_read 4 0 1 56 sample_reader)
       \<lparr>nif = one_handle sample_file, memory = [48, 0, 0, 0, 3, 0, 0, 0] @ replicate 56 0, asked = []\<rparr>
     = Some (Saved ESUCCESS (sample_reader\<lparr>fds := (fds sample_reader)(4 \<mapsto>
         (the (fds sample_reader 4))\<lparr>e_offset := 4\<rparr>)\<rparr>), M')
     \<and> take 3 (contents (memory M') [(48, 3)]) = bytes_of ''ell''"
proof -
  let ?m = "[48, 0, 0, 0, 3, 0, 0, 0] @ replicate 56 (0 :: byte)"
  let ?M = "\<lparr>nif = one_handle sample_file, memory = ?m, asked = []\<rparr>"
  let ?e = "(new_fd File 4)\<lparr>e_rights := FD_READ, e_handle := Some 0, e_offset := 1\<rparr>"
  have e: "fds sample_reader 4 = Some ?e" "has ?e FD_READ" "e_type ?e = File" "e_handle ?e = Some 0"
    by (simp_all add: sample_reader_def new_fd_def has_def right_defs)
  have v: "vectors (memory ?M) 0 1 = Some [(48, 3)]"
    by (simp add: vectors_def load_bytes_def to_u32_def int_le_def)
  have b: "buffers (memory ?M) ((to_u32 56, 4) # [(48, 3)])"
    by (simp add: buffers_def in_bounds_def separate_def to_u32_def)
  have q: "fs_request mem_kernel False (Rq_pread 0 (e_offset ?e) (total [(48, 3)])) (nif ?M)
      = Some (Ret (mk_ok (TBin (bytes_of ''ell''))), snd (the (fs_request mem_kernel False (Rq_pread 0 1 3) (nif ?M))))"
    by (simp add: fs_pread_def nif_case_def pread_nif_def io_eval mem_pread_def mem_node_def mk_ok_def)
  have n: "int (length (bytes_of ''ell'')) \<le> total [(48, 3)]" by (simp add: bytes_of_def)
  from fd_read_fills_buffers [OF e v b q n, of sample_env] show ?thesis
    using e(1) by (auto simp: bytes_of_def new_fd_def numeral_3_eq_3)
qed

end
