(* ===== verification/P1_Instance.thy ===== *)
theory P1_Instance
  imports P1_Teardown
begin

text \<open>
  The table in its instance. It is built at the first system call and kept with the instance: \<^verbatim>\<open>state/2\<close>
  makes it, \<^verbatim>\<open>save/2\<close> replaces it. When building it raises, the exception is caught with those of the call, and
  nothing is kept: the next call tries again.
\<close>

definition p1_state :: "'w kernel \<Rightarrow> bool \<Rightarrow> 'w env \<Rightarrow> p1_config \<Rightarrow> fd_table option \<Rightarrow> 'w machine
    \<Rightarrow> (fd_table option \<times> 'w machine) option" where
  "p1_state K dw E Cfg st M =
     (case st of
        Some t \<Rightarrow> Some (Some t, M)
      | None \<Rightarrow>
          map_option (\<lambda>(r, M'). (case r of Saved e t \<Rightarrow> Some t | _ \<Rightarrow> None, M')) (perform K dw E (initial_state Cfg) M))"

definition instance_call :: "'w kernel \<Rightarrow> bool \<Rightarrow> 'w env \<Rightarrow> p1_config \<Rightarrow> wasi_call \<Rightarrow> fd_table option \<Rightarrow> 'w machine
    \<Rightarrow> (nat \<times> fd_table option \<times> 'w machine) option" where
  "instance_call K dw E Cfg c st M =
     (case p1_state K dw E Cfg st M of
        None \<Rightarrow> None
      | Some (None, M') \<Rightarrow> Some (EIO, None, M')
      | Some (Some t, M') \<Rightarrow>
          map_option (\<lambda>(e, t', M''). (e, Some t', M'')) (dispatch K dw E (readdir_batch_bytes Cfg) c t M'))"

fun instance_run :: "'w kernel \<Rightarrow> bool \<Rightarrow> 'w env \<Rightarrow> p1_config \<Rightarrow> wasi_call list \<Rightarrow> fd_table option \<Rightarrow> 'w machine
    \<Rightarrow> (nat list \<times> fd_table option \<times> 'w machine) option" where
  "instance_run K dw E Cfg [] st M = Some ([], st, M)"
| "instance_run K dw E Cfg (c # cs) st M =
     (case instance_call K dw E Cfg c st M of
        None \<Rightarrow> None
      | Some (e, st', M') \<Rightarrow> map_option (\<lambda>(r, q). (e # r, q)) (instance_run K dw E Cfg cs st' M'))"

text \<open>An instance that has its table lives the life of \<open>p1_run\<close>.\<close>

lemma instance_run_started:
  "instance_run K dw E Cfg cs (Some t) M
    = map_option (\<lambda>(rs, t', M'). (rs, Some t', M')) (p1_run K dw E (readdir_batch_bytes Cfg) (map Inl cs) t M)"
proof (induction cs arbitrary: t M)
  case (Cons c cs)
  then show ?case
    by (auto simp: instance_call_def p1_state_def option.map_comp comp_def split_beta split: option.split)
qed simp

lemma instance_run_starts:
  assumes "perform K dw E (initial_state Cfg) M = Some (Saved e t, M1)"
  shows "instance_run K dw E Cfg (c # cs) None M = instance_run K dw E Cfg (c # cs) (Some t) M1"
  using assms by (simp add: instance_call_def p1_state_def)

subsection \<open>A preopen that raises\<close>

lemma wide_preopen:
  "c \<in> set cs \<Longrightarrow> 256 \<le> c \<Longrightarrow> fs_preopen K (TList (map TInt cs)) s = Some (Raise ''badarg'', s)"
  using latin1_only [of c cs] by (simp add: fs_preopen_def nif_case_def open_dir_nif_def split: option.split)

lemma preopens_raise:
  assumes "perform K dw E (preopen_entries ds acc n k) M = Some (r, M')"
    and "(g, TList (map TInt cs), w) \<in> set ds" and "c \<in> set cs" and "256 \<le> c"
  shows "r = Raised"
  using assms(1,2)
proof (induction ds arbitrary: acc n M)
  case (Cons d ds)
  show ?case
  proof (cases "d = (g, TList (map TInt cs), w)")
    case True
    with Cons.prems(1) show ?thesis by (simp add: ask_def wide_preopen [OF assms(3,4)])
  next
    case False
    with Cons.prems(2) have rest: "(g, TList (map TInt cs), w) \<in> set ds" by simp
    obtain g' host w' where d: "d = (g', host, w')" by (cases d)
    from Cons.prems(1) obtain q s where q: "fs_request K dw (Rq_preopen host) (nif M) = Some (q, s)"
      by (auto simp: d ask_def split: option.splits)
    show ?thesis
    proof (cases q)
      case (Ret t)
      with q Cons.prems(1) Cons.IH [OF _ rest] show ?thesis
        by (cases "fs_reply t") (auto simp: d ask_def on_handle_def split: option.splits)
    qed (use q Cons.prems(1) in \<open>simp add: d ask_def\<close>)
  qed
qed simp

text \<open>
  C30. One host path with a character beyond Latin-1 takes all of preview 1 away. \<^verbatim>\<open>wasi_fs:preopen\<close> raises for
  it, inside the first system call; the table is not kept; and so every system call of the instance, on its
  streams and its other directories too, is answered EIO.
\<close>

theorem wide_host_path_disables_wasi:
  assumes "(g, TList (map TInt cs), w) \<in> set (dirs Cfg)" and "c \<in> set cs" and "256 \<le> c"
    and "instance_run K dw E Cfg calls None M = Some (rs, st, M')"
  shows "set rs \<subseteq> {EIO} \<and> st = None"
  using assms(4)
proof (induction calls arbitrary: rs M)
  case (Cons call calls)
  have "r = Raised" if "perform K dw E (initial_state Cfg) M = Some (r, M1)" for r M1
    using that preopens_raise [OF _ assms(1-3)] unfolding initial_state_def by blast
  then have "e = EIO \<and> st1 = None" if "instance_call K dw E Cfg call None M = Some (e, st1, M1)" for e st1 M1
    using that by (fastforce simp: instance_call_def p1_state_def split: option.splits)
  with Cons show ?case by (fastforce split: option.splits)
qed simp

theorem wide_host_path_disables_wasi_witness:
  "fst (the (instance_run mem_kernel False sample_env
      ((sample_config True)\<lparr>dirs := [(bytes_of ''/'', TList [TInt 26085], True)]\<rparr>) [Fd_write 1 0 0 8, Fd_sync 0] None
      sample_machine)) = [29, 29]"
proof -
  let ?Cfg = "(sample_config True)\<lparr>dirs := [(bytes_of ''/'', TList [TInt 26085], True)]\<rparr>"
  have "fs_preopen mem_kernel (TList [TInt 26085]) s = Some (Raise ''badarg'', s)" for s
    using wide_preopen [of 26085 "[26085]"] by simp
  then obtain rs st M' where run: "instance_run mem_kernel False sample_env ?Cfg [Fd_write 1 0 0 8, Fd_sync 0] None
      sample_machine = Some (rs, st, M')" "length rs = 2"
    by (simp add: instance_call_def p1_state_def initial_state_def ask_def)
  have "(bytes_of ''/'', TList (map TInt [26085]), True) \<in> set (dirs ?Cfg)" by simp
  from wide_host_path_disables_wasi [OF this _ _ run(1), of 26085] run
  show ?thesis by (cases rs) (auto simp: length_Suc_conv)
qed

end
