(* ===== verification/Spec2Isabelle.thy ===== *)
theory Spec2Isabelle
  imports Path_Match Fs_Requests Nif_Types Nif_Lock Nif_Runs Nif_Contained Nif_Calls Nif_Entries
    Nif_Expansion Nif_Defects P1_Inside P1_Vectors P1_Instance
begin

text \<open>
  The file access of erlang_wasm: the NIF \<^verbatim>\<open>c_src/wasi_file_nif.c\<close>, the Erlang module above it,
  \<^verbatim>\<open>src/wasi/wasi_fs.erl\<close>, the resolver that takes the NIF's place where it was not built,
  \<^verbatim>\<open>src/wasi/wasi_path.erl\<close>, and the system calls of preview 1 that a guest makes of them,
  \<^verbatim>\<open>src/wasi/wasi_preview1.erl\<close>. Together they decide what a WebAssembly guest can reach on the host.

  \<^bold>\<open>The parts and how they meet.\<close> A guest has descriptors, numbers of a table that \<^verbatim>\<open>wasi_preview1\<close> keeps:
  the streams, the directories it was granted (its preopens), and what it opened below them, each with the
  rights it has and those it passes down. A system call looks the descriptor up, tests a right, reads
  paths and vectors from the guest's memory, and asks \<^verbatim>\<open>wasi_fs\<close>. \<^verbatim>\<open>wasi_fs\<close> encodes the request (flags, operation numbers, timestamps) and calls the NIF. The
  NIF takes the path apart and opens one component after the other, each relative to the directory
  before it and never through a symlink; it reads the text of a symlink and walks it as another path,
  with a depth that never falls below zero and a budget for nested links. What it opens it wraps in a
  handle, a resource of the emulator with a lock; operations on a handle take its lock, make one system
  call and let go. Errors go up as atoms, which \<^verbatim>\<open>wasi_fs\<close> turns into WASI codes.

  \<^bold>\<open>The model.\<close> The system calls, the platform's constants and the emulator's allocations are the fields
  of the record \<open>kernel\<close> (\<open>Nif_Kernel\<close>), over a world \<open>'w\<close> about which nothing is known; every
  definition that makes a call has the kernel as its argument and passes the world on. So an answer of a
  call may differ from the one before it, and the file tree may change between any two calls. The state
  of the NIF is the world and the table of handles (\<open>nif\<close>, \<open>file_handle\<close> in \<open>Nif_Handle\<close>). A call returns
  a term, or \<open>Badarg\<close>; errors inside are sums, errnos are the names that the code's table has.
  \<open>audited\<close> is the kernel that keeps books of the descriptors and streams handed out (\<open>held\<close>, \<open>strm\<close>)
  and whether every call so far used one of them and was allowed by a policy (\<open>ok\<close>). The definitions
  are run on it as on any other kernel; the audit is a way to state what they do.
  A system call of preview 1 is a conversation (\<open>'a host\<close> in \<open>P1_Host\<close>): a tree of questions to \<^verbatim>\<open>wasi_fs\<close>, the
  memory and the host, with a branch for every answer, ending in an errno and a table. \<open>guarded\<close> says that
  a conversation keeps to a rule whatever is answered; \<open>perform\<close> runs it on the model of \<^verbatim>\<open>wasi_fs\<close> and the NIF, on
  the guest's memory and on an \<open>env\<close>: \<^verbatim>\<open>wasi_path:resolve\<close>, \<^verbatim>\<open>classify\<close>, the clock, and the devices of the
  streams, about which nothing is assumed but, where a call is to return, that the resolver does.

  \<^bold>\<open>From theories to code.\<close>
  \<^item> \<open>Nif_Prelude\<close>: bytes, C strings, \<^verbatim>\<open>strtok_r\<close>, little-endian integers. \<open>Nif_Term\<close>: \<^verbatim>\<open>errno_name\<close>,
    \<^verbatim>\<open>mk_errno\<close>, \<^verbatim>\<open>mk_ok\<close>, the \<^verbatim>\<open>enif_get_*\<close>, and \<^verbatim>\<open>wasi_fs:map_posix/1\<close>.
  \<^item> \<open>Nif_Walk\<close>: \<^verbatim>\<open>step\<close>, \<^verbatim>\<open>walk_from\<close> with its loop, \<^verbatim>\<open>walk_open\<close>, \<^verbatim>\<open>walk_parent\<close>, \<^verbatim>\<open>resolve_final\<close>.
  \<^item> \<open>Nif_Handle\<close>: \<^verbatim>\<open>file_handle\<close>, \<^verbatim>\<open>file_dtor\<close>, \<^verbatim>\<open>new_handle\<close>, \<^verbatim>\<open>handle_lock\<close>, \<^verbatim>\<open>dir_dup\<close>.
  \<^item> \<open>Nif_Path_Ops\<close>: \<^verbatim>\<open>path_op\<close>, \<^verbatim>\<open>path_op2\<close>, \<^verbatim>\<open>open_at\<close>, \<^verbatim>\<open>open_dir\<close>, \<^verbatim>\<open>decode_times\<close>, \<^verbatim>\<open>stat_map\<close>.
    \<open>Nif_Io\<close>: \<^verbatim>\<open>pread\<close>, \<^verbatim>\<open>pwrite\<close>, \<^verbatim>\<open>futimes\<close>, \<^verbatim>\<open>fstat\<close>, \<^verbatim>\<open>ftruncate\<close>, \<^verbatim>\<open>fsync\<close>, \<^verbatim>\<open>close\<close>, \<^verbatim>\<open>dup\<close>.
    \<open>Nif_Readdir\<close>: \<^verbatim>\<open>readdir_names\<close> and \<^verbatim>\<open>readdir\<close> with its wire format.
  \<^item> \<open>Nif_Calls\<close>: the table \<^verbatim>\<open>funcs\<close>, a call through it, runs of calls and collections.
  \<^item> \<open>Fs_Native\<close>: the native clauses of \<^verbatim>\<open>wasi_fs\<close>, one definition per function. \<open>Path_Fallback\<close>:
    \<^verbatim>\<open>safe_relative_path/2\<close>, \<^verbatim>\<open>resolve_checked/3\<close>, \<^verbatim>\<open>resolve_last/3\<close>, \<^verbatim>\<open>verify_within/2\<close> of \<^verbatim>\<open>wasi_path\<close>.
  \<^item> \<open>P1_Table\<close>: the constants of \<^verbatim>\<open>wasi.hrl\<close>, \<^verbatim>\<open>#wasi_fd{}\<close>, the table and the helpers of \<^verbatim>\<open>wasi_preview1\<close>,
    \<^verbatim>\<open>close_all/1\<close>, \<^verbatim>\<open>initial_state/1\<close>, \<^verbatim>\<open>eligible/1\<close>. \<open>P1_Files\<close> and \<open>P1_Paths\<close>: the clauses of \<^verbatim>\<open>handle/5\<close> for
    \<^verbatim>\<open>fd_*\<close> and \<^verbatim>\<open>path_*\<close>, one definition per clause (\<open>p1_fd_read\<close> for \<^verbatim>\<open>fd_read\<close>). \<open>P1_Calls\<close>: \<^verbatim>\<open>dispatch/4\<close>, runs
    of calls, and what rights mean (\<open>licensed\<close>, \<open>derived\<close>).
  \<^item> \<open>Nif_Mem\<close> is a kernel in memory that one can run. It models no code; witnesses are evaluated on it,
    and it has every law that is assumed of a kernel.

  \<^bold>\<open>What is proved.\<close>
  \<^item> The sandbox. \<open>Nif_Sandbox\<close> states the laws of a kernel whose directories keep their parents (\<open>dir_laws\<close>)
    and what is inside; \<open>Nif_Walk_Rule\<close> is the one induction over the walk, over an invariant given by the
    locale \<open>walker\<close>; \<open>Nif_Contained\<close> has the properties of the walks, \<open>Nif_Calls\<close> of any single call,
    \<open>Nif_Runs\<close> of a guest's whole life and \<open>Fs_Requests\<close> of every sequence of requests to \<^verbatim>\<open>wasi_fs\<close>. The
    tree may change all the time, by other processes and by the guest, as long as no directory moves.
  \<^item> The books: \<open>Nif_Books\<close> and \<open>Nif_Ops\<close> carry them through all functions, on every kernel; no descriptor
    leaks, none is used or closed after it was closed, no lock stays taken. \<open>Nif_Frame\<close> is the contract
    that the NIF changes the world by its calls alone.
  \<^item> What the walk finds: \<open>Nif_Resolver\<close> and \<open>Nif_Expansion\<close>, on a tree that stands still: the walk refines
    a pure resolution, which is the reading of a path with its links replaced by their texts.
    \<open>Path_Agree\<close> and \<open>Path_Match\<close> say the same of the fallback's resolver, and that the two agree.
  \<^item> Threads: \<open>Nif_Lock\<close> interleaves calls on shared handles statement by statement; a descriptor that was
    tested under the lock is open when it is used, and every interleaving is one of whole calls.
  \<^item> Listings: \<open>Nif_Entries\<close>, over the locale \<open>stream\<close> of a directory stream: bounds, the wire format and
    its parser, pages that list everything.
  \<^item> Types and formats: \<open>Nif_Types\<close> types arguments and results of the functions, \<open>Fs_Requests\<close> those of
    \<^verbatim>\<open>wasi_fs\<close>; \<open>Nif_Formats\<close> has the errors, the timestamps down and up, the chunk limit.
  \<^item> Rights: \<open>P1_Lawful\<close> shows of every system call, for every answer, that it asks only what a right of its
    table licenses and leaves only entries derived from those it found. \<open>P1_Rights\<close> has what follows for a
    guest's life: rights never grow, a grant for reading changes nothing, every call is answered.
  \<^item> Ownership: \<open>Nif_Growth\<close> (a handle stays open until it is closed) and \<open>P1_Owners\<close>: what the table holds is
    open and held once; \<open>P1_Teardown\<close>: the end of an instance closes it. \<open>P1_Inside\<close> carries the sandbox up
    to system calls. \<open>P1_Snapshot\<close>: what the snapshot test guarantees, and what not. \<open>P1_Vectors\<close>: what
    \<^verbatim>\<open>fd_read\<close> and \<^verbatim>\<open>fd_write\<close> do to the memory. \<open>P1_Instance\<close>: the table made at the first call
    (\<^verbatim>\<open>state/2\<close>), and a configuration for which it never is.
  \<^item> \<open>Nif_Defects\<close>, and single theorems of \<open>Fs_Requests\<close>, \<open>Path_Agree\<close>, \<open>P1_Snapshot\<close>, \<open>P1_Vectors\<close> and \<open>P1_Instance\<close>, are runs that break a promise of the
    comments or specs. They are the reasons for hypotheses elsewhere: no \<^verbatim>\<open>FOLLOW\<close> operation of
    \<^verbatim>\<open>path_op\<close>, mutexes that can be created, directories that do not move.

  \<^bold>\<open>Bounds and termination.\<close> \<open>MAX_PATH_LEN\<close> (4096), \<open>MAX_SYMLINKS\<close> (8) and \<open>MAX_IO_CHUNK\<close> are the code's.
  The three functions of the walk are total: the budget falls whenever a link's text is walked, so no
  fuel is needed. \<open>names_loop\<close> (the loop of \<^verbatim>\<open>readdir_names\<close>) and \<open>srp\<close> (the fallback's resolver) need not
  end; they are partial functions with \<open>None\<close> for not returning, and where they return that is proved.
  Integers have the width they have in C: \<^verbatim>\<open>u64\<close> times, inodes and cookies wrap, flags are 32-bit words,
  and a term that does not fit its C type is badarg.

  \<^bold>\<open>Not modelled.\<close> \<^verbatim>\<open>load\<close> only registers the resource type; that handles of it exist is the model's
  assumption. Scheduling on dirty schedulers and the emulator's own memory are not there. Of
  \<^verbatim>\<open>wasi_path\<close> the UTF-8 decoding is left out (a name is its bytes), and the file system it asks stands
  still. Of \<^verbatim>\<open>wasi_preview1\<close> sockets are left out (tables have none, as under the default grant), and with
  them \<^verbatim>\<open>poll_oneoff\<close>; so are arguments, environment, clocks, random numbers and \<^verbatim>\<open>proc_exit\<close>, which touch
  neither the table nor a file. The path calls are those of the native backend. The file clauses of
  \<^verbatim>\<open>wasi_fs\<close>, preview 2, and the rest of the system (decoder, validator, interpreter, JIT,
  garbage-collected heap, component model, supervision, text format) are Erlang that runs above or beside
  this code.
\<close>

end
